(* ===== verification/Prelude.thy ===== *)
theory Prelude
  imports Main "HOL-Library.Word" "HOL-Library.Sublist"
begin

text \<open>
  The shared ground of the development: the machine types of the Go code, Go's error values
  (\<open>errors.New\<close>, \<open>io.EOF\<close>, \<open>errors.Join\<close>, \<open>errors.Is\<close>), the few \<open>fmt\<close> verbs the code formats
  its messages with, and the small sequencing calculus in which the two protocol roles are
  written: a computation maps a state to an outcome and the next state, and the outcome of a
  handler is a value, an early \<open>return\<close>, or a panic. The lemmas about it are collected in
  \<open>gom_simps\<close> (evaluation) and \<open>keeps_intros\<close> (preservation of an invariant).
\<close>

named_theorems gom_simps \<open>evaluation of sequenced computations\<close>
named_theorems keeps_intros \<open>introduction rules for invariants kept by a computation\<close>

unbundle bit_operations_syntax

section \<open>Machine types\<close>

type_synonym byte = "8 word"
type_synonym bytes = "byte list"
type_synonym u32 = "32 word"
type_synonym u64 = "64 word"

text \<open>\<open>[]byte(s)\<close> and \<open>string(b)\<close>: Go strings are byte strings.\<close>

definition bytes_of :: "string \<Rightarrow> bytes" where
  "bytes_of s = map of_char s"

definition string_of :: "bytes \<Rightarrow> string" where
  "string_of b = map (\<lambda>x. char_of (unat x)) b"

lemma length_bytes_of [simp]: "length (bytes_of s) = length s"
  by (simp add: bytes_of_def)

lemma length_string_of [simp]: "length (string_of b) = length b"
  by (simp add: string_of_def)

lemma string_of_bytes_of [simp]: "string_of (bytes_of s) = s"
proof -
  have "char_of (unat (of_char c :: byte)) = c" for c :: char
  proof -
    have "unat (of_char c :: byte) = (of_char c :: nat)"
      using unat_of_nat [where x = "of_char c :: nat" and 'a = 8] of_char_of
      by (simp add: of_nat_of_char unat_of_nat)
    then show ?thesis by simp
  qed
  then show ?thesis by (simp add: string_of_def bytes_of_def o_def)
qed

section \<open>Go errors\<close>

text \<open>
  An error value: \<open>io.EOF\<close>, \<open>io.ErrUnexpectedEOF\<close>, \<open>io.ErrShortWrite\<close>, an error known by its text only
  (\<open>errors.New\<close>, \<open>fmt.Errorf\<close>, or one returned by a library), or the result of \<open>errors.Join\<close>.
  \<open>Blocked\<close> is not an error of the code: it marks a read that has not returned yet because the
  peer has sent nothing more, so that a role waiting for its peer is a state of the model.
\<close>

datatype goerr = EOF | UnexpectedEOF | ShortWrite | ErrText string | JoinErr "goerr list" | Blocked

fun join_lines :: "string list \<Rightarrow> string" where
  "join_lines [] = []"
| "join_lines [l] = l"
| "join_lines (l # ls) = l @ [char_of (10::nat)] @ join_lines ls"

text \<open>\<open>err.Error()\<close>; a joined error prints its parts on lines of their own.\<close>

fun err_text :: "goerr \<Rightarrow> string" where
  "err_text EOF = ''EOF''"
| "err_text UnexpectedEOF = ''unexpected EOF''"
| "err_text ShortWrite = ''short write''"
| "err_text (ErrText s) = s"
| "err_text (JoinErr es) = join_lines (map err_text es)"
| "err_text Blocked = []"

text \<open>\<open>errors.Is(err, io.EOF)\<close>, which looks through joined errors.\<close>

fun is_eof :: "goerr \<Rightarrow> bool" where
  "is_eof EOF = True"
| "is_eof (JoinErr es) = list_ex is_eof es"
| "is_eof _ = False"

text \<open>\<open>errors.Join\<close>: nil when every argument is nil.\<close>

definition join_errs :: "goerr option list \<Rightarrow> goerr option" where
  "join_errs es =
     (case List.map_filter id es of [] \<Rightarrow> None | ns \<Rightarrow> Some (JoinErr ns))"

lemma map_filter_id_eq_Nil: "List.map_filter id es = [] \<longleftrightarrow> (\<forall>e\<in>set es. e = None)"
  by (induction es) (auto simp: List.map_filter_def)

lemma join_errs_None [simp]: "join_errs es = None \<longleftrightarrow> (\<forall>e\<in>set es. e = None)"
  by (auto simp: join_errs_def map_filter_id_eq_Nil [symmetric] split: list.splits)

section \<open>Formatting\<close>

text \<open>The verbs \<open>%d\<close>, \<open>%02x\<close> of package \<open>fmt\<close>.\<close>

definition digit_char :: "nat \<Rightarrow> char" where
  "digit_char d = char_of (if d < 10 then 48 + d else 87 + d)"

fun show_nat :: "nat \<Rightarrow> string" where
  "show_nat n = (if n < 10 then [digit_char n] else show_nat (n div 10) @ [digit_char (n mod 10)])"

declare show_nat.simps [simp del]

definition show_int :: "int \<Rightarrow> string" where
  "show_int i = (if i < 0 then ''-'' @ show_nat (nat (- i)) else show_nat (nat i))"

definition show_02x :: "byte \<Rightarrow> string" where
  "show_02x b = [digit_char (unat b div 16), digit_char (unat b mod 16)]"

section \<open>Sequenced computations\<close>

text \<open>
  The outcome of running a piece of a role: a value for the statements that follow, an early
  \<open>return\<close> with its error (\<open>None\<close> is \<open>return nil\<close>), or a run-time panic.
\<close>

datatype 'a outcome = Val 'a | Return "goerr option" | Panic string

type_synonym ('s, 'a) gom = "'s \<Rightarrow> 'a outcome \<times> 's"

definition ret :: "'a \<Rightarrow> ('s, 'a) gom" where
  "ret x s = (Val x, s)"

definition stop :: "goerr option \<Rightarrow> ('s, 'a) gom" where
  "stop e s = (Return e, s)"

definition panic :: "string \<Rightarrow> ('s, 'a) gom" where
  "panic p s = (Panic p, s)"

definition seq :: "('s, 'a) gom \<Rightarrow> ('a \<Rightarrow> ('s, 'b) gom) \<Rightarrow> ('s, 'b) gom" where
  "seq m k s =
     (case m s of
        (Val x, s') \<Rightarrow> k x s'
      | (Return e, s') \<Rightarrow> (Return e, s')
      | (Panic p, s') \<Rightarrow> (Panic p, s'))"

definition gets :: "('s \<Rightarrow> 'a) \<Rightarrow> ('s, 'a) gom" where
  "gets f s = (Val (f s), s)"

definition modify :: "('s \<Rightarrow> 's) \<Rightarrow> ('s, unit) gom" where
  "modify f s = (Val (), f s)"

definition cond :: "bool \<Rightarrow> ('s, unit) gom \<Rightarrow> ('s, unit) gom" where
  "cond b m = (if b then m else ret ())"

text \<open>\<open>if err != nil { return err }\<close>\<close>

definition chk :: "goerr option \<Rightarrow> ('s, unit) gom" where
  "chk e = (case e of None \<Rightarrow> ret () | Some x \<Rightarrow> stop (Some x))"

text \<open>A loop over the rows of a query or the elements of a slice.\<close>

fun foreach :: "('x \<Rightarrow> ('s, unit) gom) \<Rightarrow> 'x list \<Rightarrow> ('s, unit) gom" where
  "foreach f [] = ret ()"
| "foreach f (x # xs) = seq (f x) (\<lambda>_. foreach f xs)"

text \<open>
  Calling a function whose body ends by a \<open>return\<close>: the caller gets the returned error as a value.
  \<open>deferred d m\<close> is the rest \<open>m\<close> of a function body after \<open>defer func() { err = errors.Join(err, d()) }()\<close>.
\<close>

definition call :: "('s, unit) gom \<Rightarrow> ('s, goerr option) gom" where
  "call m s =
     (case m s of
        (Val _, s') \<Rightarrow> (Val None, s')
      | (Return e, s') \<Rightarrow> (Val e, s')
      | (Panic p, s') \<Rightarrow> (Panic p, s'))"

definition deferred :: "('s, goerr option) gom \<Rightarrow> ('s, 'a) gom \<Rightarrow> ('s, 'a) gom" where
  "deferred d m s =
     (case m s of
        (Val x, s') \<Rightarrow> (Val x, s')
      | (Return e, s') \<Rightarrow>
          (case d s' of
             (Val e', s'') \<Rightarrow> (Return (join_errs [e, e']), s'')
           | (Return e', s'') \<Rightarrow> (Return e', s'')
           | (Panic p, s'') \<Rightarrow> (Panic p, s''))
      | (Panic p, s') \<Rightarrow> (Panic p, s'))"


lemma seq_ret [simp, gom_simps]: "seq (ret x) k = k x"
  by (simp add: fun_eq_iff seq_def ret_def)

lemma seq_ret_right [simp]: "seq m ret = m"
  by (simp add: fun_eq_iff seq_def ret_def split: prod.splits outcome.splits)

lemma seq_stop [simp, gom_simps]: "seq (stop e) k = stop e"
  by (simp add: fun_eq_iff seq_def stop_def)

lemma seq_panic [simp, gom_simps]: "seq (panic p) k = panic p"
  by (simp add: fun_eq_iff seq_def panic_def)

lemma seq_assoc: "seq (seq m f) g = seq m (\<lambda>x. seq (f x) g)"
  by (simp add: fun_eq_iff seq_def split: prod.splits outcome.splits)

lemma seq_Val [gom_simps]: "m s = (Val x, s') \<Longrightarrow> seq m k s = k x s'"
  by (simp add: seq_def)

lemma seq_Return [gom_simps]: "m s = (Return e, s') \<Longrightarrow> seq m k s = (Return e, s')"
  by (simp add: seq_def)

lemma seq_Panic [gom_simps]: "m s = (Panic p, s') \<Longrightarrow> seq m k s = (Panic p, s')"
  by (simp add: seq_def)

lemma ret_run [simp, gom_simps]: "ret x s = (Val x, s)"
  by (simp add: ret_def)

lemma stop_run [simp, gom_simps]: "stop e s = (Return e, s)"
  by (simp add: stop_def)

lemma panic_run [simp, gom_simps]: "panic p s = (Panic p, s)"
  by (simp add: panic_def)

lemma gets_run [simp, gom_simps]: "gets f s = (Val (f s), s)"
  by (simp add: gets_def)

lemma modify_run [simp, gom_simps]: "modify f s = (Val (), f s)"
  by (simp add: modify_def)

lemma seq_gets_run [gom_simps]: "seq (gets f) k s = k (f s) s"
  by (simp add: seq_def)

lemma seq_modify_run [gom_simps]: "seq (modify f) k s = k () (f s)"
  by (simp add: seq_def)

lemma chk_simps [simp, gom_simps]: "chk None = ret ()" "chk (Some e) = stop (Some e)"
  by (simp_all add: chk_def)

lemma cond_simps [simp, gom_simps]: "cond True m = m" "cond False m = ret ()"
  by (simp_all add: cond_def)

lemma seq_cases [consumes 1, case_names Val Return Panic]:
  assumes "seq m k s = r"
  obtains x s' where "m s = (Val x, s')" "k x s' = r"
  | e s' where "m s = (Return e, s')" "r = (Return e, s')"
  | p s' where "m s = (Panic p, s')" "r = (Panic p, s')"
  using assms by (cases "m s"; cases "fst (m s)") (auto simp: seq_def)

section \<open>Invariants kept by a computation\<close>

text \<open>
  \<open>keeps P m\<close>: whatever way \<open>m\<close> ends (value, return or panic), it preserves \<open>P\<close>.
  \<open>triple P m Q\<close>: from a state with \<open>P\<close>, \<open>Q\<close> holds of the outcome and the state reached.
\<close>

definition keeps :: "('s \<Rightarrow> bool) \<Rightarrow> ('s, 'a) gom \<Rightarrow> bool" where
  "keeps P m \<longleftrightarrow> (\<forall>s. P s \<longrightarrow> P (snd (m s)))"

definition triple :: "('s \<Rightarrow> bool) \<Rightarrow> ('s, 'a) gom \<Rightarrow> ('a outcome \<Rightarrow> 's \<Rightarrow> bool) \<Rightarrow> bool" where
  "triple P m Q \<longleftrightarrow> (\<forall>s. P s \<longrightarrow> Q (fst (m s)) (snd (m s)))"

lemma keepsI: "(\<And>s. P s \<Longrightarrow> P (snd (m s))) \<Longrightarrow> keeps P m"
  by (simp add: keeps_def)

lemma keepsD: "keeps P m \<Longrightarrow> P s \<Longrightarrow> P (snd (m s))"
  by (simp add: keeps_def)

lemma keeps_ret [keeps_intros]: "keeps P (ret x)"
  by (simp add: keeps_def)

lemma keeps_stop [keeps_intros]: "keeps P (stop e)"
  by (simp add: keeps_def)

lemma keeps_panic [keeps_intros]: "keeps P (panic p)"
  by (simp add: keeps_def)

lemma keeps_gets [keeps_intros]: "keeps P (gets f)"
  by (simp add: keeps_def)

lemma keeps_modify [keeps_intros]: "(\<And>s. P s \<Longrightarrow> P (f s)) \<Longrightarrow> keeps P (modify f)"
  by (simp add: keeps_def)

lemma keeps_seq [keeps_intros]:
  assumes "keeps P m" and "\<And>x. keeps P (k x)"
  shows "keeps P (seq m k)"
  using assms by (auto simp: keeps_def seq_def split: prod.splits outcome.splits)

lemma keeps_if [keeps_intros]:
  "(b \<Longrightarrow> keeps P m) \<Longrightarrow> (\<not> b \<Longrightarrow> keeps P n) \<Longrightarrow> keeps P (if b then m else n)"
  by simp

lemma keeps_cond [keeps_intros]: "(b \<Longrightarrow> keeps P m) \<Longrightarrow> keeps P (cond b m)"
  by (auto simp: cond_def keeps_ret)

lemma keeps_chk [keeps_intros]: "keeps P (chk e)"
  by (auto simp: chk_def keeps_ret keeps_stop split: option.splits)

lemma keeps_foreach [keeps_intros]: "(\<And>x. x \<in> set xs \<Longrightarrow> keeps P (f x)) \<Longrightarrow> keeps P (foreach f xs)"
  by (induction xs) (auto intro!: keeps_intros)

lemma keeps_option_case [keeps_intros]:
  "keeps P m \<Longrightarrow> (\<And>x. keeps P (k x)) \<Longrightarrow> keeps P (case v of None \<Rightarrow> m | Some x \<Rightarrow> k x)"
  by (simp split: option.splits)

lemma keeps_sum_case [keeps_intros]:
  "(\<And>e. keeps P (m e)) \<Longrightarrow> (\<And>x. keeps P (k x)) \<Longrightarrow> keeps P (case v of Inl e \<Rightarrow> m e | Inr x \<Rightarrow> k x)"
  by (simp split: sum.splits)

lemma keeps_prod_case [keeps_intros]:
  "(\<And>x y. keeps P (f x y)) \<Longrightarrow> keeps P (case v of (x, y) \<Rightarrow> f x y)"
  by (simp split: prod.splits)

lemma keeps_list_case [keeps_intros]:
  "keeps P m \<Longrightarrow> (\<And>x xs. keeps P (k x xs)) \<Longrightarrow> keeps P (case v of [] \<Rightarrow> m | x # xs \<Rightarrow> k x xs)"
  by (simp split: list.splits)

lemma keeps_let [keeps_intros]: "(\<And>x. keeps P (f x)) \<Longrightarrow> keeps P (let x = v in f x)"
  by simp

lemma tripleI: "(\<And>s. P s \<Longrightarrow> Q (fst (m s)) (snd (m s))) \<Longrightarrow> triple P m Q"
  by (simp add: triple_def)

lemma tripleD: "triple P m Q \<Longrightarrow> P s \<Longrightarrow> Q (fst (m s)) (snd (m s))"
  by (simp add: triple_def)

lemma triple_seq:
  assumes "triple P m (\<lambda>r s. case r of Val x \<Rightarrow> R x s | Return e \<Rightarrow> Q (Return e) s | Panic p \<Rightarrow> Q (Panic p) s)"
    and "\<And>x. triple (R x) (k x) Q"
  shows "triple P (seq m k) Q"
  using assms
  by (fastforce simp: triple_def seq_def split: prod.splits outcome.splits)

end
