(* ===== verification/GoIO.thy ===== *)
theory GoIO
  imports Prelude
begin

text \<open>
  The streams under the wire layer. \<open>ctxStream\<close> (sqlitersync/sync.go) checks the run's context
  before every underlying read and write; above it sit the parts of Go's standard library the
  wire package is built on: \<open>bufio.Reader\<close> and \<open>bufio.Writer\<close> with their 4096-byte buffers and
  \<open>io.ReadFull\<close>. The underlying \<open>io.ReadWriter\<close> belongs to the caller: what it delivers is the
  list of chunks its reads will return and the error it ends with, what it accepts is a plan of
  the failures of its writes. The lemmas show that reading is independent of how the stream is
  chunked and that the buffered writer neither loses, reorders nor duplicates bytes.
\<close>

section \<open>The context check\<close>

text \<open>
  A context that is never cancelled (\<open>passes = None\<close>), or that is cancelled after so many more
  checks of this direction and then fails with \<open>ctx_error\<close>.
\<close>

record ctx =
  passes :: "nat option"
  ctx_error :: goerr

definition ctx_Err :: "ctx \<Rightarrow> ctx \<times> goerr option" where
  "ctx_Err c =
     (case passes c of
        None \<Rightarrow> (c, None)
      | Some 0 \<Rightarrow> (c, Some (ctx_error c))
      | Some (Suc n) \<Rightarrow> (c\<lparr>passes := Some n\<rparr>, None))"

text \<open>
  The incoming half of the caller's stream: the chunks its reads will deliver, then the error
  (\<open>EOF\<close> when the peer closed, \<open>Blocked\<close> when it has not sent more yet).
\<close>

record instream =
  in_ctx :: ctx
  in_chunks :: "bytes list"
  in_end :: goerr

text \<open>One read of the caller's stream into a buffer of \<open>n\<close> bytes.\<close>

definition rw_Read :: "instream \<Rightarrow> nat \<Rightarrow> instream \<times> bytes \<times> goerr option" where
  "rw_Read i n =
     (case in_chunks i of
        [] \<Rightarrow> (i, [], Some (in_end i))
      | c # cs \<Rightarrow>
          if length c \<le> n then (i\<lparr>in_chunks := cs\<rparr>, c, None)
          else (i\<lparr>in_chunks := drop n c # cs\<rparr>, take n c, None))"

definition ctxStream_Read :: "instream \<Rightarrow> nat \<Rightarrow> instream \<times> bytes \<times> goerr option" where
  "ctxStream_Read i n =
     (case ctx_Err (in_ctx i) of
        (c, Some e) \<Rightarrow> (i\<lparr>in_ctx := c\<rparr>, [], Some e)
      | (c, None) \<Rightarrow> rw_Read (i\<lparr>in_ctx := c\<rparr>) n)"

text \<open>
  The outgoing half: the outcomes \<open>(m, e)\<close> of the coming writes (the first \<open>m\<close> bytes accepted and
  error \<open>e\<close> returned; an exhausted plan accepts everything) and the bytes the peer receives.
\<close>

record outstream =
  out_ctx :: ctx
  out_plan :: "(nat \<times> goerr option) list"
  out_sent :: bytes

definition rw_Write :: "outstream \<Rightarrow> bytes \<Rightarrow> outstream \<times> nat \<times> goerr option" where
  "rw_Write s p =
     (case out_plan s of
        [] \<Rightarrow> (s\<lparr>out_sent := out_sent s @ p\<rparr>, length p, None)
      | (m, e) # pl \<Rightarrow>
          (s\<lparr>out_plan := pl, out_sent := out_sent s @ take m p\<rparr>, min m (length p), e))"

definition ctxStream_Write :: "outstream \<Rightarrow> bytes \<Rightarrow> outstream \<times> nat \<times> goerr option" where
  "ctxStream_Write s p =
     (case ctx_Err (out_ctx s) of
        (c, Some e) \<Rightarrow> (s\<lparr>out_ctx := c\<rparr>, 0, Some e)
      | (c, None) \<Rightarrow> rw_Write (s\<lparr>out_ctx := c\<rparr>) p)"

section \<open>bufio.Reader and io.ReadFull\<close>

definition bufSize :: nat where
  "bufSize = 4096"

record bufReader =
  br_buf :: bytes
  br_src :: instream

text \<open>
  \<open>(*bufio.Reader).Read\<close> for a buffer of \<open>n > 0\<close> bytes: bytes already buffered are handed out
  first; a request of at least the buffer's size reads directly, any other refills the buffer by
  one underlying read.
\<close>

definition bufReader_Read :: "bufReader \<Rightarrow> nat \<Rightarrow> bufReader \<times> bytes \<times> goerr option" where
  "bufReader_Read b n =
     (if br_buf b \<noteq> [] then (b\<lparr>br_buf := drop n (br_buf b)\<rparr>, take n (br_buf b), None)
      else if bufSize \<le> n then
        (case ctxStream_Read (br_src b) n of (i, d, e) \<Rightarrow> (b\<lparr>br_src := i\<rparr>, d, e))
      else
        (case ctxStream_Read (br_src b) bufSize of
           (i, d, Some e) \<Rightarrow> (b\<lparr>br_src := i\<rparr>, [], Some e)
         | (i, d, None) \<Rightarrow> (b\<lparr>br_src := i, br_buf := drop n d\<rparr>, take n d, None)))"

text \<open>The bytes a reader can still deliver: its buffer, then the chunks of its stream.\<close>

definition avail :: "bufReader \<Rightarrow> bytes" where
  "avail b = br_buf b @ concat (in_chunks (br_src b))"

lemma ctx_Err_Some: "ctx_Err c = (c', Some e) \<Longrightarrow> e = ctx_error c \<and> passes c \<noteq> None"
  by (auto simp: ctx_Err_def split: option.splits nat.splits)

text \<open>What one successful read of at least one byte's room does to the bytes still to come.\<close>

definition in_step :: "instream \<Rightarrow> nat \<Rightarrow> bytes \<Rightarrow> instream \<Rightarrow> bool" where
  "in_step i n d i' \<longleftrightarrow>
     concat (in_chunks i) = d @ concat (in_chunks i') \<and> length d \<le> n \<and>
     in_end i' = in_end i \<and> length (in_chunks i') \<le> length (in_chunks i) \<and>
     (d = [] \<longrightarrow> length (in_chunks i') < length (in_chunks i))"

lemma rw_Read_None: "rw_Read i n = (i', d, None) \<Longrightarrow> 0 < n \<Longrightarrow> in_step i n d i'"
  by (auto simp: rw_Read_def in_step_def split: list.splits if_splits)

lemma rw_Read_Some:
  "rw_Read i n = (i', d, Some e) \<Longrightarrow> i' = i \<and> d = [] \<and> e = in_end i \<and> in_chunks i = []"
  by (auto simp: rw_Read_def split: list.splits if_splits)

lemma in_step_ctx [simp]: "in_step (i\<lparr>in_ctx := c\<rparr>) n d i' = in_step i n d i'"
  by (simp add: in_step_def)

lemma ctxStream_Read_None:
  "ctxStream_Read i n = (i', d, None) \<Longrightarrow> 0 < n \<Longrightarrow> in_step i n d i'"
  by (auto simp: ctxStream_Read_def split: prod.splits option.splits dest!: rw_Read_None)

lemma ctxStream_Read_Some:
  assumes "ctxStream_Read i n = (i', d, Some e)"
  shows "d = [] \<and> in_chunks i' = in_chunks i \<and> in_end i' = in_end i \<and>
    (passes (in_ctx i) = None \<longrightarrow> e = in_end i \<and> in_chunks i = [])"
  using assms
  by (auto simp: ctxStream_Read_def split: prod.splits option.splits dest!: rw_Read_Some ctx_Err_Some)

lemma ctxStream_Read_passes:
  "ctxStream_Read i n = (i', d, e) \<Longrightarrow> passes (in_ctx i) = None \<Longrightarrow> in_ctx i' = in_ctx i"
  by (auto simp: ctxStream_Read_def ctx_Err_def rw_Read_def split: prod.splits list.splits if_splits)

definition br_step :: "bufReader \<Rightarrow> nat \<Rightarrow> bytes \<Rightarrow> bufReader \<Rightarrow> bool" where
  "br_step b n d b' \<longleftrightarrow>
     avail b = d @ avail b' \<and> length d \<le> n \<and> in_end (br_src b') = in_end (br_src b) \<and>
     length (in_chunks (br_src b')) \<le> length (in_chunks (br_src b)) \<and>
     (d = [] \<longrightarrow> length (in_chunks (br_src b')) < length (in_chunks (br_src b)))"

lemma bufReader_Read_None:
  assumes "bufReader_Read b n = (b', d, None)" and "0 < n"
  shows "br_step b n d b'"
proof (cases "br_buf b = []")
  case False
  with assms show ?thesis by (auto simp: bufReader_Read_def br_step_def avail_def)
next
  case True
  with assms show ?thesis
    by (auto simp: bufReader_Read_def br_step_def avail_def in_step_def bufSize_def
        split: if_splits prod.splits option.splits dest!: ctxStream_Read_None)
qed

lemma bufReader_Read_Some:
  assumes "bufReader_Read b n = (b', d, Some e)"
  shows "d = [] \<and> avail b' = avail b \<and> br_buf b = [] \<and> in_end (br_src b') = in_end (br_src b) \<and>
    (passes (in_ctx (br_src b)) = None \<longrightarrow> e = in_end (br_src b) \<and> avail b = [])"
  using assms
  by (auto simp: bufReader_Read_def avail_def split: if_splits prod.splits option.splits
      dest!: ctxStream_Read_Some)

lemma bufReader_Read_passes:
  "bufReader_Read b n = (b', d, e) \<Longrightarrow> passes (in_ctx (br_src b)) = None \<Longrightarrow>
     in_ctx (br_src b') = in_ctx (br_src b)"
  by (auto simp: bufReader_Read_def split: if_splits prod.splits option.splits
      dest: ctxStream_Read_passes)

lemma br_step_decreases:
  assumes "bufReader_Read b (n - k) = (b', d, None)" and "\<not> n \<le> k"
  shows "n - (k + length d) + length (in_chunks (br_src b')) < n - k + length (in_chunks (br_src b))"
  using bufReader_Read_None [OF assms(1)] assms(2) by (cases d) (auto simp: br_step_def)

text \<open>
  \<open>io.ReadFull\<close>: read until \<open>n\<close> bytes are there; the end of the stream after some but not all of
  them is \<open>io.ErrUnexpectedEOF\<close>, before any it is \<open>io.EOF\<close>.
\<close>

function ReadFull_loop :: "bufReader \<Rightarrow> nat \<Rightarrow> bytes \<Rightarrow> bufReader \<times> bytes \<times> goerr option" where
  "ReadFull_loop b n acc =
     (if n \<le> length acc then (b, acc, None)
      else case bufReader_Read b (n - length acc) of
        (b', d, Some e) \<Rightarrow> (b', acc @ d, Some (if acc @ d \<noteq> [] \<and> e = EOF then UnexpectedEOF else e))
      | (b', d, None) \<Rightarrow> ReadFull_loop b' n (acc @ d))"
  by pat_completeness auto
termination
  by (relation "measure (\<lambda>(b, n, acc). (n - length acc) + length (in_chunks (br_src b)))")
    (auto dest!: sym [of "(_, _)" "bufReader_Read _ _"] dest: br_step_decreases)

declare ReadFull_loop.simps [simp del]

definition io_ReadFull :: "bufReader \<Rightarrow> nat \<Rightarrow> bufReader \<times> bytes \<times> goerr option" where
  "io_ReadFull b n = ReadFull_loop b n []"

text \<open>
  The error \<open>io.ReadFull\<close> reports when the stream ends with \<open>e\<close> after the bytes \<open>d\<close>.
\<close>

definition short_read_err :: "bytes \<Rightarrow> goerr \<Rightarrow> goerr" where
  "short_read_err d e = (if d \<noteq> [] \<and> e = EOF then UnexpectedEOF else e)"

lemma ReadFull_loop_ok:
  assumes "ReadFull_loop b n acc = (b', d, None)" and "length acc \<le> n"
  shows "acc @ avail b = d @ avail b' \<and> length d = n \<and> in_end (br_src b') = in_end (br_src b)"
  using assms
proof (induction b n acc rule: ReadFull_loop.induct)
  case (1 b n acc)
  show ?case
  proof (cases "n \<le> length acc")
    case True
    with 1 show ?thesis by (auto simp: ReadFull_loop.simps)
  next
    case False
    obtain b1 d1 e1 where r: "bufReader_Read b (n - length acc) = (b1, d1, e1)"
      by (metis prod_cases3)
    from False r "1.prems"(1) have e1: "e1 = None"
      and rec: "ReadFull_loop b1 n (acc @ d1) = (b', d, None)"
      by (auto simp: ReadFull_loop.simps [of b] split: option.splits)
    from r e1 False have st: "br_step b (n - length acc) d1 b1"
      by (auto intro: bufReader_Read_None)
    from st have "length (acc @ d1) \<le> n" using False by (auto simp: br_step_def)
    with "1.IH" [OF False r [symmetric] refl e1] rec st show ?thesis
      by (auto simp: br_step_def)
  qed
qed

text \<open>With a live context, \<open>io.ReadFull\<close> depends only on the bytes to come, not on the chunks.\<close>

lemma ReadFull_loop_live:
  assumes "passes (in_ctx (br_src b)) = None" and "length acc \<le> n"
  shows "ReadFull_loop b n acc = (b', d, e) \<Longrightarrow>
    in_ctx (br_src b') = in_ctx (br_src b) \<and> in_end (br_src b') = in_end (br_src b) \<and>
    (if n \<le> length (acc @ avail b)
     then d = take n (acc @ avail b) \<and> avail b' = drop n (acc @ avail b) \<and> e = None
     else d = acc @ avail b \<and> avail b' = [] \<and> e = Some (short_read_err d (in_end (br_src b))))"
  using assms
proof (induction b n acc rule: ReadFull_loop.induct)
  case (1 b n acc)
  show ?case
  proof (cases "n \<le> length acc")
    case True
    with 1 show ?thesis by (auto simp: ReadFull_loop.simps)
  next
    case False
    obtain b1 d1 e1 where r: "bufReader_Read b (n - length acc) = (b1, d1, e1)"
      by (metis prod_cases3)
    note pass = bufReader_Read_passes [OF r "1.prems"(2)]
    show ?thesis
    proof (cases e1)
      case (Some x)
      from bufReader_Read_Some [of b _ b1 d1 x] r Some "1.prems"(2)
      have "d1 = []" "avail b1 = avail b" "x = in_end (br_src b)" "avail b = []"
        "in_end (br_src b1) = in_end (br_src b)"
        by auto
      with False r Some "1.prems"(1) pass show ?thesis
        by (auto simp: ReadFull_loop.simps [of b] short_read_err_def)
    next
      case None
      from r None False have st: "br_step b (n - length acc) d1 b1"
        by (auto intro: bufReader_Read_None)
      then have len: "length (acc @ d1) \<le> n" using False by (auto simp: br_step_def)
      from False r None "1.prems"(1) have rec: "ReadFull_loop b1 n (acc @ d1) = (b', d, e)"
        by (simp add: ReadFull_loop.simps [of b])
      from st have av: "avail b = d1 @ avail b1" and en: "in_end (br_src b1) = in_end (br_src b)"
        by (auto simp: br_step_def)
      from pass "1.prems"(2) have "passes (in_ctx (br_src b1)) = None" by simp
      with "1.IH" [OF False r [symmetric] refl None rec _ len] pass av en show ?thesis
        by simp
    qed
  qed
qed

lemma io_ReadFull_ok:
  assumes "io_ReadFull b n = (b', d, None)"
  shows "avail b = d @ avail b' \<and> length d = n \<and> in_end (br_src b') = in_end (br_src b)"
  using ReadFull_loop_ok [of b n "[]" b' d] assms by (simp add: io_ReadFull_def)

lemma io_ReadFull_live:
  assumes "passes (in_ctx (br_src b)) = None" and "io_ReadFull b n = (b', d, e)"
  shows "in_ctx (br_src b') = in_ctx (br_src b) \<and> in_end (br_src b') = in_end (br_src b) \<and>
    (if n \<le> length (avail b)
     then d = take n (avail b) \<and> avail b' = drop n (avail b) \<and> e = None
     else d = avail b \<and> avail b' = [] \<and> e = Some (short_read_err d (in_end (br_src b))))"
  using ReadFull_loop_live [of b "[]" n b' d e] assms by (simp add: io_ReadFull_def)

section \<open>bufio.Writer\<close>

record bufWriter =
  bw_buf :: bytes
  bw_err :: "goerr option"
  bw_out :: outstream

text \<open>\<open>(*bufio.Writer).Flush\<close>; an error sticks to the writer.\<close>

definition bufWriter_Flush :: "bufWriter \<Rightarrow> bufWriter \<times> goerr option" where
  "bufWriter_Flush b =
     (case bw_err b of
        Some e \<Rightarrow> (b, Some e)
      | None \<Rightarrow>
          if bw_buf b = [] then (b, None)
          else case ctxStream_Write (bw_out b) (bw_buf b) of (s, n, e0) \<Rightarrow>
            let e = (if n < length (bw_buf b) \<and> e0 = None then Some ShortWrite else e0) in
            (case e of
               Some x \<Rightarrow> (b\<lparr>bw_out := s, bw_buf := drop n (bw_buf b), bw_err := Some x\<rparr>, Some x)
             | None \<Rightarrow> (b\<lparr>bw_out := s, bw_buf := []\<rparr>, None)))"

lemma ctxStream_Write_plan:
  "ctxStream_Write s p = (s', n, e) \<Longrightarrow>
     length (out_plan s') \<le> length (out_plan s) \<and>
     (n = 0 \<longrightarrow> e = None \<longrightarrow> p \<noteq> [] \<longrightarrow> length (out_plan s') < length (out_plan s))"
  by (auto simp: ctxStream_Write_def ctx_Err_def rw_Write_def min_def
      split: prod.splits option.splits list.splits nat.splits if_splits)

lemma bufWriter_Flush_plan:
  "length (out_plan (bw_out (fst (bufWriter_Flush b)))) \<le> length (out_plan (bw_out b)) \<and>
   (bw_err b = None \<longrightarrow> bw_err (fst (bufWriter_Flush b)) \<noteq> None \<or> bw_buf (fst (bufWriter_Flush b)) = [])"
  using ctxStream_Write_plan [of "bw_out b" "bw_buf b"]
  by (auto simp: bufWriter_Flush_def Let_def split: option.splits prod.splits if_splits)

definition write_measure :: "bufWriter \<Rightarrow> bytes \<Rightarrow> nat" where
  "write_measure b p = length p + length (out_plan (bw_out b)) +
     (if bw_buf b = [] then 0 else 1) + (if bw_err b = None then 1 else 0)"

lemma write_decreases:
  assumes "ctxStream_Write (bw_out b) p = (s, n, e)" and "bufSize - length (bw_buf b) < length p"
    and "bw_buf b = []" "bw_err b = None"
  shows "write_measure (b\<lparr>bw_out := s, bw_err := e\<rparr>) (drop n p) < write_measure b p"
  using ctxStream_Write_plan [OF assms(1)] assms(2-)
  by (cases n; cases e) (auto simp: write_measure_def)

lemma flush_decreases:
  assumes "bw_buf b \<noteq> []" "bw_err b = None"
  shows "write_measure (fst (bufWriter_Flush (b\<lparr>bw_buf := bw_buf b @ q\<rparr>))) (drop n p) < write_measure b p"
proof -
  let ?f = "fst (bufWriter_Flush (b\<lparr>bw_buf := bw_buf b @ q\<rparr>))"
  have "length (out_plan (bw_out ?f)) \<le> length (out_plan (bw_out b))"
    "bw_err ?f \<noteq> None \<or> bw_buf ?f = []"
    using bufWriter_Flush_plan [of "b\<lparr>bw_buf := bw_buf b @ q\<rparr>"] assms by auto
  with assms show ?thesis by (auto simp: write_measure_def)
qed

text \<open>
  \<open>(*bufio.Writer).Write\<close>: while the data does not fit, fill the buffer and flush it, or hand the
  data over directly when the buffer is empty; the rest is buffered.
\<close>

function bufWriter_Write :: "bufWriter \<Rightarrow> bytes \<Rightarrow> bufWriter \<times> goerr option" where
  "bufWriter_Write b p =
     (if length p > bufSize - length (bw_buf b) \<and> bw_err b = None then
        if bw_buf b = [] then
          (case ctxStream_Write (bw_out b) p of (s, n, e) \<Rightarrow>
             bufWriter_Write (b\<lparr>bw_out := s, bw_err := e\<rparr>) (drop n p))
        else
          (let n = bufSize - length (bw_buf b)
           in bufWriter_Write (fst (bufWriter_Flush (b\<lparr>bw_buf := bw_buf b @ take n p\<rparr>))) (drop n p))
      else
        (case bw_err b of
           Some e \<Rightarrow> (b, Some e)
         | None \<Rightarrow> (b\<lparr>bw_buf := bw_buf b @ p\<rparr>, None)))"
  by pat_completeness auto
termination
proof (relation "measure (\<lambda>(b, p). write_measure b p)", goal_cases)
  case 1
  show ?case by simp
next
  case (2 b p s y n e)
  then show ?case using write_decreases [of b p s n e] by simp
next
  case (3 b p n)
  then show ?case using flush_decreases [of b "take n p" n p] by simp
qed

declare bufWriter_Write.simps [simp del]

text \<open>The bytes accepted so far: those handed to the stream, then those still buffered.\<close>

definition queued :: "bufWriter \<Rightarrow> bytes" where
  "queued b = out_sent (bw_out b) @ bw_buf b"

lemma ctxStream_Write_sent:
  "ctxStream_Write s p = (s', n, e) \<Longrightarrow> out_sent s' = out_sent s @ take n p \<and> n \<le> length p"
  by (auto simp: ctxStream_Write_def rw_Write_def min_def split: prod.splits option.splits list.splits)

lemma bufWriter_Flush_spec:
  assumes "bufWriter_Flush b = (b', e)"
  shows "queued b' = queued b \<and> prefix (out_sent (bw_out b)) (out_sent (bw_out b')) \<and>
    bw_err b' = e \<and> (e = None \<longrightarrow> bw_buf b' = []) \<and> length (bw_buf b') \<le> length (bw_buf b)"
  using assms
  by (auto simp: bufWriter_Flush_def queued_def Let_def split: option.splits prod.splits if_splits
      dest!: ctxStream_Write_sent)

lemma bufWriter_Write_spec:
  assumes "bufWriter_Write b p = (b', e)" and "length (bw_buf b) \<le> bufSize"
  shows "\<exists>q. prefix q p \<and> queued b' = queued b @ q \<and> (e = None \<longrightarrow> q = p) \<and> bw_err b' = e \<and>
    length (bw_buf b') \<le> bufSize \<and> prefix (out_sent (bw_out b)) (out_sent (bw_out b'))"
  using assms
proof (induction b p rule: bufWriter_Write.induct)
  case (1 b p)
  show ?case
  proof (cases "length p > bufSize - length (bw_buf b) \<and> bw_err b = None")
    case False
    with 1 show ?thesis
      by (intro exI [of _ "if e = None then p else []"])
        (auto simp: bufWriter_Write.simps [of b] queued_def split: option.splits)
  next
    case spill: True
    show ?thesis
    proof (cases "bw_buf b = []")
      case True
      obtain s n x where w: "ctxStream_Write (bw_out b) p = (s, n, x)" by (metis prod_cases3)
      let ?b = "b\<lparr>bw_out := s, bw_err := x\<rparr>"
      from spill True w "1.prems"(1) have "bufWriter_Write ?b (drop n p) = (b', e)"
        by (simp add: bufWriter_Write.simps [of b])
      with "1.IH"(1) [OF spill True w [symmetric] refl] "1.prems"(2)
      obtain q where q: "prefix q (drop n p)" "queued b' = queued ?b @ q" "e = None \<longrightarrow> q = drop n p"
        "bw_err b' = e" "length (bw_buf b') \<le> bufSize"
        "prefix (out_sent (bw_out ?b)) (out_sent (bw_out b'))"
        by auto
      from ctxStream_Write_sent [OF w] True have "queued ?b = queued b @ take n p"
        by (simp add: queued_def)
      moreover from q(1) have "prefix (take n p @ q) p"
        by (metis append_take_drop_id same_prefix_prefix)
      moreover from q(3) have "e = None \<longrightarrow> take n p @ q = p" by auto
      moreover from q(6) ctxStream_Write_sent [OF w]
      have "prefix (out_sent (bw_out b)) (out_sent (bw_out b'))"
        by (auto dest: append_prefixD)
      ultimately show ?thesis using q by (intro exI [of _ "take n p @ q"]) auto
    next
      case False
      define n where "n = bufSize - length (bw_buf b)"
      let ?c = "b\<lparr>bw_buf := bw_buf b @ take n p\<rparr>"
      obtain d x where f: "bufWriter_Flush ?c = (d, x)" by fastforce
      from spill False "1.prems"(1) have "bufWriter_Write d (drop n p) = (b', e)"
        by (simp add: bufWriter_Write.simps [of b] n_def [symmetric] f)
      moreover from bufWriter_Flush_spec [OF f] "1.prems"(2)
      have fl: "queued d = queued b @ take n p" "length (bw_buf d) \<le> bufSize"
        "prefix (out_sent (bw_out b)) (out_sent (bw_out d))"
        by (auto simp: queued_def n_def)
      ultimately obtain q where q: "prefix q (drop n p)" "queued b' = queued d @ q"
        "e = None \<longrightarrow> q = drop n p" "bw_err b' = e" "length (bw_buf b') \<le> bufSize"
        "prefix (out_sent (bw_out d)) (out_sent (bw_out b'))"
        using "1.IH"(2) [OF spill False n_def] by (auto simp: f)
      from q(1) have "prefix (take n p @ q) p"
        by (metis append_take_drop_id same_prefix_prefix)
      moreover from q(3) have "e = None \<longrightarrow> take n p @ q = p" by auto
      ultimately show ?thesis using q fl
        by (intro exI [of _ "take n p @ q"]) (auto intro: prefix_order.trans)
    qed
  qed
qed

text \<open>A writer whose stream has no failure ahead.\<close>

definition bw_live :: "bufWriter \<Rightarrow> bool" where
  "bw_live b \<longleftrightarrow> bw_err b = None \<and> out_plan (bw_out b) = [] \<and> passes (out_ctx (bw_out b)) = None"

lemma ctxStream_Write_live:
  "out_plan s = [] \<Longrightarrow> passes (out_ctx s) = None \<Longrightarrow>
     ctxStream_Write s p = (s\<lparr>out_sent := out_sent s @ p\<rparr>, length p, None)"
  by (simp add: ctxStream_Write_def ctx_Err_def rw_Write_def)

lemma bufWriter_Flush_live:
  assumes "bw_live b"
  shows "\<exists>b'. bufWriter_Flush b = (b', None) \<and> bw_live b'"
  using assms
  by (auto simp: bufWriter_Flush_def bw_live_def ctxStream_Write_live Let_def)

lemma bufWriter_Write_live:
  assumes "bw_live b"
  shows "\<exists>b'. bufWriter_Write b p = (b', None) \<and> bw_live b'"
  using assms
proof (induction b p rule: bufWriter_Write.induct)
  case (1 b p)
  show ?case
  proof (cases "length p > bufSize - length (bw_buf b) \<and> bw_err b = None")
    case False
    with "1.prems" show ?thesis by (auto simp: bufWriter_Write.simps [of b] bw_live_def)
  next
    case spill: True
    show ?thesis
    proof (cases "bw_buf b = []")
      case True
      have w: "ctxStream_Write (bw_out b) p = ((bw_out b)\<lparr>out_sent := out_sent (bw_out b) @ p\<rparr>, length p, None)"
        using "1.prems" by (simp add: bw_live_def ctxStream_Write_live)
      have "bw_live (b\<lparr>bw_out := (bw_out b)\<lparr>out_sent := out_sent (bw_out b) @ p\<rparr>, bw_err := None\<rparr>)"
        using "1.prems" by (simp add: bw_live_def)
      with "1.IH"(1) [OF spill True w [symmetric] refl] spill True w show ?thesis
        by (simp add: bufWriter_Write.simps [of b])
    next
      case False
      define n where "n = bufSize - length (bw_buf b)"
      have "bw_live (fst (bufWriter_Flush (b\<lparr>bw_buf := bw_buf b @ take n p\<rparr>)))"
        using bufWriter_Flush_live [of "b\<lparr>bw_buf := bw_buf b @ take n p\<rparr>"] "1.prems"
        by (auto simp: bw_live_def)
      with "1.IH"(2) [OF spill False n_def] spill False show ?thesis
        by (simp add: bufWriter_Write.simps [of b] n_def [symmetric])
    qed
  qed
qed

end
