(* ===== verification/Wire.thy ===== *)
theory Wire
  imports GoIO
begin

text \<open>
  The message layer, package \<open>wire\<close> (wire/wire.go): the message bytes, the framing \<open>Reader\<close> over
  a \<open>bufio.Reader\<close> and the framing \<open>Writer\<close> over a \<open>bufio.Writer\<close>, each with the byte counter the
  run's statistics report. Every method is one definition; a method that returns an error besides
  a value returns a sum, \<open>Inl\<close> the error. The lemmas give each method's effect on the bytes still
  to come (\<open>r_avail\<close>) and on the bytes accepted (\<open>w_queued\<close>), and the round trip of the fields.
\<close>

section \<open>Message bytes\<close>

definition ProtocolVersion :: int where "ProtocolVersion = 2"

definition OriginBegin :: byte where "OriginBegin = 0x41"
definition OriginEnd :: byte where "OriginEnd = 0x42"
definition OriginError :: byte where "OriginError = 0x43"
definition OriginPage :: byte where "OriginPage = 0x44"
definition OriginTxn :: byte where "OriginTxn = 0x45"
definition OriginMsg :: byte where "OriginMsg = 0x46"
definition OriginDetail :: byte where "OriginDetail = 0x47"
definition OriginReady :: byte where "OriginReady = 0x48"
definition ReplicaBegin :: byte where "ReplicaBegin = 0x61"
definition ReplicaError :: byte where "ReplicaError = 0x62"
definition ReplicaEnd :: byte where "ReplicaEnd = 0x63"
definition ReplicaHash :: byte where "ReplicaHash = 0x64"
definition ReplicaReady :: byte where "ReplicaReady = 0x65"
definition ReplicaMsg :: byte where "ReplicaMsg = 0x66"
definition ReplicaConfig :: byte where "ReplicaConfig = 0x67"

lemmas msg_byte_defs =
  OriginBegin_def OriginEnd_def OriginError_def OriginPage_def OriginTxn_def OriginMsg_def
  OriginDetail_def OriginReady_def ReplicaBegin_def ReplicaError_def ReplicaEnd_def
  ReplicaHash_def ReplicaReady_def ReplicaMsg_def ReplicaConfig_def

section \<open>Big-endian numbers\<close>

text \<open>The four bytes \<open>WriteUint32\<close> stores and the number \<open>ReadUint32\<close> assembles.\<close>

definition put_u32 :: "u32 \<Rightarrow> bytes" where
  "put_u32 x = [ucast (drop_bit 24 x), ucast (drop_bit 16 x), ucast (drop_bit 8 x), ucast x]"

definition get_u32 :: "bytes \<Rightarrow> u32" where
  "get_u32 b =
     push_bit 24 (ucast (b ! 0)) OR push_bit 16 (ucast (b ! 1)) OR push_bit 8 (ucast (b ! 2))
       OR ucast (b ! 3)"

lemma length_put_u32 [simp]: "length (put_u32 x) = 4"
  by (simp add: put_u32_def)

lemma get_put_u32 [simp]: "get_u32 (put_u32 x @ d) = x"
proof (rule bit_word_eqI)
  fix n assume "n < LENGTH(32)"
  then consider "n < 8" | "8 \<le> n" "n < 16" | "16 \<le> n" "n < 24" | "24 \<le> n" "n < 32" by fastforce
  then show "bit (get_u32 (put_u32 x @ d)) n = bit x n"
    by cases (auto simp: get_u32_def put_u32_def bit_simps)
qed

lemma put_get_u32:
  assumes "length d = 4"
  shows "put_u32 (get_u32 d) = d"
proof -
  from assms obtain a b c e where d: "d = [a, b, c, e]"
    by (auto simp: numeral_eq_Suc length_Suc_conv)
  have "ucast (drop_bit 24 (get_u32 d)) = a" "ucast (drop_bit 16 (get_u32 d)) = b"
    "ucast (drop_bit 8 (get_u32 d)) = c" "ucast (get_u32 d) = e"
    by (rule bit_word_eqI, auto simp: d get_u32_def bit_simps dest: bit_imp_le_length)+
  then show ?thesis by (simp add: put_u32_def d)
qed
lemma get_put_u32' [simp]: "get_u32 (put_u32 x) = x"
  using get_put_u32 [of x "[]"] by simp

section \<open>Reader\<close>

record Reader =
  rd :: bufReader
  bytesRead :: u64

definition BytesRead :: "Reader \<Rightarrow> u64" where
  "BytesRead r = bytesRead r"

definition NewReader :: "instream \<Rightarrow> Reader" where
  "NewReader i = \<lparr>rd = \<lparr>br_buf = [], br_src = i\<rparr>, bytesRead = 0\<rparr>"

definition ReadByte :: "Reader \<Rightarrow> Reader \<times> (goerr + byte)" where
  "ReadByte r =
     (case io_ReadFull (rd r) 1 of
        (b, d, Some e) \<Rightarrow> (r\<lparr>rd := b\<rparr>, Inl e)
      | (b, d, None) \<Rightarrow> (r\<lparr>rd := b, bytesRead := bytesRead r + 1\<rparr>, Inr (d ! 0)))"

definition ReadUint32 :: "Reader \<Rightarrow> Reader \<times> (goerr + u32)" where
  "ReadUint32 r =
     (case io_ReadFull (rd r) 4 of
        (b, d, Some e) \<Rightarrow> (r\<lparr>rd := b\<rparr>, Inl e)
      | (b, d, None) \<Rightarrow> (r\<lparr>rd := b, bytesRead := bytesRead r + 4\<rparr>, Inr (get_u32 d)))"

definition ReadPow2 :: "Reader \<Rightarrow> Reader \<times> (goerr + int)" where
  "ReadPow2 r =
     (case ReadByte r of
        (r', Inl e) \<Rightarrow> (r', Inl e)
      | (r', Inr b) \<Rightarrow>
          if b > 16 then
            (r', Inl (ErrText (''wire: invalid page size exponent '' @ show_nat (unat b) @ '' (>16)'')))
          else (r', Inr (push_bit (unat b) 1)))"

definition ReadBytes :: "Reader \<Rightarrow> int \<Rightarrow> Reader \<times> (goerr + bytes)" where
  "ReadBytes r nByte =
     (if nByte < 0 then (r, Inl (ErrText (''wire: negative byte count '' @ show_int nByte)))
      else case io_ReadFull (rd r) (nat nByte) of
        (b, d, Some e) \<Rightarrow> (r\<lparr>rd := b\<rparr>, Inl e)
      | (b, d, None) \<Rightarrow> (r\<lparr>rd := b, bytesRead := bytesRead r + word_of_int nByte\<rparr>, Inr d))"

definition maxMessageLen :: u32 where
  "maxMessageLen = push_bit 20 1"

definition ReadMessage :: "Reader \<Rightarrow> Reader \<times> (goerr + bytes)" where
  "ReadMessage r =
     (case ReadUint32 r of
        (r', Inl e) \<Rightarrow> (r', Inl e)
      | (r', Inr n) \<Rightarrow>
          if n > maxMessageLen then
            (r', Inl (ErrText (''wire: message length '' @ show_nat (unat n) @ '' exceeds '' @
              show_nat (unat maxMessageLen))))
          else ReadBytes r' (uint n))"

section \<open>Writer\<close>

record Writer =
  wr :: bufWriter
  bytesWritten :: u64

definition BytesWritten :: "Writer \<Rightarrow> u64" where
  "BytesWritten w = bytesWritten w"

definition NewWriter :: "outstream \<Rightarrow> Writer" where
  "NewWriter s = \<lparr>wr = \<lparr>bw_buf = [], bw_err = None, bw_out = s\<rparr>, bytesWritten = 0\<rparr>"

definition WriteByte :: "Writer \<Rightarrow> byte \<Rightarrow> Writer \<times> goerr option" where
  "WriteByte w b =
     (case bufWriter_Write (wr w) [b] of
        (o', e) \<Rightarrow> (w\<lparr>wr := o', bytesWritten := bytesWritten w + 1\<rparr>, e))"

definition WriteBytes :: "Writer \<Rightarrow> bytes \<Rightarrow> Writer \<times> goerr option" where
  "WriteBytes w p =
     (case bufWriter_Write (wr w) p of
        (o', Some e) \<Rightarrow> (w\<lparr>wr := o'\<rparr>, Some e)
      | (o', None) \<Rightarrow> (w\<lparr>wr := o', bytesWritten := bytesWritten w + of_nat (length p)\<rparr>, None))"

definition WriteUint32 :: "Writer \<Rightarrow> u32 \<Rightarrow> Writer \<times> goerr option" where
  "WriteUint32 w x = WriteBytes w (put_u32 x)"

text \<open>The loop \<open>for v > 1 { v /= 2; n++ }\<close> of \<open>WritePow2\<close>.\<close>

function log2_loop :: "int \<Rightarrow> nat \<Rightarrow> nat" where
  "log2_loop v n = (if v > 1 then log2_loop (v div 2) (Suc n) else n)"
  by pat_completeness auto
termination
  by (relation "measure (\<lambda>(v, n). nat v)") auto

declare log2_loop.simps [simp del]

definition WritePow2 :: "Writer \<Rightarrow> int \<Rightarrow> Writer \<times> goerr option" where
  "WritePow2 w v =
     (if v < 0 \<or> v > 65536 \<or> v AND (v - 1) \<noteq> 0 then
        (w, Some (ErrText (''wire: invalid page size '' @ show_int v @
           '' (not a power of two, at most 65536)'')))
      else WriteByte w (of_nat (log2_loop v 0)))"

definition Flush :: "Writer \<Rightarrow> Writer \<times> goerr option" where
  "Flush w = (case bufWriter_Flush (wr w) of (o', e) \<Rightarrow> (w\<lparr>wr := o'\<rparr>, e))"

definition WriteMessage :: "Writer \<Rightarrow> byte \<Rightarrow> bytes \<Rightarrow> Writer \<times> goerr option" where
  "WriteMessage w msgByte payload =
     (case bufWriter_Write (wr w) [msgByte] of
        (o', Some e) \<Rightarrow> (w\<lparr>wr := o'\<rparr>, Some e)
      | (o', None) \<Rightarrow>
          (case WriteUint32 (w\<lparr>wr := o'\<rparr>) (of_nat (length payload)) of
             (w1, Some e) \<Rightarrow> (w1, Some e)
           | (w1, None) \<Rightarrow>
               (case WriteBytes w1 payload of
                  (w2, Some e) \<Rightarrow> (w2, Some e)
                | (w2, None) \<Rightarrow> Flush w2)))"

text \<open>
  \<open>WriteError\<close> of the message already formatted by the caller; it returns an error in every case,
  the message joined with the error of sending it, if any.
\<close>

definition WriteError :: "Writer \<Rightarrow> byte \<Rightarrow> string \<Rightarrow> Writer \<times> goerr" where
  "WriteError w msgByte msg =
     (case WriteMessage w msgByte (bytes_of msg) of
        (w', sendErr) \<Rightarrow> (w', the (join_errs [Some (ErrText msg), sendErr])))"

section \<open>What the reader's methods consume\<close>

definition r_avail :: "Reader \<Rightarrow> bytes" where
  "r_avail r = avail (rd r)"

definition r_live :: "Reader \<Rightarrow> bool" where
  "r_live r \<longleftrightarrow> passes (in_ctx (br_src (rd r))) = None"

definition r_end :: "Reader \<Rightarrow> goerr" where
  "r_end r = in_end (br_src (rd r))"

text \<open>\<open>took r d r'\<close>: from \<open>r\<close> to \<open>r'\<close> exactly the bytes \<open>d\<close> were consumed and counted.\<close>

definition took :: "Reader \<Rightarrow> bytes \<Rightarrow> Reader \<Rightarrow> bool" where
  "took r d r' \<longleftrightarrow>
     r_avail r = d @ r_avail r' \<and> r_end r' = r_end r \<and> bytesRead r' = bytesRead r + of_nat (length d)"

lemma took_trans: "took r d r1 \<Longrightarrow> took r1 d' r' \<Longrightarrow> took r (d @ d') r'"
  by (simp add: took_def)

lemma ReadByte_ok: "ReadByte r = (r', Inr x) \<Longrightarrow> took r [x] r'"
  by (auto simp: ReadByte_def took_def r_avail_def r_end_def length_Suc_conv
      split: prod.splits option.splits dest!: io_ReadFull_ok)

lemma ReadUint32_ok: "ReadUint32 r = (r', Inr x) \<Longrightarrow> took r (put_u32 x) r'"
  by (auto simp: ReadUint32_def took_def r_avail_def r_end_def put_get_u32
      split: prod.splits option.splits dest!: io_ReadFull_ok)

lemma ReadPow2_ok:
  "ReadPow2 r = (r', Inr v) \<Longrightarrow> \<exists>b. b \<le> 16 \<and> took r [b] r' \<and> v = push_bit (unat b) 1"
  by (auto simp: ReadPow2_def not_less split: prod.splits sum.splits if_splits dest!: ReadByte_ok)

lemma ReadBytes_ok:
  "ReadBytes r n = (r', Inr d) \<Longrightarrow> took r d r' \<and> int (length d) = n"
  by (auto simp: ReadBytes_def took_def r_avail_def r_end_def
      split: prod.splits option.splits if_splits dest!: io_ReadFull_ok)

lemma ReadMessage_ok:
  assumes "ReadMessage r = (r', Inr d)"
  shows "took r (put_u32 (of_nat (length d)) @ d) r' \<and> length d \<le> 2 ^ 20"
proof -
  from assms obtain r1 n where n: "ReadUint32 r = (r1, Inr n)" "n \<le> maxMessageLen"
    "ReadBytes r1 (uint n) = (r', Inr d)"
    by (auto simp: ReadMessage_def not_less split: prod.splits sum.splits if_splits)
  from ReadBytes_ok [OF n(3)] have d: "took r1 d r'" "int (length d) = uint n" by auto
  from d(2) have "of_nat (length d) = n" by (metis of_int_of_nat_eq word_of_int_uint)
  moreover from d(2) n(2) have "length d \<le> 2 ^ 20"
    by (simp add: maxMessageLen_def word_le_def)
  ultimately show ?thesis using took_trans [OF ReadUint32_ok [OF n(1)] d(1)] by simp
qed

text \<open>With a live context the reader's methods return as soon as their bytes are there.\<close>

lemma io_ReadFull_live_enough:
  assumes "passes (in_ctx (br_src b)) = None" and "avail b = d @ rest" and "length d = n"
  shows "\<exists>b'. io_ReadFull b n = (b', d, None) \<and> avail b' = rest \<and>
    passes (in_ctx (br_src b')) = None \<and> in_end (br_src b') = in_end (br_src b)"
proof -
  obtain b' d' e where f: "io_ReadFull b n = (b', d', e)" by (metis prod_cases3)
  from io_ReadFull_live [OF assms(1) f] assms show ?thesis by (auto simp: f)
qed

lemma ReadByte_live:
  assumes "r_live r" and "r_avail r = x # rest"
  shows "\<exists>r'. ReadByte r = (r', Inr x) \<and> r_live r' \<and> took r [x] r' \<and> r_avail r' = rest"
  using io_ReadFull_live_enough [of "rd r" "[x]" rest 1] assms
  by (auto simp: ReadByte_def r_live_def r_avail_def took_def r_end_def)

lemma ReadByte_end:
  assumes "r_live r" and "r_avail r = []"
  shows "\<exists>r'. ReadByte r = (r', Inl (r_end r)) \<and> r_live r' \<and> r_avail r' = [] \<and> r_end r' = r_end r \<and>
    bytesRead r' = bytesRead r"
proof -
  obtain b' d e where f: "io_ReadFull (rd r) 1 = (b', d, e)" by (metis prod_cases3)
  from io_ReadFull_live [OF _ f] assms show ?thesis
    by (auto simp: ReadByte_def f [simplified] r_live_def r_avail_def r_end_def short_read_err_def)
qed

lemma ReadUint32_live:
  assumes "r_live r" and "r_avail r = put_u32 x @ rest"
  shows "\<exists>r'. ReadUint32 r = (r', Inr x) \<and> r_live r' \<and> took r (put_u32 x) r' \<and> r_avail r' = rest"
  using io_ReadFull_live_enough [of "rd r" "put_u32 x" rest 4] assms
  by (auto simp: ReadUint32_def r_live_def r_avail_def took_def r_end_def)

lemma ReadPow2_live:
  assumes "r_live r" and "r_avail r = b # rest" and "b \<le> 16"
  shows "\<exists>r'. ReadPow2 r = (r', Inr (push_bit (unat b) 1)) \<and> r_live r' \<and> took r [b] r' \<and> r_avail r' = rest"
proof -
  from ReadByte_live [OF assms(1,2)] obtain r' where "ReadByte r = (r', Inr b)" "r_live r'"
    "took r [b] r'" "r_avail r' = rest" by blast
  with assms(3) show ?thesis by (simp add: ReadPow2_def not_less [symmetric])
qed

lemma ReadBytes_live:
  assumes "r_live r" and "r_avail r = d @ rest" and "n = int (length d)"
  shows "\<exists>r'. ReadBytes r n = (r', Inr d) \<and> r_live r' \<and> took r d r' \<and> r_avail r' = rest"
  using io_ReadFull_live_enough [of "rd r" d rest "nat n"] assms
  by (auto simp: ReadBytes_def r_live_def r_avail_def took_def r_end_def)

lemma ReadMessage_live:
  assumes "r_live r" and "r_avail r = put_u32 (of_nat (length d)) @ d @ rest" and "length d \<le> 2 ^ 20"
  shows "\<exists>r'. ReadMessage r = (r', Inr d) \<and> r_live r' \<and>
    took r (put_u32 (of_nat (length d)) @ d) r' \<and> r_avail r' = rest"
proof -
  let ?n = "of_nat (length d) :: u32"
  have n: "uint ?n = int (length d)" "\<not> maxMessageLen < ?n"
    using assms(3)
    by (simp_all add: maxMessageLen_def word_less_nat_alt unat_of_nat unsigned_of_nat take_bit_nat_eq_self)
  from ReadUint32_live [OF assms(1,2)] obtain r1 where r1: "ReadUint32 r = (r1, Inr ?n)"
    "r_live r1" "took r (put_u32 ?n) r1" "r_avail r1 = d @ rest" by blast
  from ReadBytes_live [OF r1(2,4)] n(1) obtain r' where r': "ReadBytes r1 (uint ?n) = (r', Inr d)"
    "r_live r'" "took r1 d r'" "r_avail r' = rest" by auto
  from took_trans [OF r1(3) r'(3)] r1(1) r' n(2) show ?thesis
    by (simp add: ReadMessage_def)
qed

section \<open>What the writer's methods accept\<close>

definition w_queued :: "Writer \<Rightarrow> bytes" where
  "w_queued w = queued (wr w)"

definition w_sent :: "Writer \<Rightarrow> bytes" where
  "w_sent w = out_sent (bw_out (wr w))"

definition w_buf :: "Writer \<Rightarrow> bytes" where
  "w_buf w = bw_buf (wr w)"

text \<open>The buffer never exceeds its size, and the stream has no failure ahead.\<close>

definition w_ok :: "Writer \<Rightarrow> bool" where
  "w_ok w \<longleftrightarrow> length (bw_buf (wr w)) \<le> bufSize"

definition w_live :: "Writer \<Rightarrow> bool" where
  "w_live w \<longleftrightarrow> bw_live (wr w) \<and> w_ok w"

lemma w_queued_sent_buf: "w_queued w = w_sent w @ w_buf w"
  by (simp add: w_queued_def w_sent_def w_buf_def queued_def)

text \<open>
  \<open>gave w d w'\<close>: from \<open>w\<close> to \<open>w'\<close> exactly the bytes \<open>d\<close> were accepted, nothing already sent was
  taken back.
\<close>

definition gave :: "Writer \<Rightarrow> bytes \<Rightarrow> Writer \<Rightarrow> bool" where
  "gave w d w' \<longleftrightarrow> w_queued w' = w_queued w @ d \<and> prefix (w_sent w) (w_sent w') \<and> w_ok w'"

lemma gave_refl [simp]: "w_ok w \<Longrightarrow> gave w [] w"
  by (simp add: gave_def)

lemma gave_trans: "gave w d w1 \<Longrightarrow> gave w1 d' w' \<Longrightarrow> gave w (d @ d') w'"
  by (auto simp: gave_def intro: prefix_order.trans)

lemma gave_ok: "gave w d w' \<Longrightarrow> w_ok w'"
  by (simp add: gave_def)

lemma w_ok_NewWriter [simp]: "w_ok (NewWriter s)"
  by (simp add: w_ok_def NewWriter_def)

lemma w_ok_counter [simp]: "w_ok (w\<lparr>wr := b, bytesWritten := n\<rparr>) = w_ok (w\<lparr>wr := b\<rparr>)"
  by (simp add: w_ok_def)

text \<open>Whatever happens, a method accepts a prefix of what it was given.\<close>

lemma bufWriter_Write_gave:
  assumes "bufWriter_Write (wr w) p = (o', e)" and "w_ok w"
  shows "\<exists>q. prefix q p \<and> gave w q (w\<lparr>wr := o'\<rparr>) \<and> (e = None \<longrightarrow> q = p) \<and> bw_err o' = e"
  using bufWriter_Write_spec [OF assms(1)] assms(2)
  by (auto simp: gave_def w_ok_def w_queued_def w_sent_def)

lemma gave_counter [simp]: "gave w d (w'\<lparr>bytesWritten := n\<rparr>) = gave w d w'"
  by (simp add: gave_def w_queued_def w_sent_def w_ok_def)

lemma gave_counter' [simp]: "gave w d (w'\<lparr>wr := b, bytesWritten := n\<rparr>) = gave w d (w'\<lparr>wr := b\<rparr>)"
  by (simp add: gave_def w_queued_def w_sent_def w_ok_def)

lemma WriteByte_gave:
  assumes "WriteByte w b = (w', e)" and "w_ok w"
  shows "\<exists>q. prefix q [b] \<and> gave w q w' \<and> (e = None \<longrightarrow> q = [b]) \<and> bytesWritten w' = bytesWritten w + 1"
  using assms bufWriter_Write_gave [of w "[b]"]
  by (auto simp: WriteByte_def split: prod.splits)

lemma WriteBytes_gave:
  assumes "WriteBytes w p = (w', e)" and "w_ok w"
  shows "\<exists>q. prefix q p \<and> gave w q w' \<and> (e = None \<longrightarrow> q = p) \<and>
    (e = None \<longrightarrow> bytesWritten w' = bytesWritten w + of_nat (length p)) \<and>
    (e \<noteq> None \<longrightarrow> bytesWritten w' = bytesWritten w)"
  using assms bufWriter_Write_gave [of w p]
  by (fastforce simp: WriteBytes_def split: prod.splits option.splits)

lemma WriteUint32_gave:
  assumes "WriteUint32 w x = (w', e)" and "w_ok w"
  shows "\<exists>q. prefix q (put_u32 x) \<and> gave w q w' \<and> (e = None \<longrightarrow> q = put_u32 x) \<and>
    (e = None \<longrightarrow> bytesWritten w' = bytesWritten w + 4) \<and>
    (e \<noteq> None \<longrightarrow> bytesWritten w' = bytesWritten w)"
  using WriteBytes_gave [of w "put_u32 x" w' e] assms
  by (simp only: WriteUint32_def length_put_u32 of_nat_numeral)

lemma Flush_gave:
  assumes "Flush w = (w', e)" and "w_ok w"
  shows "gave w [] w' \<and> (e = None \<longrightarrow> w_buf w' = [] \<and> w_sent w' = w_queued w) \<and> bytesWritten w' = bytesWritten w"
  using assms bufWriter_Flush_spec [of "wr w"]
  by (fastforce simp: Flush_def gave_def w_queued_def w_sent_def w_buf_def w_ok_def queued_def
      split: prod.splits)

text \<open>On a live stream nothing fails.\<close>

lemma w_live_ok: "w_live w \<Longrightarrow> w_ok w"
  by (simp add: w_live_def)

lemma WriteBytes_live:
  assumes "w_live w"
  shows "\<exists>w'. WriteBytes w p = (w', None) \<and> w_live w' \<and> gave w p w' \<and>
    bytesWritten w' = bytesWritten w + of_nat (length p)"
proof -
  from bufWriter_Write_live [of "wr w" p] assms obtain b where
    b: "bufWriter_Write (wr w) p = (b, None)" "bw_live b" by (auto simp: w_live_def)
  from bufWriter_Write_gave [OF b(1)] assms have "gave w p (w\<lparr>wr := b\<rparr>)"
    by (auto simp: w_live_def)
  with b show ?thesis by (auto simp: WriteBytes_def w_live_def dest: gave_ok)
qed

lemma WriteUint32_live:
  "w_live w \<Longrightarrow> \<exists>w'. WriteUint32 w x = (w', None) \<and> w_live w' \<and> gave w (put_u32 x) w' \<and>
     bytesWritten w' = bytesWritten w + 4"
  using WriteBytes_live [of w "put_u32 x"] by (simp add: WriteUint32_def)

lemma WriteByte_live:
  assumes "w_live w"
  shows "\<exists>w'. WriteByte w b = (w', None) \<and> w_live w' \<and> gave w [b] w' \<and>
    bytesWritten w' = bytesWritten w + 1"
  using WriteBytes_live [OF assms, of "[b]"]
  by (auto simp: WriteByte_def WriteBytes_def split: prod.splits option.splits)

lemma Flush_live:
  assumes "w_live w"
  shows "\<exists>w'. Flush w = (w', None) \<and> w_live w' \<and> gave w [] w' \<and> w_buf w' = [] \<and>
    w_sent w' = w_queued w \<and> bytesWritten w' = bytesWritten w"
proof -
  from bufWriter_Flush_live [of "wr w"] assms obtain b where
    b: "bufWriter_Flush (wr w) = (b, None)" "bw_live b" by (auto simp: w_live_def)
  then have f: "Flush w = (w\<lparr>wr := b\<rparr>, None)" by (simp add: Flush_def)
  from Flush_gave [OF this] assms b(2) show ?thesis
    by (auto simp: f w_live_def gave_def)
qed

text \<open>
  A message or error frame: on success the whole frame has been flushed, its type byte goes out
  uncounted (C sends it with putc).
\<close>

definition frame :: "byte \<Rightarrow> bytes \<Rightarrow> bytes" where
  "frame m d = m # put_u32 (of_nat (length d)) @ d"

lemma WriteMessage_gave:
  assumes "WriteMessage w m d = (w', e)" and "w_ok w"
  shows "\<exists>q. prefix q (frame m d) \<and> gave w q w' \<and>
    (e = None \<longrightarrow> q = frame m d \<and> w_buf w' = [] \<and> w_sent w' = w_queued w @ frame m d \<and>
       bytesWritten w' = bytesWritten w + 4 + of_nat (length d))"
proof -
  let ?n = "of_nat (length d) :: u32"
  obtain o1 e1 where 1: "bufWriter_Write (wr w) [m] = (o1, e1)" by fastforce
  from bufWriter_Write_gave [OF 1 assms(2)] obtain q1 where
    q1: "prefix q1 [m]" "gave w q1 (w\<lparr>wr := o1\<rparr>)" "e1 = None \<longrightarrow> q1 = [m]" by blast
  show ?thesis
  proof (cases e1)
    case (Some x)
    from q1(1) have "prefix q1 (frame m d)" by (cases q1) (auto simp: frame_def)
    with 1 Some assms(1) q1 show ?thesis
      by (auto simp: WriteMessage_def intro!: exI [of _ q1])
  next
    case e1: None
    obtain w1 e2 where 2: "WriteUint32 (w\<lparr>wr := o1\<rparr>) ?n = (w1, e2)" by fastforce
    from WriteUint32_gave [OF this gave_ok [OF q1(2)]] obtain q2 where
      q2: "prefix q2 (put_u32 ?n)" "gave (w\<lparr>wr := o1\<rparr>) q2 w1" "e2 = None \<longrightarrow> q2 = put_u32 ?n"
      "e2 = None \<longrightarrow> bytesWritten w1 = bytesWritten w + 4" by auto
    note g2 = gave_trans [OF q1(2) q2(2)]
    show ?thesis
    proof (cases e2)
      case (Some x)
      with 1 2 e1 assms(1) q1 q2 g2 show ?thesis
        by (auto simp: WriteMessage_def frame_def intro!: exI [of _ "q1 @ q2"])
    next
      case e2: None
      obtain w2 e3 where 3: "WriteBytes w1 d = (w2, e3)" by fastforce
      from WriteBytes_gave [OF this gave_ok [OF g2]] obtain q3 where
        q3: "prefix q3 d" "gave w1 q3 w2" "e3 = None \<longrightarrow> q3 = d"
        "e3 = None \<longrightarrow> bytesWritten w2 = bytesWritten w1 + of_nat (length d)" by auto
      note g3 = gave_trans [OF g2 q3(2)]
      show ?thesis
      proof (cases e3)
        case (Some x)
        with 1 2 3 e1 e2 assms(1) q1 q2 q3 g3 show ?thesis
          by (auto simp: WriteMessage_def frame_def intro!: exI [of _ "q1 @ q2 @ q3"])
      next
        case e3: None
        with 1 2 3 e1 e2 assms(1) have 4: "Flush w2 = (w', e)" by (simp add: WriteMessage_def)
        from Flush_gave [OF 4 gave_ok [OF g3]] e1 e2 e3 q1 q2 q3 g3
          gave_trans [OF g3, of "[]" w'] show ?thesis
          by (auto simp: frame_def gave_def intro!: exI [of _ "frame m d"])
      qed
    qed
  qed
qed

lemma WriteMessage_live:
  assumes "w_live w"
  shows "\<exists>w'. WriteMessage w m d = (w', None) \<and> w_live w' \<and> gave w (frame m d) w' \<and> w_buf w' = [] \<and>
    w_sent w' = w_queued w @ frame m d"
proof -
  from bufWriter_Write_live [of "wr w" "[m]"] assms obtain b where
    b: "bufWriter_Write (wr w) [m] = (b, None)" "bw_live b" by (auto simp: w_live_def)
  from bufWriter_Write_gave [OF b(1) w_live_ok [OF assms]] b(2) have "w_live (w\<lparr>wr := b\<rparr>)"
    by (auto simp: w_live_def dest: gave_ok)
  from WriteUint32_live [OF this] obtain w1 where
    1: "WriteUint32 (w\<lparr>wr := b\<rparr>) (of_nat (length d)) = (w1, None)" "w_live w1" by blast
  from WriteBytes_live [OF 1(2)] obtain w2 where 2: "WriteBytes w1 d = (w2, None)" "w_live w2"
    by blast
  from Flush_live [OF 2(2)] obtain w' where 3: "Flush w2 = (w', None)" "w_live w'" by blast
  from b 1 2 3 have m: "WriteMessage w m d = (w', None)" by (simp add: WriteMessage_def)
  from WriteMessage_gave [OF m w_live_ok [OF assms]] 3 m show ?thesis by auto
qed

text \<open>\<open>WriteError\<close> always returns an error, and the first part of it is the message.\<close>

lemma WriteError_joins:
  "WriteError w m msg = (w', x) \<Longrightarrow> \<exists>es. x = JoinErr (ErrText msg # es)"
  by (auto simp: WriteError_def join_errs_def List.map_filter_def split: prod.splits)

lemma WriteError_gave:
  assumes "WriteError w m msg = (w', x)" and "w_ok w"
  shows "\<exists>q. prefix q (frame m (bytes_of msg)) \<and> gave w q w'"
  using WriteMessage_gave [OF _ assms(2), of m "bytes_of msg"] assms(1)
  by (fastforce simp: WriteError_def split: prod.splits)

lemma WriteError_live:
  assumes "w_live w"
  shows "\<exists>w'. WriteError w m msg = (w', JoinErr [ErrText msg]) \<and> w_live w' \<and> w_buf w' = [] \<and>
    gave w (frame m (bytes_of msg)) w' \<and> w_sent w' = w_queued w @ frame m (bytes_of msg)"
  using WriteMessage_live [OF assms, of m "bytes_of msg"]
  by (auto simp: WriteError_def join_errs_def List.map_filter_def)

section \<open>Page sizes\<close>

lemma log2_loop_bounds:
  "1 \<le> v \<Longrightarrow> \<exists>k. log2_loop v n = n + k \<and> 2 ^ k \<le> v \<and> v < 2 ^ Suc k"
proof (induction v n rule: log2_loop.induct)
  case (1 v n)
  show ?case
  proof (cases "v > 1")
    case True
    with 1 obtain k where k: "log2_loop (v div 2) (Suc n) = Suc n + k" "2 ^ k \<le> v div 2"
      "v div 2 < 2 ^ Suc k" by fastforce
    moreover have "2 * (v div 2) \<le> v" "v < 2 * (v div 2) + 2" by simp_all
    ultimately have "2 ^ Suc k \<le> v \<and> v < 2 ^ Suc (Suc k)" unfolding power_Suc by linarith
    with True k(1) show ?thesis
      by (intro exI [of _ "Suc k"]) (simp add: log2_loop.simps [of v])
  next
    case False
    with "1.prems" show ?thesis by (intro exI [of _ 0]) (auto simp: log2_loop.simps [of 1])
  qed
qed

lemma bit_top:
  fixes v :: int
  assumes "2 ^ k \<le> v" and "v < 2 ^ Suc k"
  shows "bit v k"
proof -
  have "v div 2 ^ k = 1" using assms int_div_pos_eq [of v "2 ^ k" 1 "v - 2 ^ k"] by simp
  then show ?thesis by (simp add: bit_iff_odd)
qed

end
