(* ===== verification/WireProps.thy ===== *)
theory WireProps
  imports Wire
begin

text \<open>
  The wire format as a whole: sequences of fields written by the methods of \<open>Writer\<close> and read back
  by those of \<open>Reader\<close>. The properties are the page size encoding, the round trip over any chunking
  of the stream with the byte counters of both ends, and what a failing stream may do.
\<close>

section \<open>Powers of two\<close>

lemma log2_loop_pow2: "log2_loop (2 ^ k) n = n + k"
proof (induction k arbitrary: n)
  case 0
  show ?case by (simp add: log2_loop.simps [of 1])
next
  case (Suc k)
  have "(1::int) < 2 ^ Suc k" by (rule one_less_power) simp_all
  moreover have "(2::int) ^ Suc k div 2 = 2 ^ k" by simp
  ultimately show ?case
    using Suc [of "Suc n"] log2_loop.simps [of "2 ^ Suc k" n] by (simp del: power_Suc)
qed

lemma pow2_and: "(2::int) ^ k AND (2 ^ k - 1) = 0"
  by (rule bit_eqI) (auto simp: bit_and_iff bit_exp_iff bit_mask_iff mask_eq_exp_minus_1 [symmetric])

lemma and_pow2:
  fixes v :: int
  assumes "1 \<le> v" and "v AND (v - 1) = 0"
  shows "v = 2 ^ log2_loop v 0"
proof (rule ccontr)
  let ?k = "log2_loop v 0"
  assume ne: "v \<noteq> 2 ^ ?k"
  from log2_loop_bounds [OF assms(1), of 0] have b: "2 ^ ?k \<le> v" "v < 2 ^ Suc ?k" by auto
  with ne have "bit v ?k" "bit (v - 1) ?k" by (auto intro: bit_top)
  then have "bit (v AND (v - 1)) ?k" by (simp add: bit_and_iff)
  with assms(2) show False by simp
qed

lemma pow2_valid:
  fixes v :: int
  shows "(v < 0 \<or> v > 65536 \<or> v AND (v - 1) \<noteq> 0) = (\<not> (v = 0 \<or> (\<exists>k \<le> 16. v = 2 ^ k)))"
proof
  assume "v < 0 \<or> v > 65536 \<or> v AND (v - 1) \<noteq> 0"
  moreover have "(2::int) ^ k \<le> 65536" if "k \<le> 16" for k
    using power_increasing [OF that, of "2::int"] by simp
  ultimately show "\<not> (v = 0 \<or> (\<exists>k \<le> 16. v = 2 ^ k))" using pow2_and by fastforce
next
  assume "\<not> (v = 0 \<or> (\<exists>k \<le> 16. v = 2 ^ k))"
  moreover have "log2_loop v 0 \<le> 16" if "1 \<le> v" "v \<le> 65536" "v = 2 ^ log2_loop v 0"
  proof -
    from that have "(2::int) ^ log2_loop v 0 \<le> 2 ^ 16" by simp
    then show ?thesis by (rule power_le_imp_le_exp [rotated]) simp
  qed
  ultimately show "v < 0 \<or> v > 65536 \<or> v AND (v - 1) \<noteq> 0"
    using and_pow2 [of v] by (metis int_one_le_iff_zero_less linorder_not_less linorder_neqE_linordered_idom)
qed

text \<open>
  Page sizes on the wire. A writer whose stream is sound accepts exactly the powers of two up to
  65536, and zero.
\<close>

theorem WritePow2_accepts:
  assumes "w_live w"
  shows "snd (WritePow2 w v) = None \<longleftrightarrow> v = 0 \<or> (\<exists>k \<le> 16. v = 2 ^ k)"
proof -
  from WriteByte_live [OF assms, of "of_nat (log2_loop v 0)"]
  have "snd (WriteByte w (of_nat (log2_loop v 0))) = None" by auto
  with pow2_valid [of v] show ?thesis unfolding WritePow2_def by simp
qed

section \<open>Fields\<close>

text \<open>
  What the two roles put on the wire: single bytes (message types and protocol versions), numbers,
  page sizes, hashes and pages of a length both know, and text messages with their type byte.
\<close>

datatype field = FByte byte | FUint32 u32 | FPow2 int | FBytes bytes | FMessage byte bytes

datatype shape = SByte | SUint32 | SPow2 | SBytes nat | SMessage

fun shape_of :: "field \<Rightarrow> shape" where
  "shape_of (FByte b) = SByte"
| "shape_of (FUint32 x) = SUint32"
| "shape_of (FPow2 v) = SPow2"
| "shape_of (FBytes d) = SBytes (length d)"
| "shape_of (FMessage m d) = SMessage"

fun write_field :: "Writer \<Rightarrow> field \<Rightarrow> Writer \<times> goerr option" where
  "write_field w (FByte b) = WriteByte w b"
| "write_field w (FUint32 x) = WriteUint32 w x"
| "write_field w (FPow2 v) = WritePow2 w v"
| "write_field w (FBytes d) = WriteBytes w d"
| "write_field w (FMessage m d) = WriteMessage w m d"

fun write_fields :: "Writer \<Rightarrow> field list \<Rightarrow> Writer \<times> goerr option" where
  "write_fields w [] = (w, None)"
| "write_fields w (f # fs) =
     (case write_field w f of (w', Some e) \<Rightarrow> (w', Some e) | (w', None) \<Rightarrow> write_fields w' fs)"

fun read_field :: "Reader \<Rightarrow> shape \<Rightarrow> Reader \<times> (goerr + field)" where
  "read_field r SByte = map_prod id (map_sum id FByte) (ReadByte r)"
| "read_field r SUint32 = map_prod id (map_sum id FUint32) (ReadUint32 r)"
| "read_field r SPow2 = map_prod id (map_sum id FPow2) (ReadPow2 r)"
| "read_field r (SBytes n) = map_prod id (map_sum id FBytes) (ReadBytes r (int n))"
| "read_field r SMessage =
     (case ReadByte r of
        (r', Inl e) \<Rightarrow> (r', Inl e)
      | (r', Inr m) \<Rightarrow> map_prod id (map_sum id (FMessage m)) (ReadMessage r'))"

fun read_fields :: "Reader \<Rightarrow> shape list \<Rightarrow> Reader \<times> (goerr + field list)" where
  "read_fields r [] = (r, Inr [])"
| "read_fields r (s # ss) =
     (case read_field r s of
        (r', Inl e) \<Rightarrow> (r', Inl e)
      | (r', Inr f) \<Rightarrow> map_prod id (map_sum id (Cons f)) (read_fields r' ss))"

fun valid_field :: "field \<Rightarrow> bool" where
  "valid_field (FPow2 v) = (\<exists>k \<le> 16. v = 2 ^ k)"
| "valid_field (FMessage m d) = (length d \<le> 2 ^ 20)"
| "valid_field _ = True"

fun encode :: "field \<Rightarrow> bytes" where
  "encode (FByte b) = [b]"
| "encode (FUint32 x) = put_u32 x"
| "encode (FPow2 v) = [of_nat (log2_loop v 0)]"
| "encode (FBytes d) = d"
| "encode (FMessage m d) = frame m d"

definition encodes :: "field list \<Rightarrow> bytes" where
  "encodes fs = concat (map encode fs)"

lemma encodes_simps [simp]: "encodes [] = []" "encodes (f # fs) = encode f @ encodes fs"
  by (simp_all add: encodes_def)

text \<open>The type byte of a text message is not counted by the writer.\<close>

fun uncounted :: "field \<Rightarrow> nat" where
  "uncounted (FMessage m d) = 1"
| "uncounted _ = 0"

lemma WritePow2_valid:
  "valid_field (FPow2 v) \<Longrightarrow> WritePow2 w v = WriteByte w (of_nat (log2_loop v 0))"
  using pow2_valid [of v] unfolding WritePow2_def by auto

lemma write_field_live:
  assumes "w_live w" and "valid_field f"
  shows "\<exists>w'. write_field w f = (w', None) \<and> w_live w' \<and> gave w (encode f) w' \<and>
    bytesWritten w' + of_nat (uncounted f) = bytesWritten w + of_nat (length (encode f))"
proof (cases f)
  case (FByte b)
  with WriteByte_live [OF assms(1)] show ?thesis by auto
next
  case (FUint32 x)
  with WriteUint32_live [OF assms(1)] show ?thesis by auto
next
  case (FPow2 v)
  with WriteByte_live [OF assms(1)] WritePow2_valid assms(2) show ?thesis by fastforce
next
  case (FBytes d)
  with WriteBytes_live [OF assms(1)] show ?thesis by auto
next
  case (FMessage m d)
  from WriteMessage_live [OF assms(1), of m d] obtain w' where
    w: "WriteMessage w m d = (w', None)" "w_live w'" "gave w (frame m d) w'" by blast
  from WriteMessage_gave [OF w(1) w_live_ok [OF assms(1)]]
  have "bytesWritten w' = bytesWritten w + 4 + of_nat (length d)" by auto
  with w FMessage show ?thesis by (simp add: frame_def)
qed

lemma write_fields_live:
  "w_live w \<Longrightarrow> list_all valid_field fs \<Longrightarrow>
     \<exists>w'. write_fields w fs = (w', None) \<and> w_live w' \<and> gave w (encodes fs) w' \<and>
       bytesWritten w' + of_nat (sum_list (map uncounted fs)) =
       bytesWritten w + of_nat (length (encodes fs))"
proof (induction fs arbitrary: w)
  case Nil
  then show ?case by (simp add: w_live_ok)
next
  case (Cons f fs)
  from write_field_live [OF Cons.prems(1)] Cons.prems(2) obtain w1 where
    w1: "write_field w f = (w1, None)" "w_live w1" "gave w (encode f) w1"
    "bytesWritten w1 + of_nat (uncounted f) = bytesWritten w + of_nat (length (encode f))" by auto
  from Cons.IH [OF w1(2)] Cons.prems(2) obtain w' where
    w': "write_fields w1 fs = (w', None)" "w_live w'" "gave w1 (encodes fs) w'"
    "bytesWritten w' + of_nat (sum_list (map uncounted fs)) =
     bytesWritten w1 + of_nat (length (encodes fs))" by auto
  have "bytesWritten w' + of_nat (sum_list (map uncounted (f # fs))) =
    (bytesWritten w' + of_nat (sum_list (map uncounted fs))) + of_nat (uncounted f)" by simp
  also have "\<dots> = (bytesWritten w1 + of_nat (uncounted f)) + of_nat (length (encodes fs))"
    unfolding w'(4) by simp
  also have "\<dots> = bytesWritten w + of_nat (length (encodes (f # fs)))"
    unfolding w1(4) by simp
  finally have "bytesWritten w' + of_nat (sum_list (map uncounted (f # fs))) =
    bytesWritten w + of_nat (length (encodes (f # fs)))" .
  with w1(1) w' gave_trans [OF w1(3) w'(3)] show ?case by simp
qed

lemma read_field_live:
  assumes "r_live r" and "r_avail r = encode f @ rest" and "valid_field f"
  shows "\<exists>r'. read_field r (shape_of f) = (r', Inr f) \<and> r_live r' \<and> took r (encode f) r' \<and>
    r_avail r' = rest"
proof (cases f)
  case (FByte b)
  with ReadByte_live [OF assms(1)] assms(2) show ?thesis by fastforce
next
  case (FUint32 x)
  with ReadUint32_live [OF assms(1)] assms(2) show ?thesis by fastforce
next
  case (FPow2 v)
  with assms(3) obtain k where k: "k \<le> 16" "v = 2 ^ k" by auto
  then have u: "unat (of_nat k :: byte) = k" by (simp add: unat_of_nat)
  with k have "(of_nat k :: byte) \<le> 16" "push_bit (unat (of_nat k :: byte)) 1 = v"
    by (simp_all add: word_le_nat_alt push_bit_eq_mult)
  with ReadPow2_live [OF assms(1), of "of_nat k" rest] assms(2) FPow2 k show ?thesis
    by (auto simp: log2_loop_pow2)
next
  case (FBytes d)
  with ReadBytes_live [OF assms(1)] assms(2) show ?thesis by fastforce
next
  case (FMessage m d)
  from assms(2) FMessage have "r_avail r = m # (put_u32 (of_nat (length d)) @ d @ rest)"
    by (simp add: frame_def)
  from ReadByte_live [OF assms(1) this] obtain r1 where r1: "ReadByte r = (r1, Inr m)" "r_live r1"
    "took r [m] r1" "r_avail r1 = put_u32 (of_nat (length d)) @ d @ rest" by blast
  from ReadMessage_live [OF r1(2,4)] assms(3) FMessage obtain r' where r': "ReadMessage r1 = (r', Inr d)"
    "r_live r'" "took r1 (put_u32 (of_nat (length d)) @ d) r'" "r_avail r' = rest" by auto
  from r1 r' FMessage took_trans [OF r1(3) r'(3)] show ?thesis by (auto simp: frame_def)
qed

lemma read_fields_live:
  "r_live r \<Longrightarrow> r_avail r = encodes fs @ rest \<Longrightarrow> list_all valid_field fs \<Longrightarrow>
     \<exists>r'. read_fields r (map shape_of fs) = (r', Inr fs) \<and> r_live r' \<and> took r (encodes fs) r' \<and>
       r_avail r' = rest"
proof (induction fs arbitrary: r)
  case Nil
  then show ?case by (simp add: took_def)
next
  case (Cons f fs)
  then obtain r1 where r1: "read_field r (shape_of f) = (r1, Inr f)" "r_live r1"
    "took r (encode f) r1" "r_avail r1 = encodes fs @ rest"
    using read_field_live [of r f "encodes fs @ rest"] by auto
  with Cons obtain r' where "read_fields r1 (map shape_of fs) = (r', Inr fs)" "r_live r'"
    "took r1 (encodes fs) r'" "r_avail r' = rest" by auto
  with r1 took_trans [OF r1(3)] show ?case by auto
qed

section \<open>The round trip\<close>

text \<open>
  C28 (wire round trip). Fields written and flushed through a sound stream are read back unchanged,
  whatever chunks the stream delivers them in; nothing is left over, and the reader's counter is the
  writer's plus one for every text message, whose type byte the writer does not count.
\<close>

theorem wire_roundtrip:
  assumes "list_all valid_field fs"
    and "out_plan s = []" and "passes (out_ctx s) = None" and "out_sent s = []"
    and "write_fields (NewWriter s) fs = (w, e)" and "Flush w = (w', e')"
    and "concat (in_chunks i) = w_sent w'" and "passes (in_ctx i) = None"
  shows "e = None \<and> e' = None \<and>
    (\<exists>r. read_fields (NewReader i) (map shape_of fs) = (r, Inr fs) \<and> r_avail r = [] \<and>
       BytesRead r = BytesWritten w' + of_nat (sum_list (map uncounted fs)))"
proof -
  have live: "w_live (NewWriter s)"
    using assms(2,3) by (simp add: w_live_def bw_live_def NewWriter_def w_ok_def)
  have start: "w_queued (NewWriter s) = []" "bytesWritten (NewWriter s) = 0"
    using assms(4) by (simp_all add: w_queued_def NewWriter_def queued_def)
  from write_fields_live [OF live assms(1)] assms(5) start
  have w: "e = None" "w_live w" "w_queued w = encodes fs"
    "bytesWritten w + of_nat (sum_list (map uncounted fs)) = of_nat (length (encodes fs))"
    by (auto simp: gave_def)
  from Flush_live [OF w(2)] assms(6) w(3)
  have w': "e' = None" "w_sent w' = encodes fs" "bytesWritten w' = bytesWritten w" by auto
  have "r_live (NewReader i)" "r_avail (NewReader i) = encodes fs @ []"
    using assms(7,8) w'(2) by (simp_all add: r_live_def r_avail_def NewReader_def avail_def)
  from read_fields_live [OF this assms(1)] obtain r where
    "read_fields (NewReader i) (map shape_of fs) = (r, Inr fs)" "took (NewReader i) (encodes fs) r"
    "r_avail r = []" by blast
  with w w' show ?thesis by (auto simp: took_def NewReader_def BytesRead_def BytesWritten_def)
qed

definition sample_fields :: "field list" where
  "sample_fields = [FByte 0x41, FPow2 4096, FUint32 7, FMessage 0x43 [0x68, 0x69], FBytes [1, 2, 3]]"

definition sample_stream :: instream where
  "sample_stream = \<lparr>in_ctx = \<lparr>passes = None, ctx_error = EOF\<rparr>,
     in_chunks = [[0x41, 12], [], [0, 0, 0, 7, 0x43, 0], [0, 0, 2, 0x68, 0x69, 1, 2, 3]], in_end = EOF\<rparr>"

theorem wire_roundtrip_witness:
  "\<exists>r. read_fields (NewReader sample_stream)
     [SByte, SPow2, SUint32, SMessage, SBytes 3] = (r, Inr sample_fields) \<and> BytesRead r = 16"
proof -
  let ?s = "\<lparr>out_ctx = \<lparr>passes = None, ctx_error = EOF\<rparr>, out_plan = [], out_sent = []\<rparr>"
  let ?w = "fst (write_fields (NewWriter ?s) sample_fields)"
  have v: "list_all valid_field sample_fields"
    by (auto simp: sample_fields_def intro!: exI [of _ 12])
  have live: "w_live (NewWriter ?s)" by (simp add: w_live_def bw_live_def NewWriter_def w_ok_def)
  from write_fields_live [OF live v] obtain w where w: "write_fields (NewWriter ?s) sample_fields = (w, None)"
    "w_live w" "w_queued w = encodes sample_fields" "bytesWritten w + 1 = 16"
    by (auto simp: gave_def w_queued_def NewWriter_def queued_def sample_fields_def frame_def)
  from Flush_live [OF w(2)] obtain w' where w': "Flush w = (w', None)" "w_sent w' = encodes sample_fields"
    "bytesWritten w' = bytesWritten w" using w(3) by auto
  have l: "log2_loop 4096 0 = 12" using log2_loop_pow2 [of 12 0] by simp
  have "concat (in_chunks sample_stream) = w_sent w'"
    by (simp add: w' sample_fields_def sample_stream_def frame_def put_u32_def l)
  from wire_roundtrip [OF v _ _ _ w(1) w'(1) this] w(4) w'(3) show ?thesis
    by (auto simp: sample_stream_def sample_fields_def BytesWritten_def)
qed

theorem WritePow2_accepts_witness:
  "snd (WritePow2 (NewWriter \<lparr>out_ctx = \<lparr>passes = None, ctx_error = EOF\<rparr>, out_plan = [], out_sent = []\<rparr>) 1024)
     = None"
proof -
  have "w_live (NewWriter \<lparr>out_ctx = \<lparr>passes = None, ctx_error = EOF\<rparr>, out_plan = [], out_sent = []\<rparr>)"
    by (simp add: w_live_def bw_live_def NewWriter_def w_ok_def)
  from WritePow2_accepts [OF this, of 1024] show ?thesis by (auto intro: exI [of _ 10])
qed

section \<open>Failing streams\<close>

lemma write_field_gave:
  assumes "write_field w f = (w', e)" and "w_ok w"
  shows "\<exists>q. prefix q (encode f) \<and> gave w q w' \<and> (e = None \<longrightarrow> q = encode f)"
proof (cases f)
  case (FByte b)
  with WriteByte_gave [OF _ assms(2)] assms(1) show ?thesis by fastforce
next
  case (FUint32 x)
  with WriteUint32_gave [OF _ assms(2)] assms(1) show ?thesis by fastforce
next
  case (FPow2 v)
  show ?thesis
  proof (cases "v = 0 \<or> (\<exists>k \<le> 16. v = 2 ^ k)")
    case True
    then have "WritePow2 w v = WriteByte w (of_nat (log2_loop v 0))"
      using pow2_valid [of v] unfolding WritePow2_def by simp
    with FPow2 WriteByte_gave [OF _ assms(2)] assms(1) show ?thesis by fastforce
  next
    case False
    with pow2_valid [of v] have bad: "v < 0 \<or> v > 65536 \<or> v AND (v - 1) \<noteq> 0" by blast
    have "fst (WritePow2 w v) = w \<and> snd (WritePow2 w v) \<noteq> None"
      by (simp only: WritePow2_def if_P [OF bad]) simp
    with assms(1) FPow2 have "w' = w \<and> e \<noteq> None" by simp
    with assms(2) show ?thesis by (intro exI [of _ "[]"]) auto
  qed
next
  case (FBytes d)
  with WriteBytes_gave [OF _ assms(2)] assms(1) show ?thesis by fastforce
next
  case (FMessage m d)
  with WriteMessage_gave [OF _ assms(2)] assms(1) show ?thesis by fastforce
qed

lemma write_fields_gave:
  "write_fields w fs = (w', e) \<Longrightarrow> w_ok w \<Longrightarrow>
     \<exists>q. prefix q (encodes fs) \<and> gave w q w' \<and> (e = None \<longrightarrow> q = encodes fs)"
proof (induction fs arbitrary: w)
  case Nil
  then show ?case by auto
next
  case (Cons f fs)
  obtain w1 e1 where w1: "write_field w f = (w1, e1)" by fastforce
  from write_field_gave [OF w1 Cons.prems(2)] obtain q where
    q: "prefix q (encode f)" "gave w q w1" "e1 = None \<longrightarrow> q = encode f" by blast
  show ?case
  proof (cases e1)
    case (Some x)
    with w1 q Cons.prems show ?thesis by (auto intro!: exI [of _ q])
  next
    case None
    with w1 Cons.prems have "write_fields w1 fs = (w', e)" by simp
    from Cons.IH [OF this gave_ok [OF q(2)]] obtain q2 where
      q2: "prefix q2 (encodes fs)" "gave w1 q2 w'" "e = None \<longrightarrow> q2 = encodes fs" by blast
    from None q q2 gave_trans [OF q(2) q2(2)] show ?thesis
      by (intro exI [of _ "q @ q2"]) auto
  qed
qed

text \<open>
  C29 (writer integrity). However the writes of the stream fail, what has reached the peer is a
  prefix of the encoding of the fields, and all of it once writing and flushing report no error.
\<close>

theorem wire_writer_integrity:
  assumes "write_fields (NewWriter s) fs = (w, e)" and "Flush w = (w', e')" and "out_sent s = []"
  shows "prefix (w_sent w') (encodes fs) \<and> (e = None \<and> e' = None \<longrightarrow> w_sent w' = encodes fs)"
proof -
  have start: "w_queued (NewWriter s) = []"
    using assms(3) by (simp add: w_queued_def NewWriter_def queued_def)
  from write_fields_gave [OF assms(1) w_ok_NewWriter] start obtain q where
    q: "prefix q (encodes fs)" "w_queued w = q" "w_ok w" "e = None \<longrightarrow> q = encodes fs"
    by (auto simp: gave_def)
  from Flush_gave [OF assms(2) q(3)] q(2) have "w_queued w' = q" "e' = None \<longrightarrow> w_sent w' = q"
    by (auto simp: gave_def)
  moreover from this(1) have "prefix (w_sent w') q" by (auto simp: w_queued_sent_buf)
  ultimately show ?thesis using q by (auto intro: prefix_order.trans)
qed

theorem wire_writer_integrity_witness:
  "w_sent (fst (Flush (fst (write_fields (NewWriter \<lparr>out_ctx = \<lparr>passes = None, ctx_error = EOF\<rparr>,
     out_plan = [(3, Some ShortWrite)], out_sent = []\<rparr>) [FByte 9, FUint32 258]))))
   = [9, 0, 0] \<and> prefix [9, 0, 0] (encodes [FByte 9, FUint32 258])"
proof -
  let ?s = "\<lparr>out_ctx = \<lparr>passes = None, ctx_error = EOF\<rparr>, out_plan = [(3, Some ShortWrite)], out_sent = []\<rparr>"
  let ?fs = "[FByte 9, FUint32 258]"
  have "prefix (w_sent (fst (Flush (fst (write_fields (NewWriter ?s) ?fs))))) (encodes ?fs)"
    using wire_writer_integrity [of ?s ?fs "fst (write_fields (NewWriter ?s) ?fs)"
        "snd (write_fields (NewWriter ?s) ?fs)" "fst (Flush (fst (write_fields (NewWriter ?s) ?fs)))"
        "snd (Flush (fst (write_fields (NewWriter ?s) ?fs)))"] by simp
  moreover have "w_sent (fst (Flush (fst (write_fields (NewWriter ?s) ?fs)))) = [9, 0, 0]"
    by (simp add: NewWriter_def WriteByte_def WriteUint32_def WriteBytes_def put_u32_def Flush_def
        bufWriter_Write.simps bufWriter_Flush_def bufSize_def ctxStream_Write_def ctx_Err_def
        rw_Write_def w_sent_def)
  ultimately show ?thesis by simp
qed

lemma read_field_ok:
  assumes "read_field r s = (r', Inr f)"
  shows "took r (encode f) r' \<and> shape_of f = s \<and> valid_field f"
proof (cases s)
  case SByte
  with assms show ?thesis by (auto simp: map_prod_def map_sum_def split: prod.splits sum.splits dest: ReadByte_ok)
next
  case SUint32
  with assms show ?thesis by (auto simp: map_prod_def map_sum_def split: prod.splits sum.splits dest: ReadUint32_ok)
next
  case SPow2
  with assms obtain v where v: "ReadPow2 r = (r', Inr v)" "f = FPow2 v"
    by (auto simp: map_prod_def map_sum_def split: prod.splits sum.splits)
  from ReadPow2_ok [OF v(1)] obtain b where b: "b \<le> 16" "took r [b] r'" "v = 2 ^ unat b"
    by (auto simp: push_bit_eq_mult)
  then have "unat b \<le> 16" by (simp add: word_le_nat_alt)
  with b v(2) SPow2 show ?thesis by (auto simp: log2_loop_pow2)
next
  case (SBytes n)
  with assms show ?thesis by (auto simp: map_prod_def map_sum_def split: prod.splits sum.splits dest!: ReadBytes_ok)
next
  case SMessage
  with assms obtain r1 m d where "ReadByte r = (r1, Inr m)" "ReadMessage r1 = (r', Inr d)"
    "f = FMessage m d" by (auto simp: map_prod_def map_sum_def split: prod.splits sum.splits)
  with SMessage took_trans [OF ReadByte_ok] ReadMessage_ok show ?thesis
    by (fastforce simp: frame_def)
qed

lemma read_fields_ok:
  "read_fields r ss = (r', Inr fs) \<Longrightarrow>
     took r (encodes fs) r' \<and> map shape_of fs = ss \<and> list_all valid_field fs"
proof (induction ss arbitrary: r fs)
  case Nil
  then show ?case by (auto simp: took_def)
next
  case (Cons s ss)
  then obtain r1 f fs1 where f: "read_field r s = (r1, Inr f)" "read_fields r1 ss = (r', Inr fs1)"
    "fs = f # fs1" by (auto simp: map_prod_def map_sum_def split: prod.splits sum.splits)
  from read_field_ok [OF f(1)] Cons.IH [OF f(2)] f(3) took_trans show ?case by fastforce
qed

text \<open>
  C30 (reader soundness). Whatever the stream does, fields that are read without an error are
  well-formed, and re-encoding them gives exactly the bytes consumed and counted.
\<close>

theorem wire_reader_sound:
  assumes "read_fields (NewReader i) ss = (r, Inr fs)"
  shows "map shape_of fs = ss \<and> list_all valid_field fs \<and>
    concat (in_chunks i) = encodes fs @ r_avail r \<and> BytesRead r = of_nat (length (encodes fs))"
  using read_fields_ok [OF assms]
  by (simp add: took_def r_avail_def NewReader_def avail_def BytesRead_def)

theorem wire_reader_sound_witness:
  "\<exists>r. read_fields (NewReader \<lparr>in_ctx = \<lparr>passes = Some 2, ctx_error = EOF\<rparr>,
     in_chunks = [[7, 1], [2]], in_end = EOF\<rparr>) [SByte] = (r, Inr [FByte 7]) \<and> r_avail r = [1, 2]"
proof -
  let ?i = "\<lparr>in_ctx = \<lparr>passes = Some 2, ctx_error = EOF\<rparr>, in_chunks = [[7, 1], [2]], in_end = EOF\<rparr>"
  obtain r where r: "read_fields (NewReader ?i) [SByte] = (r, Inr [FByte 7])"
    by (simp add: NewReader_def ReadByte_def io_ReadFull_def ReadFull_loop.simps bufReader_Read_def
        bufSize_def ctxStream_Read_def ctx_Err_def rw_Read_def)
  from wire_reader_sound [OF r] show ?thesis using r by auto
qed

end
