(* ===== verification/Keccak.thy ===== *)
theory Keccak
  imports Prelude
begin

text \<open>
  The mixing function of the hash engine (hash/hash.go, \<open>rol64\<close> and \<open>keccakF1600Step\<close>): the round is
  transcribed assignment by assignment, on the 25 lanes as a list. Beside it stand the step mappings
  of FIPS 202 (theta, rho, pi, chi, iota) on the same lanes, lane (x, y) at index 5 y + x. The
  lemmas relate the two: the engine's round computes the lanes of the standard round, but leaves
  lane (x, y) of the result at (x, x + 2y), the storage order of an in-place Keccak that alternates
  four differently addressed rounds; the engine repeats one of the four.
\<close>

section \<open>The round of the engine\<close>

text \<open>\<open>a<<x | a>>(64-x)\<close>\<close>

definition rol64 :: "u64 \<Rightarrow> nat \<Rightarrow> u64" where
  "rol64 a x = push_bit x a OR drop_bit (64 - x) a"

definition rc :: "u64 list" where
  "rc = [0x0000000000000001, 0x0000000000008082,
         0x800000000000808a, 0x8000000080008000,
         0x000000000000808b, 0x0000000080000001]"

text \<open>The body of the loop, with the round constant \<open>rci = rc[i]\<close>.\<close>

definition keccak_round :: "u64 \<Rightarrow> u64 list \<Rightarrow> u64 list" where
  "keccak_round rci s =
    (let a00 = s ! 0;
         a01 = s ! 1;
         a02 = s ! 2;
         a03 = s ! 3;
         a04 = s ! 4;
         a10 = s ! 5;
         a11 = s ! 6;
         a12 = s ! 7;
         a13 = s ! 8;
         a14 = s ! 9;
         a20 = s ! 10;
         a21 = s ! 11;
         a22 = s ! 12;
         a23 = s ! 13;
         a24 = s ! 14;
         a30 = s ! 15;
         a31 = s ! 16;
         a32 = s ! 17;
         a33 = s ! 18;
         a34 = s ! 19;
         a40 = s ! 20;
         a41 = s ! 21;
         a42 = s ! 22;
         a43 = s ! 23;
         a44 = s ! 24;
         c0 = a00 XOR a10 XOR a20 XOR a30 XOR a40;
         c1 = a01 XOR a11 XOR a21 XOR a31 XOR a41;
         c2 = a02 XOR a12 XOR a22 XOR a32 XOR a42;
         c3 = a03 XOR a13 XOR a23 XOR a33 XOR a43;
         c4 = a04 XOR a14 XOR a24 XOR a34 XOR a44;
         d0 = c4 XOR rol64 c1 1;
         d1 = c0 XOR rol64 c2 1;
         d2 = c1 XOR rol64 c3 1;
         d3 = c2 XOR rol64 c4 1;
         d4 = c3 XOR rol64 c0 1;
         b0 = a00 XOR d0;
         b1 = rol64 (a11 XOR d1) 44;
         b2 = rol64 (a22 XOR d2) 43;
         b3 = rol64 (a33 XOR d3) 21;
         b4 = rol64 (a44 XOR d4) 14;
         a00 = b0 XOR (NOT b1 AND b2);
         a00 = a00 XOR rci;
         a11 = b1 XOR (NOT b2 AND b3);
         a22 = b2 XOR (NOT b3 AND b4);
         a33 = b3 XOR (NOT b4 AND b0);
         a44 = b4 XOR (NOT b0 AND b1);
         b2 = rol64 (a20 XOR d0) 3;
         b3 = rol64 (a31 XOR d1) 45;
         b4 = rol64 (a42 XOR d2) 61;
         b0 = rol64 (a03 XOR d3) 28;
         b1 = rol64 (a14 XOR d4) 20;
         a20 = b0 XOR (NOT b1 AND b2);
         a31 = b1 XOR (NOT b2 AND b3);
         a42 = b2 XOR (NOT b3 AND b4);
         a03 = b3 XOR (NOT b4 AND b0);
         a14 = b4 XOR (NOT b0 AND b1);
         b4 = rol64 (a40 XOR d0) 18;
         b0 = rol64 (a01 XOR d1) 1;
         b1 = rol64 (a12 XOR d2) 6;
         b2 = rol64 (a23 XOR d3) 25;
         b3 = rol64 (a34 XOR d4) 8;
         a40 = b0 XOR (NOT b1 AND b2);
         a01 = b1 XOR (NOT b2 AND b3);
         a12 = b2 XOR (NOT b3 AND b4);
         a23 = b3 XOR (NOT b4 AND b0);
         a34 = b4 XOR (NOT b0 AND b1);
         b1 = rol64 (a10 XOR d0) 36;
         b2 = rol64 (a21 XOR d1) 10;
         b3 = rol64 (a32 XOR d2) 15;
         b4 = rol64 (a43 XOR d3) 56;
         b0 = rol64 (a04 XOR d4) 27;
         a10 = b0 XOR (NOT b1 AND b2);
         a21 = b1 XOR (NOT b2 AND b3);
         a32 = b2 XOR (NOT b3 AND b4);
         a43 = b3 XOR (NOT b4 AND b0);
         a04 = b4 XOR (NOT b0 AND b1);
         b3 = rol64 (a30 XOR d0) 41;
         b4 = rol64 (a41 XOR d1) 2;
         b0 = rol64 (a02 XOR d2) 62;
         b1 = rol64 (a13 XOR d3) 55;
         b2 = rol64 (a24 XOR d4) 39;
         a30 = b0 XOR (NOT b1 AND b2);
         a41 = b1 XOR (NOT b2 AND b3);
         a02 = b2 XOR (NOT b3 AND b4);
         a13 = b3 XOR (NOT b4 AND b0);
         a24 = b4 XOR (NOT b0 AND b1)
     in [a00, a01, a02, a03, a04, a10, a11, a12, a13, a14, a20, a21, a22, a23, a24, a30, a31, a32, a33, a34, a40, a41, a42, a43, a44])"

text \<open>\<open>keccakF1600Step\<close>: \<open>for i := 0; i < 6; i++\<close>.\<close>

definition keccakF1600Step :: "u64 list \<Rightarrow> u64 list" where
  "keccakF1600Step s = foldl (\<lambda>a i. keccak_round (rc ! i) a) s [0..<6]"

section \<open>The step mappings of FIPS 202\<close>

definition theta :: "u64 list \<Rightarrow> u64 list" where
  "theta s =
     (let c = map (\<lambda>x. s ! x XOR s ! (x + 5) XOR s ! (x + 10) XOR s ! (x + 15) XOR s ! (x + 20)) [0..<5];
          d = map (\<lambda>x. c ! ((x + 4) mod 5) XOR rol64 (c ! ((x + 1) mod 5)) 1) [0..<5]
      in map (\<lambda>i. s ! i XOR d ! (i mod 5)) [0..<25])"

text \<open>The rotation offsets of rho, lane by lane.\<close>

definition rho_offsets :: "nat list" where
  "rho_offsets =
     [0, 1, 62, 28, 27,
      36, 44, 6, 55, 20,
      3, 10, 43, 25, 39,
      41, 45, 15, 21, 8,
      18, 2, 61, 56, 14]"

definition rho :: "u64 list \<Rightarrow> u64 list" where
  "rho s = map (\<lambda>i. if rho_offsets ! i = 0 then s ! i else rol64 (s ! i) (rho_offsets ! i)) [0..<25]"

text \<open>pi moves lane (x, y) to (y, 2x + 3y); \<open>pi_src\<close> is the index a lane comes from.\<close>

definition pi_src :: "nat \<Rightarrow> nat" where
  "pi_src i = (let x = i mod 5; y = i div 5 in 5 * x + (x + 3 * y) mod 5)"

definition keccak_pi :: "u64 list \<Rightarrow> u64 list" where
  "keccak_pi s = map (\<lambda>i. s ! pi_src i) [0..<25]"

definition chi :: "u64 list \<Rightarrow> u64 list" where
  "chi s = map (\<lambda>i. let x = i mod 5; y = 5 * (i div 5)
     in s ! i XOR (NOT (s ! (y + (x + 1) mod 5)) AND s ! (y + (x + 2) mod 5))) [0..<25]"

definition iota :: "u64 \<Rightarrow> u64 list \<Rightarrow> u64 list" where
  "iota r s = s[0 := s ! 0 XOR r]"

definition fips_round :: "u64 \<Rightarrow> u64 list \<Rightarrow> u64 list" where
  "fips_round r s = iota r (chi (keccak_pi (rho (theta s))))"

lemma upt_25: "[0..<25] = [0, 1, 2, 3, 4, 5, 6, 7, 8, 9, 10, 11, 12, 13, 14, 15, 16, 17, 18, 19,
    20, 21, 22, 23, 24::nat]"
  by (simp add: upt_rec)

lemma upt_5: "[0..<5] = [0, 1, 2, 3, 4::nat]"
  by (simp add: upt_rec)

lemma list_25:
  assumes "length s = 25"
  shows "\<exists>a00 a01 a02 a03 a04 a10 a11 a12 a13 a14 a20 a21 a22 a23 a24 a30 a31 a32 a33 a34
     a40 a41 a42 a43 a44. s = [a00, a01, a02, a03, a04, a10, a11, a12, a13, a14, a20, a21, a22,
     a23, a24, a30, a31, a32, a33, a34, a40, a41, a42, a43, a44]"
  using assms by (auto simp: numeral_eq_Suc length_Suc_conv)

lemma length_keccak_round [simp]: "length (keccak_round r s) = 25"
  by (simp add: keccak_round_def Let_def)

lemma length_keccakF1600Step [simp]: "length (keccakF1600Step s) = 25"
  by (simp add: keccakF1600Step_def numeral_eq_Suc)

text \<open>
  Where the engine leaves lane \<open>i\<close> of the standard round's result: lane (x, y) is at (x, x + 2y).
\<close>

definition slot :: "nat \<Rightarrow> nat" where
  "slot i = (let x = i mod 5; y = i div 5 in 5 * ((x + 2 * y) mod 5) + x)"

lemma keccak_round_fips:
  assumes "length s = 25"
  shows "map (\<lambda>i. keccak_round r s ! slot i) [0..<25] = fips_round r s"
proof -
  from list_25 [OF assms] obtain a00 a01 a02 a03 a04 a10 a11 a12 a13 a14 a20 a21 a22 a23 a24
    a30 a31 a32 a33 a34 a40 a41 a42 a43 a44 where s: "s = [a00, a01, a02, a03, a04, a10, a11,
     a12, a13, a14, a20, a21, a22, a23, a24, a30, a31, a32, a33, a34, a40, a41, a42, a43, a44]"
    by (elim exE)
  show ?thesis
    unfolding s
    by (simp add: fips_round_def keccak_round_def keccak_pi_def pi_src_def slot_def theta_def rho_def
        rho_offsets_def chi_def iota_def upt_25 upt_5 Let_def ac_simps)
qed

end
