(* ===== verification/Hash.thy ===== *)
theory Hash
  imports Keccak
begin

text \<open>
  The hash engine (hash/hash.go): \<open>HashContext\<close>, \<open>HashInit\<close>, \<open>HashUpdate\<close>, \<open>HashFinal\<close>. An index
  outside the 25 lanes and a context of another size than 160 bits panic in Go; both are \<open>None\<close>.
  The lemmas show that an initialised context never gets there, that the input may be split
  anywhere, and that the digest is the sponge construction over 160-byte blocks with the padding
  of FIPS 202.
\<close>

section \<open>The engine\<close>

record HashContext =
  lanes :: "u64 list"
  nRate :: u32
  nLoaded :: u32
  iSize :: u32

text \<open>\<open>HashContext{}\<close>\<close>

definition zeroContext :: HashContext where
  "zeroContext = \<lparr>lanes = replicate 25 0, nRate = 0, nLoaded = 0, iSize = 0\<rparr>"

definition HashInit :: "u32 \<Rightarrow> HashContext" where
  "HashInit sz = zeroContext\<lparr>iSize := sz, nRate :=
     (if 128 \<le> sz \<and> sz \<le> 512 then (1600 - ((sz + 31) AND NOT 31) * 2) div 8
      else (1600 - 2 * 256) div 8)\<rparr>"

fun HashUpdate :: "HashContext \<Rightarrow> bytes \<Rightarrow> HashContext option" where
  "HashUpdate p [] = Some p"
| "HashUpdate p (a # aData) =
     (let i = unat (nLoaded p div 8) in
      if 25 \<le> i then None
      else
        let p1 = p\<lparr>lanes := (lanes p)[i := lanes p ! i XOR push_bit (unat (8 * (nLoaded p mod 8))) (ucast a)],
                   nLoaded := nLoaded p + 1\<rparr>
        in HashUpdate
             (if nLoaded p1 = nRate p1 then p1\<lparr>lanes := keccakF1600Step (lanes p1), nLoaded := 0\<rparr>
              else p1) aData)"

definition HashFinal :: "HashContext \<Rightarrow> (HashContext \<times> bytes) option" where
  "HashFinal p =
     (if iSize p \<noteq> 160 then None
      else
        case (if nLoaded p = nRate p - 1 then HashUpdate p [0x86]
              else case HashUpdate p [0x06] of
                None \<Rightarrow> None
              | Some q \<Rightarrow> HashUpdate (q\<lparr>nLoaded := nRate q - 1\<rparr>) [0x80]) of
          None \<Rightarrow> None
        | Some q \<Rightarrow>
            Some (q, map (\<lambda>i. ucast (drop_bit (8 * (i mod 8)) (lanes q ! (i div 8)))) [0..<20]))"

text \<open>The engine's callers run the three in this order (hash/sql.go).\<close>

definition hash160 :: "bytes \<Rightarrow> bytes option" where
  "hash160 d =
     (case HashUpdate (HashInit 160) d of
        None \<Rightarrow> None
      | Some cx \<Rightarrow> map_option snd (HashFinal cx))"

section \<open>Splitting the input\<close>

lemma HashUpdate_append:
  "HashUpdate p (a @ b) = Option.bind (HashUpdate p a) (\<lambda>q. HashUpdate q b)"
  by (induction p a rule: HashUpdate.induct) (simp_all add: Let_def)

section \<open>The sponge\<close>

text \<open>Eight input bytes as a little-endian lane, and a block added to the state.\<close>

definition le_lane :: "bytes \<Rightarrow> u64" where
  "le_lane bs = foldl (\<lambda>a k. a XOR push_bit (8 * k) (ucast (bs ! k))) 0 [0..<length bs]"

definition lane_of :: "bytes \<Rightarrow> nat \<Rightarrow> u64" where
  "lane_of blk j = le_lane (take 8 (drop (8 * j) blk))"

definition xor_block :: "u64 list \<Rightarrow> bytes \<Rightarrow> u64 list" where
  "xor_block s blk = map (\<lambda>j. s ! j XOR lane_of blk j) [0..<25]"

text \<open>Absorb every full 160-byte block; a rest is added without a permutation.\<close>

fun absorb :: "u64 list \<Rightarrow> bytes \<Rightarrow> u64 list" where
  "absorb s msg =
     (if length msg < 160 then xor_block s msg
      else absorb (keccakF1600Step (xor_block s (take 160 msg))) (drop 160 msg))"

declare absorb.simps [simp del]

text \<open>The suffix 01 and pad10*1 of FIPS 202 in bytes: 0x06, zeros, 0x80, or 0x86 alone.\<close>

definition fips_pad :: "nat \<Rightarrow> bytes" where
  "fips_pad n = (let r = n mod 160 in
     if r = 159 then [0x86] else 0x06 # replicate (158 - r) 0 @ [0x80])"

definition squeeze :: "u64 list \<Rightarrow> bytes" where
  "squeeze s = map (\<lambda>i. ucast (drop_bit (8 * (i mod 8)) (s ! (i div 8)))) [0..<20]"

definition sponge :: "bytes \<Rightarrow> bytes" where
  "sponge d = squeeze (absorb (replicate 25 0) (d @ fips_pad (length d)))"

lemma length_squeeze [simp]: "length (squeeze s) = 20"
  by (simp add: squeeze_def)

lemma length_xor_block [simp]: "length (xor_block s b) = 25"
  by (simp add: xor_block_def)

lemma length_absorb [simp]: "length (absorb s m) = 25"
proof (induction s m rule: absorb.induct)
  case (1 s m)
  then show ?case by (cases "length m < 160") (simp_all add: absorb.simps [of s m])
qed

lemma le_lane_Nil [simp]: "le_lane [] = 0"
  by (simp add: le_lane_def)

lemma le_lane_snoc: "le_lane (bs @ [b]) = le_lane bs XOR push_bit (8 * length bs) (ucast b)"
proof -
  have "foldl (\<lambda>a k. a XOR push_bit (8 * k) (ucast ((bs @ [b]) ! k))) (0::u64) [0..<length bs] =
    foldl (\<lambda>a k. a XOR push_bit (8 * k) (ucast (bs ! k))) 0 [0..<length bs]"
    by (rule foldl_cong) (simp_all add: nth_append)
  then show ?thesis by (simp add: le_lane_def)
qed

lemma xor_block_Nil [simp]: "length s = 25 \<Longrightarrow> xor_block s [] = s"
  by (rule nth_equalityI) (simp_all add: xor_block_def lane_of_def)

lemma lane_of_snoc:
  "lane_of (blk @ [b]) j =
     (if j = length blk div 8 then lane_of blk j XOR push_bit (8 * (length blk mod 8)) (ucast b)
      else lane_of blk j)"
proof -
  consider "8 * j + 8 \<le> length blk" | "j = length blk div 8" | "length blk < 8 * j" by linarith
  then show ?thesis
  proof cases
    case 1
    then show ?thesis by (auto simp: lane_of_def)
  next
    case 2
    have "length (drop (8 * j) blk) = length blk mod 8"
      using 2 by (simp add: minus_mult_div_eq_mod)
    moreover have "length blk mod 8 < 8" by simp
    moreover have "8 * j \<le> length blk" using 2 by simp
    ultimately show ?thesis using 2 by (simp add: lane_of_def le_lane_snoc)
  next
    case 3
    then show ?thesis by (auto simp: lane_of_def)
  qed
qed

text \<open>Adding one more byte to a block.\<close>

definition add_byte :: "u64 list \<Rightarrow> nat \<Rightarrow> byte \<Rightarrow> u64 list" where
  "add_byte s k b = s[k div 8 := s ! (k div 8) XOR push_bit (8 * (k mod 8)) (ucast b)]"

lemma xor_block_snoc:
  assumes "length blk < 200"
  shows "xor_block s (blk @ [b]) = add_byte (xor_block s blk) (length blk) b"
proof (rule nth_equalityI)
  fix j assume "j < length (xor_block s (blk @ [b]))"
  moreover have "length blk div 8 < 25" using assms by simp
  ultimately show "xor_block s (blk @ [b]) ! j = add_byte (xor_block s blk) (length blk) b ! j"
    by (auto simp: xor_block_def add_byte_def lane_of_snoc nth_list_update xor.assoc)
qed (simp add: add_byte_def)

lemma absorb_snoc:
  "absorb s (d @ [b]) =
     (let t = add_byte (absorb s d) (length d mod 160) b
      in if length d mod 160 = 159 then keccakF1600Step t else t)"
proof (induction s d rule: absorb.induct)
  case (1 s d)
  show ?case
  proof (cases "length d < 160")
    case True
    have nil: "absorb t [] = xor_block t []" for t by (simp add: absorb.simps [of t "[]"])
    from True consider "length d = 159" | "length d < 159" by linarith
    then show ?thesis
      using True
      by cases (simp_all add: absorb.simps [of s d] absorb.simps [of s "d @ [b]"] nil xor_block_snoc)
  next
    case False
    then have "absorb s (d @ [b]) =
      absorb (keccakF1600Step (xor_block s (take 160 d))) (drop 160 d @ [b])"
      by (simp add: absorb.simps [of s "d @ [b]"])
    moreover have "(length d - 160) mod 160 = length d mod 160"
      using False by (simp add: mod_if [of "length d"])
    ultimately show ?thesis
      using "1.IH" [OF False] False by (simp add: absorb.simps [of s d] Let_def)
  qed
qed

section \<open>The engine computes the sponge\<close>

text \<open>The context after the bytes \<open>d\<close>.\<close>

definition context_of :: "bytes \<Rightarrow> HashContext" where
  "context_of d = \<lparr>lanes = absorb (replicate 25 0) d, nRate = 160,
     nLoaded = of_nat (length d mod 160), iSize = 160\<rparr>"

lemma HashInit_160: "HashInit 160 = context_of []"
proof -
  have "absorb (replicate 25 0) [] = replicate 25 (0::u64)"
    by (simp add: absorb.simps [of _ "[]"])
  then show ?thesis by (simp add: HashInit_def context_of_def zeroContext_def)
qed

lemma unat_loaded: "n < 160 \<Longrightarrow> unat (of_nat n :: u32) = n"
  by (simp add: unat_of_nat)

lemma loaded_div: "n < 160 \<Longrightarrow> unat ((of_nat n :: u32) div 8) = n div 8"
  by (simp add: unat_div unat_loaded)

lemma loaded_mod: "n < 160 \<Longrightarrow> unat (8 * ((of_nat n :: u32) mod 8)) = 8 * (n mod 8)"
  by (simp add: unat_word_ariths unat_mod unat_loaded)

lemma loaded_full: "n < 160 \<Longrightarrow> (of_nat n = (159 :: u32)) = (n = 159)"
  by (auto simp: word_unat_eq_iff unat_loaded)

lemma HashUpdate_step:
  assumes "nLoaded p = of_nat n" "n < 160" "nRate p = 160" "length (lanes p) = 25"
  shows "HashUpdate p [b] =
    (let t = add_byte (lanes p) n b in
     Some (if n = 159 then p\<lparr>lanes := keccakF1600Step t, nLoaded := 0\<rparr>
           else p\<lparr>lanes := t, nLoaded := of_nat (Suc n)\<rparr>))"
proof -
  have "n div 8 < 25" using assms(2) by simp
  with assms show ?thesis
    by (simp add: Let_def add_byte_def loaded_div loaded_mod loaded_full add.commute)
qed

lemma HashUpdate_context: "HashUpdate (HashInit 160) d = Some (context_of d)"
proof (induction d rule: rev_induct)
  case Nil
  show ?case by (simp add: HashInit_160)
next
  case (snoc b d)
  let ?n = "length d mod 160"
  have n: "?n < 160" by simp
  have "Suc (length d) mod 160 = (if ?n = 159 then 0 else Suc ?n)"
    by (simp add: mod_Suc)
  with HashUpdate_step [of "context_of d" ?n b] n
  have "HashUpdate (context_of d) [b] = Some (context_of (d @ [b]))"
    by (simp add: context_of_def absorb_snoc Let_def)
  with snoc show ?case by (simp add: HashUpdate_append)
qed

text \<open>A zero byte only moves the position.\<close>

lemma add_byte_0 [simp]: "add_byte s k 0 = s"
  by (simp add: add_byte_def)

lemma absorb_zeros:
  "length d mod 160 + k \<le> 159 \<Longrightarrow> absorb s (d @ replicate k 0) = absorb s d"
proof (induction k)
  case (Suc k)
  have "replicate (Suc k) (0::byte) = replicate k 0 @ [0]" by (simp add: replicate_append_same)
  moreover have "(length d + k) mod 160 \<noteq> 159"
  proof -
    have "(length d + k) mod 160 = (length d mod 160 + k) mod 160"
      by (rule mod_add_left_eq [symmetric])
    with Suc.prems show ?thesis by simp
  qed
  ultimately show ?case
    using Suc absorb_snoc [of s "d @ replicate k 0" 0] by (simp add: Let_def)
qed simp

lemma context_zeros:
  assumes "length d mod 160 + k \<le> 159"
  shows "(context_of d)\<lparr>nLoaded := of_nat (length d mod 160 + k)\<rparr> = context_of (d @ replicate k 0)"
proof -
  have "(length d + k) mod 160 = (length d mod 160 + k) mod 160"
    by (rule mod_add_left_eq [symmetric])
  with assms show ?thesis by (simp add: context_of_def absorb_zeros)
qed

lemma HashUpdate_context_step:
  "HashUpdate (context_of d) [b] = Some (context_of (d @ [b]))"
  using HashUpdate_context [of "d @ [b]"] HashUpdate_context [of d]
  by (simp add: HashUpdate_append del: HashUpdate.simps)

text \<open>Both ways of \<open>HashFinal\<close> to pad the last block end in the context of the padded input.\<close>

lemma HashFinal_context:
  "HashFinal (context_of d) =
     Some (context_of (d @ fips_pad (length d)), squeeze (lanes (context_of (d @ fips_pad (length d)))))"
proof -
  let ?r = "length d mod 160"
  have r: "?r < 160" by simp
  show ?thesis
  proof (cases "?r = 159")
    case True
    then have "fips_pad (length d) = [0x86]" by (simp add: fips_pad_def)
    moreover have "nLoaded (context_of d) = nRate (context_of d) - 1" "iSize (context_of d) = 160"
      using True by (simp_all add: context_of_def)
    ultimately show ?thesis
      by (simp add: HashFinal_def HashUpdate_context_step squeeze_def del: HashUpdate.simps)
  next
    case False
    let ?d = "d @ [0x06]"
    have len: "length ?d mod 160 = Suc ?r" using False by (simp add: mod_Suc)
    have pad: "d @ fips_pad (length d) = (?d @ replicate (158 - ?r) 0) @ [0x80]"
      using False by (simp add: fips_pad_def Let_def)
    have "nLoaded (context_of d) \<noteq> nRate (context_of d) - 1" "iSize (context_of d) = 160"
      using False loaded_full [OF r] by (simp_all add: context_of_def)
    moreover have "length ?d mod 160 + (158 - ?r) = 159" using len False r by simp
    then have "(context_of ?d)\<lparr>nLoaded := nRate (context_of ?d) - 1\<rparr> =
        context_of (?d @ replicate (158 - ?r) 0)"
      using context_zeros [of ?d "158 - ?r"] by (simp add: context_of_def)
    ultimately show ?thesis
      unfolding pad by (simp add: HashFinal_def HashUpdate_context_step squeeze_def
          del: HashUpdate.simps append_assoc)
  qed
qed

lemma hash160_sponge: "hash160 d = Some (sponge d)"
proof -
  have "lanes (context_of (d @ fips_pad (length d))) = absorb (replicate 25 0) (d @ fips_pad (length d))"
    by (simp add: context_of_def)
  then show ?thesis
    by (simp add: hash160_def HashUpdate_context HashFinal_context sponge_def)
qed

end
