(* ===== verification/HashSql.thy ===== *)
theory HashSql
  imports Hash
begin

text \<open>
  The SQL functions of hash/sql.go: \<open>hashFunc\<close>, the state object \<open>agghashAggregate\<close> of the aggregate
  with its four methods, and \<open>Register\<close>. The SQLite driver is code outside the repository: its
  registration calls are parameters. A panic is \<open>None\<close>. The locale states what a caller expects of
  an aggregate (a value that depends on the accumulated input only, and can be read again); it is
  interpreted on \<open>agghash\<close>.
\<close>

section \<open>hash\<close>

text \<open>
  A \<open>driver.Value\<close> as the type switches see it: nil, a byte slice, a string, or a value of another
  dynamic type, whose name \<open>%T\<close> prints.
\<close>

datatype dvalue = VNil | VBytes bytes | VString string | VOther string

text \<open>\<open>fmt.Errorf("...: unsupported argument type %T (only TEXT and BLOB are supported)", v)\<close>\<close>

definition unsupported :: "string \<Rightarrow> string \<Rightarrow> goerr" where
  "unsupported f t = ErrText (f @ '': unsupported argument type '' @ t @
     '' (only TEXT and BLOB are supported)'')"

definition hashFunc :: "dvalue list \<Rightarrow> (goerr + dvalue) option" where
  "hashFunc args =
     (case args of
        [] \<Rightarrow> None
      | arg # _ \<Rightarrow>
          (case arg of
             VNil \<Rightarrow> Some (Inr VNil)
           | VBytes v \<Rightarrow> map_option (\<lambda>h. Inr (VBytes h)) (hash160 v)
           | VString v \<Rightarrow> map_option (\<lambda>h. Inr (VBytes h)) (hash160 (bytes_of v))
           | VOther t \<Rightarrow> Some (Inl (unsupported ''hash'' t))))"

section \<open>agghash\<close>

record agghashAggregate =
  cx :: HashContext
  started :: bool
  is_done :: bool
  result :: bytes

text \<open>\<open>MakeAggregate\<close> returns \<open>&agghashAggregate{}\<close>.\<close>

definition MakeAggregate :: agghashAggregate where
  "MakeAggregate = \<lparr>cx = zeroContext, started = False, is_done = False, result = replicate 20 0\<rparr>"

definition agghash_start :: "agghashAggregate \<Rightarrow> agghashAggregate" where
  "agghash_start a = (if started a then a else a\<lparr>cx := HashInit 160, started := True\<rparr>)"

definition Step :: "agghashAggregate \<Rightarrow> dvalue list \<Rightarrow> (agghashAggregate \<times> goerr option) option" where
  "Step a args =
     (case args of
        [] \<Rightarrow> None
      | arg # _ \<Rightarrow>
          if arg = VNil then Some (a, None)
          else
            let a1 = agghash_start a
            in (case arg of
                  VBytes v \<Rightarrow> map_option (\<lambda>c. (a1\<lparr>cx := c\<rparr>, None)) (HashUpdate (cx a1) v)
                | VString v \<Rightarrow> map_option (\<lambda>c. (a1\<lparr>cx := c\<rparr>, None)) (HashUpdate (cx a1) (bytes_of v))
                | VOther t \<Rightarrow> Some (a1, Some (unsupported ''agghash'' t))
                | VNil \<Rightarrow> Some (a1, None)))"

definition WindowInverse :: "agghashAggregate \<Rightarrow> dvalue list \<Rightarrow> agghashAggregate \<times> goerr option" where
  "WindowInverse a args = (a, None)"

definition WindowValue ::
  "agghashAggregate \<Rightarrow> (agghashAggregate \<times> (goerr + dvalue)) option" where
  "WindowValue a =
     (if \<not> started a then Some (a, Inr VNil)
      else if is_done a then Some (a, Inr (VBytes (result a)))
      else case HashFinal (cx a) of
             None \<Rightarrow> None
           | Some (c, d) \<Rightarrow>
               Some (a\<lparr>cx := c, result := d, is_done := True\<rparr>, Inr (VBytes d)))"

definition Final :: "agghashAggregate \<Rightarrow> agghashAggregate" where
  "Final a = a"

section \<open>Registration\<close>

text \<open>
  The package variables \<open>registerOnce\<close> and \<open>registerErr\<close>, and the driver's state. Parameters:
  \<open>scalar d name nArg\<close> is \<open>sqlite.RegisterDeterministicScalarFunction\<close>,
  \<open>aggregate d name nArg deterministic\<close> is \<open>sqlite.RegisterFunction\<close>.
\<close>

record 'd registration =
  once_ran :: bool
  registerErr :: "goerr option"
  driver :: 'd

definition registerFunctions ::
  "('d \<Rightarrow> string \<Rightarrow> nat \<Rightarrow> 'd \<times> goerr option) \<Rightarrow>
   ('d \<Rightarrow> string \<Rightarrow> nat \<Rightarrow> bool \<Rightarrow> 'd \<times> goerr option) \<Rightarrow> 'd \<Rightarrow> 'd \<times> goerr option" where
  "registerFunctions scalar aggregate d =
     (case scalar d ''hash'' 1 of
        (d1, Some e) \<Rightarrow> (d1, Some e)
      | (d1, None) \<Rightarrow> aggregate d1 ''agghash'' 1 True)"

definition Register ::
  "('d \<Rightarrow> string \<Rightarrow> nat \<Rightarrow> 'd \<times> goerr option) \<Rightarrow>
   ('d \<Rightarrow> string \<Rightarrow> nat \<Rightarrow> bool \<Rightarrow> 'd \<times> goerr option) \<Rightarrow>
   'd registration \<Rightarrow> 'd registration \<times> goerr option" where
  "Register scalar aggregate r =
     (let r1 = (if once_ran r then r
                else case registerFunctions scalar aggregate (driver r) of
                       (d, e) \<Rightarrow> r\<lparr>once_ran := True, registerErr := e, driver := d\<rparr>)
      in (r1, registerErr r1))"

section \<open>The contract of an aggregate\<close>

text \<open>
  How the driver evaluates an aggregate: a fresh state object, one step per row until one fails,
  then the value.
\<close>

fun step_rows ::
  "('st \<Rightarrow> 'row \<Rightarrow> ('st \<times> goerr option) option) \<Rightarrow> 'st \<Rightarrow> 'row list \<Rightarrow> ('st \<times> goerr option) option" where
  "step_rows f s [] = Some (s, None)"
| "step_rows f s (r # rs) =
     (case f s r of
        None \<Rightarrow> None
      | Some (s', Some e) \<Rightarrow> Some (s', Some e)
      | Some (s', None) \<Rightarrow> step_rows f s' rs)"

definition agg_eval ::
  "'st \<Rightarrow> ('st \<Rightarrow> 'row \<Rightarrow> ('st \<times> goerr option) option) \<Rightarrow> ('st \<Rightarrow> ('st \<times> (goerr + 'out)) option) \<Rightarrow>
   'row list \<Rightarrow> (goerr + 'out) option" where
  "agg_eval init f v rows =
     (case step_rows f init rows of
        None \<Rightarrow> None
      | Some (s, Some e) \<Rightarrow> Some (Inl e)
      | Some (s, None) \<Rightarrow> map_option snd (v s))"

text \<open>
  \<open>repr s i\<close>: the state object \<open>s\<close> holds the input \<open>i\<close> and may still be stepped. A row either adds to
  the input or is refused; the value depends on the input and can be read again.
\<close>

locale aggregate_function =
  fixes init :: 'st
    and step :: "'st \<Rightarrow> 'row \<Rightarrow> ('st \<times> goerr option) option"
    and val :: "'st \<Rightarrow> ('st \<times> (goerr + 'out)) option"
    and repr :: "'st \<Rightarrow> 'in \<Rightarrow> bool"
    and zero :: 'in
    and add :: "'in \<Rightarrow> 'row \<Rightarrow> goerr + 'in"
    and answer :: "'in \<Rightarrow> goerr + 'out"
  assumes init: "repr init zero"
    and step_ok: "repr s i \<Longrightarrow> add i r = Inr j \<Longrightarrow> \<exists>s'. step s r = Some (s', None) \<and> repr s' j"
    and step_bad: "repr s i \<Longrightarrow> add i r = Inl e \<Longrightarrow> \<exists>s'. step s r = Some (s', Some e)"
    and val: "repr s i \<Longrightarrow> \<exists>s'. val s = Some (s', answer i) \<and> val s' = Some (s', answer i)"
begin

fun total :: "'in \<Rightarrow> 'row list \<Rightarrow> goerr + 'in" where
  "total i [] = Inr i"
| "total i (r # rs) = (case add i r of Inl e \<Rightarrow> Inl e | Inr j \<Rightarrow> total j rs)"

lemma step_rows_total:
  "repr s i \<Longrightarrow>
     (case total i rs of
        Inl e \<Rightarrow> \<exists>s'. step_rows step s rs = Some (s', Some e)
      | Inr j \<Rightarrow> \<exists>s'. step_rows step s rs = Some (s', None) \<and> repr s' j)"
proof (induction rs arbitrary: s i)
  case (Cons r rs)
  show ?case
  proof (cases "add i r")
    case (Inl e)
    with step_bad [OF Cons.prems] show ?thesis by fastforce
  next
    case (Inr j)
    with step_ok [OF Cons.prems] obtain s' where "step s r = Some (s', None)" "repr s' j" by blast
    with Cons.IH [of s' j] Inr show ?thesis by (simp split: sum.splits)
  qed
qed simp

lemma evaluation:
  "agg_eval init step val rs = Some (case total zero rs of Inl e \<Rightarrow> Inl e | Inr i \<Rightarrow> answer i)"
  using step_rows_total [OF init, of rs] val
  by (fastforce simp: agg_eval_def split: sum.splits)

end

section \<open>agghash keeps the contract\<close>

text \<open>The bytes hashed so far, \<open>None\<close> before the first row that is not NULL.\<close>

definition agg_repr :: "agghashAggregate \<Rightarrow> bytes option \<Rightarrow> bool" where
  "agg_repr a acc = (\<not> is_done a \<and>
     (case acc of None \<Rightarrow> \<not> started a | Some b \<Rightarrow> started a \<and> cx a = context_of b))"

definition more :: "bytes option \<Rightarrow> bytes \<Rightarrow> bytes option" where
  "more acc b = Some ((case acc of None \<Rightarrow> [] | Some a \<Rightarrow> a) @ b)"

definition add_row :: "bytes option \<Rightarrow> dvalue \<Rightarrow> goerr + bytes option" where
  "add_row acc r =
     (case r of
        VNil \<Rightarrow> Inr acc
      | VBytes v \<Rightarrow> Inr (more acc v)
      | VString v \<Rightarrow> Inr (more acc (bytes_of v))
      | VOther t \<Rightarrow> Inl (unsupported ''agghash'' t))"

lemma add_row_simps [simp]:
  "add_row acc VNil = Inr acc"
  "add_row acc (VBytes v) = Inr (more acc v)"
  "add_row acc (VString w) = Inr (more acc (bytes_of w))"
  "add_row acc (VOther t) = Inl (unsupported ''agghash'' t)"
  by (simp_all add: add_row_def)

definition agg_answer :: "bytes option \<Rightarrow> goerr + dvalue" where
  "agg_answer acc = Inr (case acc of None \<Rightarrow> VNil | Some b \<Rightarrow> VBytes (sponge b))"

lemma agghash_start_repr:
  "agg_repr a acc \<Longrightarrow>
     started (agghash_start a) \<and> \<not> is_done (agghash_start a) \<and>
     cx (agghash_start a) = context_of (case acc of None \<Rightarrow> [] | Some b \<Rightarrow> b)"
  by (auto simp: agg_repr_def agghash_start_def HashInit_160 split: option.splits)

lemma HashUpdate_context_of: "HashUpdate (context_of a) b = Some (context_of (a @ b))"
  using HashUpdate_context [of "a @ b"] HashUpdate_context [of a] by (simp add: HashUpdate_append)

lemma context_of_fields [simp]: "iSize (context_of d) = 160" "nRate (context_of d) = 160"
  by (simp_all add: context_of_def)

interpretation agg: aggregate_function MakeAggregate "\<lambda>a r. Step a [r]" WindowValue agg_repr None
  add_row agg_answer
proof
  show "agg_repr MakeAggregate None" by (simp add: agg_repr_def MakeAggregate_def)
next
  fix a acc r j
  assume a: "agg_repr a acc" and r: "add_row acc r = Inr j"
  show "\<exists>a'. Step a [r] = Some (a', None) \<and> agg_repr a' j"
    using agghash_start_repr [OF a] r a
    by (cases r) (auto simp: Step_def add_row_def more_def HashUpdate_context_of agg_repr_def)
next
  fix a acc r e
  assume "agg_repr a acc" and "add_row acc r = Inl e"
  then show "\<exists>a'. Step a [r] = Some (a', Some e)"
    by (cases r) (auto simp: Step_def add_row_def)
next
  fix a acc
  assume "agg_repr a acc"
  then show "\<exists>a'. WindowValue a = Some (a', agg_answer acc) \<and> WindowValue a' = Some (a', agg_answer acc)"
  proof (cases acc)
    case None
    with \<open>agg_repr a acc\<close> show ?thesis
      by (simp add: agg_repr_def WindowValue_def agg_answer_def)
  next
    case (Some b)
    with \<open>agg_repr a acc\<close> have a: "started a" "\<not> is_done a" "HashFinal (cx a) =
        Some (context_of (b @ fips_pad (length b)), sponge b)"
      by (simp_all add: agg_repr_def HashFinal_context sponge_def)
        (simp_all add: context_of_def)
    with Some show ?thesis by (simp add: WindowValue_def agg_answer_def)
  qed
qed

section \<open>Properties\<close>

text \<open>
  What \<open>agghash(X)\<close> returns over the values \<open>X\<close> of the rows: NULL when every value is NULL, the
  digest of the concatenated values otherwise, an error at the first value that is neither.
\<close>

fun hashable :: "dvalue \<Rightarrow> bool" where
  "hashable (VOther t) = False"
| "hashable _ = True"

fun row_bytes :: "dvalue \<Rightarrow> bytes" where
  "row_bytes (VBytes v) = v"
| "row_bytes (VString v) = bytes_of v"
| "row_bytes _ = []"

definition agghash_spec :: "dvalue list \<Rightarrow> goerr + dvalue" where
  "agghash_spec rows =
     (case dropWhile hashable rows of
        VOther t # _ \<Rightarrow> Inl (unsupported ''agghash'' t)
      | _ \<Rightarrow> Inr (if list_all (\<lambda>r. r = VNil) rows then VNil
                 else VBytes (sponge (concat (map row_bytes rows)))))"

lemma total_hashable:
  "list_all hashable rows \<Longrightarrow>
     agg.total acc rows = Inr (if list_all (\<lambda>r. r = VNil) rows then acc
       else more acc (concat (map row_bytes rows)))"
proof (induction rows arbitrary: acc)
  case (Cons r rows)
  then show ?case
    by (cases r) (auto simp: more_def list_all_iff split: option.splits)
qed simp

lemma total_unhashable:
  "list_all hashable rows \<Longrightarrow> agg.total acc (rows @ VOther t # rest) =
     Inl (unsupported ''agghash'' t)"
proof (induction rows arbitrary: acc)
  case (Cons r rows)
  then show ?case by (cases r) auto
qed simp

lemma agg_eval_agghash:
  "agg_eval MakeAggregate (\<lambda>a r. Step a [r]) WindowValue rows = Some (agghash_spec rows)"
proof (cases "dropWhile hashable rows")
  case Nil
  then have h: "list_all hashable rows" by (simp add: list_all_iff)
  have m: "more None b = Some b" for b by (simp add: more_def)
  show ?thesis
    by (simp only: agg.evaluation total_hashable [OF h])
      (simp add: agghash_spec_def Nil agg_answer_def m)
next
  case (Cons r rest)
  then have "\<not> hashable r" by (metis list.sel(1) dropWhile_eq_Cons_conv)
  then obtain t where r: "r = VOther t" by (cases r) auto
  have h: "list_all hashable (takeWhile hashable rows)"
    by (auto simp: list_all_iff dest: set_takeWhileD)
  have "rows = takeWhile hashable rows @ VOther t # rest"
    using takeWhile_dropWhile_id [of hashable rows] Cons r by simp
  with total_unhashable [OF h, of None t rest] show ?thesis
    by (simp add: agg.evaluation agghash_spec_def Cons r)
qed

text \<open>
  C35 (the aggregate). Evaluated the way the driver does, agghash never panics: it is NULL when no row
  held a value, the digest of the concatenation of the BLOB and TEXT values otherwise, and the error
  of the first row of another type.
\<close>

theorem agghash_evaluation:
  "agg_eval MakeAggregate (\<lambda>a r. Step a [r]) WindowValue rows = Some (agghash_spec rows)"
  by (rule agg_eval_agghash)

text \<open>
  Idempotent registration. However often \<open>Register\<close> is called, the driver sees the registrations
  of the first call only, and every call returns the first call's error.
\<close>

theorem Register_idempotent:
  "(let (r1, e) = Register scalar aggregate r in
     ((\<lambda>r. fst (Register scalar aggregate r)) ^^ Suc n) r = r1 \<and>
     snd (Register scalar aggregate (((\<lambda>r. fst (Register scalar aggregate r)) ^^ Suc n) r)) = e)"
proof -
  let ?R = "\<lambda>r. fst (Register scalar aggregate r)"
  have ran: "once_ran (?R r)" for r
    by (simp add: Register_def Let_def split: prod.splits)
  have again: "Register scalar aggregate r = (r, registerErr r)" if "once_ran r" for r
    using that by (simp add: Register_def)
  have "(?R ^^ Suc n) r = ?R r" by (induction n) (simp_all add: again [OF ran])
  then show ?thesis
    using again [OF ran, of r] by (simp add: Register_def Let_def split: prod.splits)
qed

end
