(* ===== verification/KeccakEval.thy ===== *)
theory KeccakEval
  imports Hash
begin

text \<open>
  Evaluation of the permutation in the kernel. The round is split in stages that each rewrite a
  list of 25 evaluated lanes into another one (\<open>theta_c_list\<close> to \<open>chi_list\<close>), and a rotation of a
  numeral is arithmetic on the numeral (\<open>rol64_numeral\<close>), so that the simplifier computes digests.
  GoldenVectors compares them with the vectors of the reference implementation.
\<close>

section \<open>The round in stages\<close>

definition theta_c :: "u64 list \<Rightarrow> u64 list" where
  "theta_c s = map (\<lambda>x. s ! x XOR s ! (x + 5) XOR s ! (x + 10) XOR s ! (x + 15) XOR s ! (x + 20)) [0..<5]"

definition theta_d :: "u64 list \<Rightarrow> u64 list" where
  "theta_d c = map (\<lambda>x. c ! ((x + 4) mod 5) XOR rol64 (c ! ((x + 1) mod 5)) 1) [0..<5]"

definition theta_x :: "u64 list \<Rightarrow> u64 list \<Rightarrow> u64 list" where
  "theta_x s d = map (\<lambda>i. s ! i XOR d ! (i mod 5)) [0..<25]"

text \<open>The inverse of \<open>slot\<close>.\<close>

definition unslot :: "nat \<Rightarrow> nat" where
  "unslot i = (let x = i mod 5; r = i div 5 in 5 * ((3 * (r + 5 - x)) mod 5) + x)"

definition chi_place :: "u64 list \<Rightarrow> u64 list" where
  "chi_place s = map (\<lambda>i. chi s ! unslot i) [0..<25]"

lemma theta_d_list:
  "theta_d [c0, c1, c2, c3, c4] = [c4 XOR rol64 c1 1, c0 XOR rol64 c2 1, c1 XOR rol64 c3 1,
     c2 XOR rol64 c4 1, c3 XOR rol64 c0 1]"
  by (simp add: theta_d_def upt_5)

lemma theta_c_list:
  "theta_c [a0, a1, a2, a3, a4, a5, a6, a7, a8, a9, a10, a11, a12, a13, a14, a15,
     a16, a17, a18, a19, a20, a21, a22, a23, a24] =
    [a0 XOR a5 XOR a10 XOR a15 XOR a20, a1 XOR a6 XOR a11 XOR a16 XOR a21,
     a2 XOR a7 XOR a12 XOR a17 XOR a22, a3 XOR a8 XOR a13 XOR a18 XOR a23,
     a4 XOR a9 XOR a14 XOR a19 XOR a24]"
  by (simp add: theta_c_def upt_5)

lemma theta_x_list:
  "theta_x [a0, a1, a2, a3, a4, a5, a6, a7, a8, a9, a10, a11, a12, a13, a14, a15,
     a16, a17, a18, a19, a20, a21, a22, a23, a24] [d0, d1, d2, d3, d4] =
    [a0 XOR d0, a1 XOR d1, a2 XOR d2, a3 XOR d3, a4 XOR d4, a5 XOR d0,
     a6 XOR d1, a7 XOR d2, a8 XOR d3, a9 XOR d4, a10 XOR d0, a11 XOR d1,
     a12 XOR d2, a13 XOR d3, a14 XOR d4, a15 XOR d0, a16 XOR d1,
     a17 XOR d2, a18 XOR d3, a19 XOR d4, a20 XOR d0, a21 XOR d1,
     a22 XOR d2, a23 XOR d3, a24 XOR d4]"
  by (simp add: theta_x_def upt_25)

lemma rho_pi_list:
  "keccak_pi (rho [a0, a1, a2, a3, a4, a5, a6, a7, a8, a9, a10, a11, a12, a13, a14, a15,
     a16, a17, a18, a19, a20, a21, a22, a23, a24]) =
    [a0, rol64 a6 44, rol64 a12 43, rol64 a18 21, rol64 a24 14,
     rol64 a3 28, rol64 a9 20, rol64 a10 3, rol64 a16 45, rol64 a22 61,
     rol64 a1 1, rol64 a7 6, rol64 a13 25, rol64 a19 8, rol64 a20 18,
     rol64 a4 27, rol64 a5 36, rol64 a11 10, rol64 a17 15, rol64 a23 56,
     rol64 a2 62, rol64 a8 55, rol64 a14 39, rol64 a15 41, rol64 a21 2]"
  by (simp add: keccak_pi_def pi_src_def rho_def rho_offsets_def upt_25)

lemma chi_list:
  "chi_place [a0, a1, a2, a3, a4, a5, a6, a7, a8, a9, a10, a11, a12, a13, a14, a15,
     a16, a17, a18, a19, a20, a21, a22, a23, a24] =
    [a0 XOR (NOT a1 AND a2), a11 XOR (NOT a12 AND a13),
     a22 XOR (NOT a23 AND a24), a8 XOR (NOT a9 AND a5),
     a19 XOR (NOT a15 AND a16), a15 XOR (NOT a16 AND a17),
     a1 XOR (NOT a2 AND a3), a12 XOR (NOT a13 AND a14),
     a23 XOR (NOT a24 AND a20), a9 XOR (NOT a5 AND a6),
     a5 XOR (NOT a6 AND a7), a16 XOR (NOT a17 AND a18),
     a2 XOR (NOT a3 AND a4), a13 XOR (NOT a14 AND a10),
     a24 XOR (NOT a20 AND a21), a20 XOR (NOT a21 AND a22),
     a6 XOR (NOT a7 AND a8), a17 XOR (NOT a18 AND a19),
     a3 XOR (NOT a4 AND a0), a14 XOR (NOT a10 AND a11),
     a10 XOR (NOT a11 AND a12), a21 XOR (NOT a22 AND a23),
     a7 XOR (NOT a8 AND a9), a18 XOR (NOT a19 AND a15),
     a4 XOR (NOT a0 AND a1)]"
  by (simp add: chi_place_def chi_def unslot_def upt_25)

lemma slot_unslot: "i < 25 \<Longrightarrow> slot (unslot i) = i \<and> unslot i < 25"
proof -
  assume "i < 25"
  then have "i \<in> set [0..<25]" by simp
  then show ?thesis unfolding upt_25 by (auto simp: slot_def unslot_def)
qed

lemma keccak_round_stages:
  assumes "length s = 25"
  shows "keccak_round r s =
    iota r (chi_place (keccak_pi (rho (theta_x s (theta_d (theta_c s))))))"
proof -
  let ?t = "keccak_pi (rho (theta_x s (theta_d (theta_c s))))"
  have f: "fips_round r s = iota r (chi ?t)"
    by (simp add: fips_round_def theta_def theta_c_def theta_d_def theta_x_def)
  have c: "length (chi ?t) = 25" by (simp add: chi_def)
  have "keccak_round r s = map (\<lambda>i. fips_round r s ! unslot i) [0..<25]"
  proof (rule nth_equalityI)
    fix i assume "i < length (keccak_round r s)"
    then show "keccak_round r s ! i = map (\<lambda>i. fips_round r s ! unslot i) [0..<25] ! i"
      by (simp add: keccak_round_fips [OF assms, symmetric] slot_unslot)
  qed simp
  also have "\<dots> = iota r (chi_place ?t)"
  proof (rule nth_equalityI)
    fix i assume "i < length (map (\<lambda>i. fips_round r s ! unslot i) [0..<25])"
    then have i: "i < 25" by simp
    have "unslot i = 0 \<longleftrightarrow> i = 0"
      using slot_unslot [OF i] by (auto simp: slot_def unslot_def)
    with i slot_unslot [OF i] c
    show "map (\<lambda>i. fips_round r s ! unslot i) [0..<25] ! i = iota r (chi_place ?t) ! i"
      by (auto simp: f iota_def chi_place_def nth_list_update)
  qed (simp add: iota_def chi_place_def)
  finally show ?thesis .
qed

lemma rol64_int:
  assumes "0 < n" "n < 64"
  shows "rol64 (word_of_int v) n =
    word_of_int (v mod 2 ^ (64 - n) * 2 ^ n + (v mod 2 ^ 64) div 2 ^ (64 - n))"
proof -
  have t: "take_bit (64 - n) v = v mod 2 ^ (64 - n)" by (simp add: take_bit_eq_mod)
  have d: "drop_bit (64 - n) (take_bit 64 v) = (v mod 2 ^ 64) div 2 ^ (64 - n)"
    by (simp add: take_bit_eq_mod drop_bit_eq_div)
  have "rol64 (word_of_int v) n = word_of_int (push_bit n (take_bit (64 - n) v) OR drop_bit (64 - n) (take_bit 64 v))"
    using assms by (auto intro!: bit_word_eqI simp: rol64_def bit_simps)
  also have "push_bit n (take_bit (64 - n) v) OR drop_bit (64 - n) (take_bit 64 v) =
     push_bit n (take_bit (64 - n) v) + drop_bit (64 - n) (take_bit 64 v)"
    using assms by (intro disjunctive_add [symmetric]) (auto simp: bit_simps)
  finally show ?thesis by (simp add: t d push_bit_eq_mult)
qed

lemma rol64_numeral:
  "0 < n \<Longrightarrow> n < 64 \<Longrightarrow> rol64 (numeral v) n =
     word_of_int (numeral v mod 2 ^ (64 - n) * 2 ^ n + (numeral v mod 2 ^ 64) div 2 ^ (64 - n))"
  using rol64_int [of n "numeral v"] by simp

lemma rol64_0 [simp]: "rol64 0 n = 0"
  by (simp add: rol64_def)

lemma rol64_1: "0 < n \<Longrightarrow> n < 64 \<Longrightarrow> rol64 1 n = word_of_int (2 ^ n)"
  using rol64_int [of n 1] by (simp add: one_mod_2_pow_eq)

section \<open>Digests\<close>

lemmas keccak_eval = keccak_round_stages theta_c_list theta_d_list theta_x_list rho_pi_list chi_list
  rol64_numeral rol64_1 iota_def

lemma keccakF1600Step_eval:
  "keccakF1600Step s = keccak_round 0x80000001 (keccak_round 0x808b (keccak_round 0x8000000080008000
     (keccak_round 0x800000000000808a (keccak_round 0x8082 (keccak_round 1 s)))))"
  by (simp add: keccakF1600Step_def rc_def numeral_eq_Suc)

lemma squeeze_eval:
  "squeeze [a0, a1, a2, a3, a4, a5, a6, a7, a8, a9, a10, a11, a12, a13, a14, a15,
     a16, a17, a18, a19, a20, a21, a22, a23, a24] =
   map ucast [a0, drop_bit 8 a0, drop_bit 16 a0, drop_bit 24 a0, drop_bit 32 a0, drop_bit 40 a0,
     drop_bit 48 a0, drop_bit 56 a0, a1, drop_bit 8 a1, drop_bit 16 a1, drop_bit 24 a1,
     drop_bit 32 a1, drop_bit 40 a1, drop_bit 48 a1, drop_bit 56 a1,
     a2, drop_bit 8 a2, drop_bit 16 a2, drop_bit 24 a2]"
  by (simp add: squeeze_def upt_rec)

text \<open>A message that fits one block with its padding.\<close>

lemma sponge_short:
  assumes "length d < 159"
  shows "sponge d = squeeze (keccakF1600Step
    ((xor_block (replicate 25 0) (d @ [6]))[19 :=
       xor_block (replicate 25 0) (d @ [6]) ! 19 XOR 0x8000000000000000]))"
proof -
  let ?d = "d @ [6]"
  let ?z = "replicate (158 - length d) 0"
  have "d @ fips_pad (length d) = (?d @ ?z) @ [0x80]"
    using assms by (simp add: fips_pad_def Let_def)
  moreover have "length (?d @ ?z) mod 160 = 159" using assms by simp
  moreover have "absorb s (?d @ ?z) = xor_block s ?d" for s
    using assms by (subst absorb_zeros) (simp_all add: absorb.simps [of s ?d])
  ultimately show ?thesis
    unfolding sponge_def
    by (simp only: absorb_snoc) (simp add: Let_def add_byte_def)
qed

lemma xor_block_zeros:
  "xor_block (replicate 25 0) b = map (lane_of b) [0..<25]"
  by (simp add: xor_block_def)

lemma lane_of_4:
  "lane_of [a, b, c, d] j =
   (if j = 0 then ucast a XOR push_bit 8 (ucast b) XOR push_bit 16 (ucast c) XOR push_bit 24 (ucast d)
    else 0)"
  by (cases j) (simp_all add: lane_of_def le_lane_def upt_rec xor.assoc)

lemma lane_of_1: "lane_of [a] j = (if j = 0 then ucast a else 0)"
  by (cases j) (simp_all add: lane_of_def le_lane_def upt_rec xor.assoc)

lemmas digest_eval = hash160_sponge sponge_short xor_block_zeros upt_25 lane_of_1 lane_of_4
  keccakF1600Step_eval keccak_eval squeeze_eval

text \<open>Two pages of 32 bytes whose digests differ in their first byte.\<close>

lemma lane_of_page:
  "map (lane_of (a # replicate 31 0 @ [6])) [0..<25] =
     [ucast a, 0, 0, 0, 6, 0, 0, 0, 0, 0, 0, 0, 0, 0, 0, 0, 0, 0, 0, 0, 0, 0, 0, 0, 0]"
proof -
  have p: "a # replicate 31 0 @ [6] = [a, 0, 0, 0, 0, 0, 0, 0, 0, 0, 0, 0, 0, 0, 0, 0, 0, 0, 0, 0, 0, 0, 0, 0, 0, 0,
      0, 0, 0, 0, 0, 0, 6 :: byte]" by (simp add: numeral_eq_Suc)
  show ?thesis unfolding p upt_25 by (simp add: lane_of_def le_lane_def upt_rec)
qed

lemma sponge_page:
  "sponge (a # replicate 31 0) = squeeze (keccakF1600Step
     [ucast a, 0, 0, 0, 6, 0, 0, 0, 0, 0, 0, 0, 0, 0, 0, 0, 0, 0, 0, 0x8000000000000000, 0, 0, 0, 0, 0])"
  by (subst sponge_short) (simp_all add: xor_block_zeros lane_of_page)

lemma digest_page_1: "hd (sponge (1 # replicate 31 0)) = 54"
  unfolding sponge_page by (simp add: keccakF1600Step_eval keccak_eval squeeze_eval)

lemma digest_page_2: "hd (sponge (2 # replicate 31 0)) = 215"
  unfolding sponge_page by (simp add: keccakF1600Step_eval keccak_eval squeeze_eval)

end
