(* ===== verification/HashProps.thy ===== *)
theory HashProps
  imports KeccakEval
begin

text \<open>
  The properties of the hash engine against its reference definitions: the permutation in terms of the
  step mappings of FIPS 202, and the incremental interface in terms of the sponge.
\<close>

section \<open>The permutation\<close>

text \<open>Store the lanes of a state where the engine's round leaves them.\<close>

definition scatter :: "u64 list \<Rightarrow> u64 list" where
  "scatter t = map (\<lambda>j. t ! unslot j) [0..<25]"

definition mixing :: "u64 list \<Rightarrow> u64 list" where
  "mixing s = foldl (\<lambda>a i. scatter (fips_round (rc ! i) a)) s [0..<6]"

lemma keccak_round_scatter:
  assumes "length s = 25"
  shows "keccak_round r s = scatter (fips_round r s)"
proof (rule nth_equalityI)
  fix j assume "j < length (keccak_round r s)"
  then have j: "slot (unslot j) = j" "unslot j < 25" using slot_unslot by simp_all
  have "fips_round r s ! unslot j = map (\<lambda>i. keccak_round r s ! slot i) [0..<25] ! unslot j"
    by (simp only: keccak_round_fips [OF assms])
  then show "keccak_round r s ! j = scatter (fips_round r s) ! j"
    using j \<open>j < length (keccak_round r s)\<close> by (simp add: scatter_def)
qed (simp add: scatter_def)

lemma length_scatter [simp]: "length (scatter t) = 25"
  by (simp add: scatter_def)

lemma keccak_rounds_mixing:
  "length s = 25 \<Longrightarrow> foldl (\<lambda>a i. keccak_round (rc ! i) a) s is = foldl (\<lambda>a i. scatter (fips_round (rc ! i) a)) s is"
  by (induction "is" arbitrary: s) (simp_all add: keccak_round_scatter)

text \<open>
  C32 (the permutation). \<open>keccakF1600Step\<close> is six times the round of FIPS 202 (theta, rho, pi, chi, iota, with
  the first six round constants), each round followed by storing lane (x, y) at (x, x + 2y).
\<close>

theorem keccak_is_mixing:
  assumes "length s = 25"
  shows "keccakF1600Step s = mixing s"
  using keccak_rounds_mixing [OF assms] by (simp only: keccakF1600Step_def mixing_def)

theorem keccak_is_mixing_witness: "keccakF1600Step (replicate 25 1) = mixing (replicate 25 1)"
  by (rule keccak_is_mixing) simp

section \<open>The interface\<close>

text \<open>\<open>HashInit(160)\<close>, one \<open>HashUpdate\<close> per piece, \<open>HashFinal\<close>; \<open>None\<close> is a panic.\<close>

definition hash_pieces :: "bytes list \<Rightarrow> bytes option" where
  "hash_pieces ps =
     (case foldl (\<lambda>h p. Option.bind h (\<lambda>cx. HashUpdate cx p)) (Some (HashInit 160)) ps of
        None \<Rightarrow> None
      | Some cx \<Rightarrow> map_option snd (HashFinal cx))"

lemma HashUpdate_pieces:
  "foldl (\<lambda>h p. Option.bind h (\<lambda>cx. HashUpdate cx p)) h ps = Option.bind h (\<lambda>cx. HashUpdate cx (concat ps))"
proof (induction ps arbitrary: h)
  case Nil
  show ?case by (cases h) simp_all
next
  case (Cons p ps)
  show ?case by (cases h) (simp_all add: Cons HashUpdate_append)
qed

text \<open>
  C31 (streaming). However an input is cut into the pieces given to \<open>HashUpdate\<close>, the engine indexes no lane
  out of range and its digest is the one the sponge (rate 160 bytes, FIPS padding 0x06 ... 0x80, first 20
  bytes squeezed) assigns to the whole input.
\<close>

theorem hash_streaming: "hash_pieces ps = Some (sponge (concat ps))"
  using hash160_sponge [of "concat ps"] unfolding hash_pieces_def hash160_def HashUpdate_pieces by simp

end
