(* ===== verification/GoldenVectors.thy ===== *)
theory GoldenVectors
  imports KeccakEval
begin

text \<open>
  Golden vectors of testdata/hash_golden_vectors.json, recomputed from the definitions in the kernel: of
  the inputs of testdata/generate-hash-golden-vectors.go those that take each branch of \<open>HashUpdate\<close> and
  \<open>HashFinal\<close>, up to a full block.
\<close>

section \<open>Inputs of a full block\<close>

lemma absorb_block: "length b = 160 \<Longrightarrow> absorb s (b @ m) = absorb (keccakF1600Step (xor_block s b)) m"
  by (simp add: absorb.simps [of s "b @ m"])

lemma absorb_Nil: "length s = 25 \<Longrightarrow> absorb s [] = s"
  by (auto simp: absorb.simps [of s "[]"] xor_block_def lane_of_def le_lane_def intro!: nth_equalityI)

lemma length_keccak: "length (keccakF1600Step (xor_block s b)) = 25"
  by (simp add: keccakF1600Step_eval keccak_round_stages iota_def chi_place_def)

text \<open>The padding byte 0x86 completes the block; after a full block the padding is a block of its own.\<close>

lemma sponge_159:
  "length d = 159 \<Longrightarrow> sponge d = squeeze (keccakF1600Step (xor_block (replicate 25 0) (d @ [0x86])))"
  using absorb_block [of "d @ [0x86]" "replicate 25 0" "[]"]
  by (simp add: sponge_def fips_pad_def absorb_Nil length_keccak)

lemma sponge_160:
  assumes "length d = 160"
  shows "sponge d = squeeze (keccakF1600Step (xor_block (keccakF1600Step (xor_block (replicate 25 0) d))
    (6 # replicate 158 0 @ [0x80])))"
  using absorb_block [OF assms, of "replicate 25 0"] absorb_block [of "6 # replicate 158 0 @ [0x80]" _ "[]"] assms
  by (simp add: sponge_def fips_pad_def absorb_Nil length_keccak)

lemma lane_8:
  "le_lane [a, b, c, d, e, f, g, h] = ucast a XOR push_bit 8 (ucast b) XOR push_bit 16 (ucast c) XOR
     push_bit 24 (ucast d) XOR push_bit 32 (ucast e) XOR push_bit 40 (ucast f) XOR push_bit 48 (ucast g) XOR
     push_bit 56 (ucast h)"
  by (simp add: le_lane_def upt_rec xor.assoc)

lemma replicate_8: "replicate 8 x = [x, x, x, x, x, x, x, x]" "replicate 7 x = [x, x, x, x, x, x, x]"
  by (simp_all add: numeral_eq_Suc)

lemma lanes_of_a:
  "le_lane (replicate 8 0x61) = 0x6161616161616161" "le_lane (replicate 7 0x61 @ [0x86]) = 0x8661616161616161"
  "le_lane [] = 0"
  unfolding replicate_8 append.simps lane_8 by (simp_all add: le_lane_def)

lemma lanes_159:
  "xor_block (replicate 25 0) (replicate 159 0x61 @ [0x86]) =
     replicate 19 0x6161616161616161 @ 0x8661616161616161 # replicate 5 0"
proof (rule nth_equalityI)
  fix j assume "j < length (xor_block (replicate 25 0) (replicate 159 0x61 @ [0x86 :: byte]))"
  then have j: "j < 25" by simp
  consider "j < 19" | "j = 19" | "19 < j" by linarith
  then have "lane_of (replicate 159 0x61 @ [0x86]) j = (replicate 19 0x6161616161616161 @ 0x8661616161616161 # replicate 5 0) ! j"
  proof cases
    case 1
    then have "take 8 (drop (8 * j) (replicate 159 0x61 @ [0x86])) = replicate 8 (0x61 :: byte)"
      by (simp add: min_def)
    with 1 show ?thesis by (simp add: lane_of_def lanes_of_a nth_append)
  next
    case 2
    have "take 8 (drop 152 (replicate 159 0x61 @ [0x86])) = replicate 7 (0x61 :: byte) @ [0x86]"
      by simp
    with 2 show ?thesis by (simp add: lane_of_def lanes_of_a nth_append)
  next
    case 3
    with j show ?thesis by (simp add: lane_of_def lanes_of_a nth_append nth_Cons')
  qed
  with j show "xor_block (replicate 25 0) (replicate 159 0x61 @ [0x86]) ! j =
      (replicate 19 0x6161616161616161 @ 0x8661616161616161 # replicate 5 0) ! j"
    by (simp add: xor_block_def)
qed simp

lemma lanes_160:
  "xor_block (replicate 25 0) (replicate 160 0x61) = replicate 20 0x6161616161616161 @ replicate 5 0"
proof (rule nth_equalityI)
  fix j assume "j < length (xor_block (replicate 25 0) (replicate 160 (0x61 :: byte)))"
  then have j: "j < 25" by simp
  have "lane_of (replicate 160 0x61) j = (replicate 20 0x6161616161616161 @ replicate 5 0) ! j"
    using j by (cases "j < 20") (simp_all add: lane_of_def lanes_of_a nth_append min_def)
  with j show "xor_block (replicate 25 0) (replicate 160 0x61) ! j = (replicate 20 0x6161616161616161 @ replicate 5 0) ! j"
    by (simp add: xor_block_def)
qed simp

text \<open>A block of padding alone.\<close>

lemma lane_of_padding:
  assumes "j < 25"
  shows "lane_of (6 # replicate 158 0 @ [0x80]) j = (if j = 0 then 6 else if j = 19 then 0x8000000000000000 else 0)"
proof -
  have z: "le_lane (replicate 8 0) = 0" "le_lane (6 # replicate 7 0) = 6" "le_lane (replicate 7 0 @ [0x80]) = 0x8000000000000000"
    unfolding replicate_8 append.simps lane_8 by simp_all
  consider "j = 0" | "0 < j" "j < 19" | "j = 19" | "19 < j" by linarith
  then show ?thesis
  proof cases
    case 2
    then have "take 8 (drop (8 * j) (6 # replicate 158 0 @ [0x80])) = replicate 8 (0 :: byte)"
      by (simp add: drop_Cons' min_def)
    with 2 show ?thesis by (simp add: lane_of_def z)
  qed (use assms z in \<open>simp_all add: lane_of_def take_Cons' drop_Cons' lanes_of_a(3)\<close>)
qed

lemma add_padding:
  "xor_block [a0, a1, a2, a3, a4, a5, a6, a7, a8, a9, a10, a11, a12, a13, a14, a15, a16, a17, a18, a19, a20, a21, a22, a23, a24] (6 # replicate 158 0 @ [0x80]) =
    [a0 XOR 6, a1, a2, a3, a4, a5, a6, a7, a8, a9, a10, a11, a12, a13, a14, a15, a16, a17, a18, a19 XOR 0x8000000000000000, a20, a21, a22, a23, a24]"
  unfolding xor_block_def upt_25 by (simp add: lane_of_padding)

section \<open>The vectors\<close>

lemma replicate_lanes: "replicate 19 x = [x, x, x, x, x, x, x, x, x, x, x, x, x, x, x, x, x, x, x]"
  "replicate 20 x = [x, x, x, x, x, x, x, x, x, x, x, x, x, x, x, x, x, x, x, x]" "replicate 5 x = [x, x, x, x, x]"
  by (simp_all add: numeral_eq_Suc)

lemma digest_159: "sponge (replicate 159 0x61) = [0x9a, 0x9f, 0xf9, 0x3c, 0xa6, 0x91, 0x92, 0xea, 0x6e, 0xaf, 0x4a, 0xd4, 0x74, 0x5e, 0x62, 0xb8, 0xf9, 0xf7, 0xd9, 0x4f]"
  unfolding sponge_159 [OF length_replicate] lanes_159 replicate_lanes append.simps
  by (simp add: keccakF1600Step_eval keccak_eval squeeze_eval)

lemma digest_160: "sponge (replicate 160 0x61) = [0xa9, 0xde, 0x04, 0xc3, 0x42, 0x11, 0xf8, 0x4e, 0x74, 0xff, 0x12, 0x71, 0x8d, 0x7a, 0xaa, 0x38, 0xe7, 0x7c, 0x6b, 0x01]"
  unfolding sponge_160 [OF length_replicate] lanes_160 replicate_lanes append.simps
  by (simp add: keccakF1600Step_eval keccak_eval squeeze_eval add_padding)

lemma digests_short: "sponge [] = [0x52, 0x9a, 0x7c, 0xd1, 0xae, 0x4d, 0xda, 0xca, 0x9c, 0x6e,
     0x82, 0xe8, 0x61, 0x4a, 0x92, 0xc7, 0x7b, 0x78, 0x66, 0xf3]"
  "sponge [0x61, 0x62, 0x63] = [0x48, 0x17, 0xbb, 0xcb, 0x6c, 0x37, 0xe2, 0x12, 0xa2, 0x98,
     0xc8, 0x1e, 0xa7, 0xd7, 0x17, 0x7f, 0xb6, 0xa2, 0x92, 0x9e]"
  by (simp_all add: digest_eval)

text \<open>
  C40 (golden vectors). The digests of the empty input, of "abc", of 159 letters a (one byte short of a
  block, the padding byte 0x86) and of 160 (a full block, the padding in the next) are those of
  testdata/hash_golden_vectors.json, computed by the reference C implementation.
\<close>

theorem hash160_golden:
  "hash160 [] = Some [0x52, 0x9a, 0x7c, 0xd1, 0xae, 0x4d, 0xda, 0xca, 0x9c, 0x6e,
     0x82, 0xe8, 0x61, 0x4a, 0x92, 0xc7, 0x7b, 0x78, 0x66, 0xf3] \<and>
   hash160 (bytes_of ''abc'') = Some [0x48, 0x17, 0xbb, 0xcb, 0x6c, 0x37, 0xe2, 0x12, 0xa2, 0x98,
     0xc8, 0x1e, 0xa7, 0xd7, 0x17, 0x7f, 0xb6, 0xa2, 0x92, 0x9e] \<and>
   hash160 (replicate 159 0x61) = Some [0x9a, 0x9f, 0xf9, 0x3c, 0xa6, 0x91, 0x92, 0xea, 0x6e, 0xaf,
     0x4a, 0xd4, 0x74, 0x5e, 0x62, 0xb8, 0xf9, 0xf7, 0xd9, 0x4f] \<and>
   hash160 (replicate 160 0x61) = Some [0xa9, 0xde, 0x04, 0xc3, 0x42, 0x11, 0xf8, 0x4e, 0x74, 0xff,
     0x12, 0x71, 0x8d, 0x7a, 0xaa, 0x38, 0xe7, 0x7c, 0x6b, 0x01]"
proof -
  have abc: "bytes_of ''abc'' = [0x61, 0x62, 0x63]" by (simp add: bytes_of_def of_char_def)
  show ?thesis unfolding hash160_sponge abc digests_short digest_159 digest_160 by blast
qed

end
