(* ===== verification/Sql.thy ===== *)
theory Sql
  imports Wire HashSql
begin

text \<open>
  The run state and the boundary to the database. \<open>rsync\<close> is the struct of sqlitersync/sql.go; to its
  fields are added what its pointers lead to (the state of the world behind the connection, which
  Rows object holds the connection, which statements are closed) and the stack of deferred calls
  of the role function. SQLite, its driver and the file system are not in the repository: they are
  the parameter \<open>env\<close>, functions from SQL text and bound values to replies. What Go's database/sql
  does around them is modelled: a nil \<open>*sql.DB\<close> panics, a connection pool of one blocks while a
  \<open>Rows\<close> is open, \<open>Row.Scan\<close> takes the first row and closes, \<open>Close\<close> may be repeated, and values
  are converted as \<open>Scan\<close> does.
\<close>

section \<open>The environment\<close>

text \<open>A column value or a bound value. \<open>SReal\<close> carries the text Go prints for the number.\<close>

datatype sqlval = SNull | SInt int | SReal string | SText string | SBlob bytes

text \<open>
  The rows a query yields, and what \<open>rows.Err()\<close> reports once they are exhausted. The rows are
  stepped lazily in Go; nothing else uses the connection meanwhile.
\<close>

record rowset =
  rs_rows :: "sqlval list list"
  rs_err :: "goerr option"

text \<open>
  The functions outside the repository: the driver's registration of SQL functions, \<open>os.Stat\<close>,
  \<open>sql.Open\<close>, and the calls on a connection; \<open>fmt_q\<close> is the quoting of \<open>fmt\<close>'s \<open>%q\<close>, and \<open>scan_error\<close>
  the error of a failed conversion of the value in a column to a type.
\<close>

record 'w env =
  e_scalar :: "'w \<Rightarrow> string \<Rightarrow> nat \<Rightarrow> 'w \<times> goerr option"
  e_aggregate :: "'w \<Rightarrow> string \<Rightarrow> nat \<Rightarrow> bool \<Rightarrow> 'w \<times> goerr option"
  e_stat :: "'w \<Rightarrow> string \<Rightarrow> 'w \<times> goerr option"
  e_open :: "'w \<Rightarrow> string \<Rightarrow> 'w \<times> goerr option"
  e_close :: "'w \<Rightarrow> 'w \<times> goerr option"
  e_exec :: "'w \<Rightarrow> string \<Rightarrow> sqlval list \<Rightarrow> 'w \<times> goerr option"
  e_query :: "'w \<Rightarrow> string \<Rightarrow> sqlval list \<Rightarrow> 'w \<times> (goerr + rowset)"
  e_rows_close :: "'w \<Rightarrow> 'w \<times> goerr option"
  e_prepare :: "'w \<Rightarrow> string \<Rightarrow> 'w \<times> goerr option"
  e_stmt_close :: "'w \<Rightarrow> string \<Rightarrow> 'w \<times> goerr option"
  fmt_q :: "string \<Rightarrow> string"
  scan_error :: "nat \<Rightarrow> sqlval \<Rightarrow> string \<Rightarrow> goerr"

section \<open>The run state\<close>

text \<open>A prepared statement: its identity and its SQL.\<close>

datatype stmt = Stmt nat string

text \<open>
  A deferred call of a role function: closing the connection, a statement, a \<open>Rows\<close>, or whatever the
  variable \<open>pIns\<close> then holds.
\<close>

datatype deferral = CloseDb | CloseStmt stmt | CloseRows nat | ClosePIns

record 'w rsync =
  db :: bool
  rs_r :: Reader
  rs_w :: Writer
  originPath :: string
  replicaPath :: string
  protocol :: int
  pageSize :: int
  pageCount :: u32
  hashMessages :: u64
  hashRounds :: u32
  pageUpdates :: u32
  walOnly :: bool
  commCheck :: bool
  isReplica :: bool
  wrongEnc :: bool
  world :: 'w
  registerOnce :: bool
  registerResult :: "goerr option"
  openRows :: "nat option"
  nextId :: nat
  closedStmts :: "nat list"
  defers :: "deferral list"

section \<open>Calls on the connection\<close>

definition nilPointer :: string where
  "nilPointer = ''invalid memory address or nil pointer dereference''"

definition poolDeadlock :: string where
  "poolDeadlock = ''all goroutines are asleep - deadlock!''"

text \<open>
  A call on \<open>s.db\<close>: it needs the pool's only connection (\<open>SetMaxOpenConns(1)\<close>), so it would wait
  forever while a \<open>Rows\<close> of the same run is open.
\<close>

definition on_db :: "('w \<Rightarrow> 'w \<times> 'a) \<Rightarrow> (('w, 'x) rsync_scheme, 'a) gom" where
  "on_db f s =
     (if \<not> db s then (Panic nilPointer, s)
      else if openRows s \<noteq> None then (Panic poolDeadlock, s)
      else case f (world s) of (w, a) \<Rightarrow> (Val a, s\<lparr>world := w\<rparr>))"

definition db_Exec :: "'w env \<Rightarrow> string \<Rightarrow> sqlval list \<Rightarrow> (('w, 'x) rsync_scheme, goerr option) gom" where
  "db_Exec E sql args = on_db (\<lambda>w. e_exec E w sql args)"

definition db_Query ::
  "'w env \<Rightarrow> string \<Rightarrow> sqlval list \<Rightarrow> (('w, 'x) rsync_scheme, goerr + (nat \<times> rowset)) gom" where
  "db_Query E sql args =
     seq (on_db (\<lambda>w. e_query E w sql args)) (\<lambda>x.
       case x of
         Inl e \<Rightarrow> ret (Inl e)
       | Inr rs \<Rightarrow>
           (\<lambda>s. (Val (Inr (nextId s, rs)), s\<lparr>openRows := Some (nextId s), nextId := Suc (nextId s)\<rparr>)))"

text \<open>\<open>rows.Close()\<close>; a \<open>Rows\<close> that is exhausted or closed already returns nil.\<close>

definition rows_Close :: "'w env \<Rightarrow> nat \<Rightarrow> (('w, 'x) rsync_scheme, goerr option) gom" where
  "rows_Close E i s =
     (if openRows s = Some i then
        case e_rows_close E (world s) of (w, e) \<Rightarrow> (Val e, s\<lparr>world := w, openRows := None\<rparr>)
      else (Val None, s))"

text \<open>\<open>for rows.Next() { body }\<close>: the last call of \<open>Next\<close> closes the \<open>Rows\<close>.\<close>

definition rows_loop ::
  "nat \<times> rowset \<Rightarrow> (sqlval list \<Rightarrow> (('w, 'x) rsync_scheme, unit) gom) \<Rightarrow>
   (('w, 'x) rsync_scheme, goerr option) gom" where
  "rows_loop r body =
     seq (foreach body (rs_rows (snd r))) (\<lambda>_.
     seq (modify (\<lambda>s. s\<lparr>openRows := None\<rparr>)) (\<lambda>_.
     ret (rs_err (snd r))))"

definition ErrNoRows :: goerr where
  "ErrNoRows = ErrText ''sql: no rows in result set''"

text \<open>\<open>s.db.QueryRow(sql, args...).Scan(...)\<close> for a conversion \<open>scan\<close> of the row.\<close>

definition db_QueryRow ::
  "'w env \<Rightarrow> string \<Rightarrow> sqlval list \<Rightarrow> (sqlval list \<Rightarrow> goerr + 'a) \<Rightarrow>
   (('w, 'x) rsync_scheme, goerr + 'a) gom" where
  "db_QueryRow E sql args scan =
     seq (db_Query E sql args) (\<lambda>x.
       case x of
         Inl e \<Rightarrow> ret (Inl e)
       | Inr (i, rs) \<Rightarrow>
           (case rs_rows rs of
              [] \<Rightarrow>
                seq (modify (\<lambda>s. s\<lparr>openRows := None\<rparr>)) (\<lambda>_.
                ret (Inl (case rs_err rs of None \<Rightarrow> ErrNoRows | Some e \<Rightarrow> e)))
            | row # _ \<Rightarrow>
                seq (rows_Close E i) (\<lambda>closeErr.
                ret (case scan row of
                       Inl e \<Rightarrow> Inl e
                     | Inr v \<Rightarrow> (case closeErr of None \<Rightarrow> Inr v | Some e \<Rightarrow> Inl e)))))"

definition db_Prepare :: "'w env \<Rightarrow> string \<Rightarrow> (('w, 'x) rsync_scheme, goerr + stmt) gom" where
  "db_Prepare E sql =
     seq (on_db (\<lambda>w. e_prepare E w sql)) (\<lambda>e.
       case e of
         Some e \<Rightarrow> ret (Inl e)
       | None \<Rightarrow> (\<lambda>s. (Val (Inr (Stmt (nextId s) sql)), s\<lparr>nextId := Suc (nextId s)\<rparr>)))"

fun stmt_Close :: "'w env \<Rightarrow> stmt \<Rightarrow> (('w, 'x) rsync_scheme, goerr option) gom" where
  "stmt_Close E (Stmt i sql) s =
     (if i \<in> set (closedStmts s) then (Val None, s)
      else case e_stmt_close E (world s) sql of
        (w, e) \<Rightarrow> (Val e, s\<lparr>world := w, closedStmts := i # closedStmts s\<rparr>))"

text \<open>The calls on a statement variable, which may be nil.\<close>

definition stmt_Exec ::
  "'w env \<Rightarrow> stmt option \<Rightarrow> sqlval list \<Rightarrow> (('w, 'x) rsync_scheme, goerr option) gom" where
  "stmt_Exec E v args =
     (case v of None \<Rightarrow> panic nilPointer | Some (Stmt i sql) \<Rightarrow> db_Exec E sql args)"

definition stmt_Query ::
  "'w env \<Rightarrow> stmt option \<Rightarrow> sqlval list \<Rightarrow> (('w, 'x) rsync_scheme, goerr + (nat \<times> rowset)) gom" where
  "stmt_Query E v args =
     (case v of None \<Rightarrow> panic nilPointer | Some (Stmt i sql) \<Rightarrow> db_Query E sql args)"

definition stmt_QueryRow ::
  "'w env \<Rightarrow> stmt option \<Rightarrow> sqlval list \<Rightarrow> (sqlval list \<Rightarrow> goerr + 'a) \<Rightarrow>
   (('w, 'x) rsync_scheme, goerr + 'a) gom" where
  "stmt_QueryRow E v args scan =
     (case v of None \<Rightarrow> panic nilPointer | Some (Stmt i sql) \<Rightarrow> db_QueryRow E sql args scan)"

section \<open>Scan\<close>

text \<open>Decimal text as \<open>strconv.ParseInt\<close> and \<open>ParseUint\<close> read it.\<close>

definition is_digit :: "char \<Rightarrow> bool" where
  "is_digit c \<longleftrightarrow> 48 \<le> (of_char c :: nat) \<and> (of_char c :: nat) \<le> 57"

definition parse_digits :: "string \<Rightarrow> int option" where
  "parse_digits t =
     (if t \<noteq> [] \<and> list_all is_digit t
      then Some (foldl (\<lambda>a c. 10 * a + (int (of_char c) - 48)) 0 t) else None)"

definition parse_int :: "string \<Rightarrow> int option" where
  "parse_int t =
     (case t of
        CHR ''-'' # u \<Rightarrow> map_option uminus (parse_digits u)
      | CHR ''+'' # u \<Rightarrow> parse_digits u
      | _ \<Rightarrow> parse_digits t)"

text \<open>The integer a value converts to: an INTEGER itself, anything else through its text.\<close>

fun int_of_val :: "bool \<Rightarrow> sqlval \<Rightarrow> int option" where
  "int_of_val sign SNull = None"
| "int_of_val sign (SInt i) = Some i"
| "int_of_val sign (SReal t) = (if sign then parse_int t else parse_digits t)"
| "int_of_val sign (SText t) = (if sign then parse_int t else parse_digits t)"
| "int_of_val sign (SBlob b) = (if sign then parse_int (string_of b) else parse_digits (string_of b))"

definition scan_uint32 :: "'w env \<Rightarrow> nat \<Rightarrow> sqlval \<Rightarrow> goerr + u32" where
  "scan_uint32 E k v =
     (case int_of_val False v of
        None \<Rightarrow> Inl (scan_error E k v ''uint32'')
      | Some i \<Rightarrow> if 0 \<le> i \<and> i < 2 ^ 32 then Inr (word_of_int i)
                  else Inl (scan_error E k v ''uint32''))"

definition scan_int64 :: "'w env \<Rightarrow> nat \<Rightarrow> sqlval \<Rightarrow> goerr + int" where
  "scan_int64 E k v =
     (case int_of_val True v of
        None \<Rightarrow> Inl (scan_error E k v ''int64'')
      | Some i \<Rightarrow> if - (2 ^ 63) \<le> i \<and> i < 2 ^ 63 then Inr i
                  else Inl (scan_error E k v ''int64''))"

text \<open>\<open>sql.NullInt64\<close>: \<open>None\<close> is \<open>Valid = false\<close>.\<close>

definition scan_null_int64 :: "'w env \<Rightarrow> nat \<Rightarrow> sqlval \<Rightarrow> goerr + int option" where
  "scan_null_int64 E k v = (if v = SNull then Inr None else map_sum id Some (scan_int64 E k v))"

fun scan_string :: "'w env \<Rightarrow> nat \<Rightarrow> sqlval \<Rightarrow> goerr + string" where
  "scan_string E k SNull = Inl (scan_error E k SNull ''string'')"
| "scan_string E k (SInt i) = Inr (show_int i)"
| "scan_string E k (SReal t) = Inr t"
| "scan_string E k (SText t) = Inr t"
| "scan_string E k (SBlob b) = Inr (string_of b)"

text \<open>A \<open>[]byte\<close>; \<open>None\<close> is the nil slice.\<close>

fun scan_bytes :: "sqlval \<Rightarrow> bytes option" where
  "scan_bytes SNull = None"
| "scan_bytes (SInt i) = Some (bytes_of (show_int i))"
| "scan_bytes (SReal t) = Some (bytes_of t)"
| "scan_bytes (SText t) = Some (bytes_of t)"
| "scan_bytes (SBlob b) = Some b"

text \<open>\<open>Scan\<close> of rows with one, two or three columns; another number of columns is an error.\<close>

definition column_error :: "sqlval list \<Rightarrow> nat \<Rightarrow> goerr" where
  "column_error row n = ErrText (''sql: expected '' @ show_nat (length row) @
     '' destination arguments in Scan, not '' @ show_nat n)"

definition scan1 :: "(sqlval \<Rightarrow> goerr + 'a) \<Rightarrow> sqlval list \<Rightarrow> goerr + 'a" where
  "scan1 f row = (case row of [v] \<Rightarrow> f v | _ \<Rightarrow> Inl (column_error row 1))"

definition scan2 :: "(sqlval \<Rightarrow> goerr + 'a) \<Rightarrow> (sqlval \<Rightarrow> goerr + 'b) \<Rightarrow> sqlval list \<Rightarrow> goerr + 'a \<times> 'b" where
  "scan2 f g row =
     (case row of
        [u, v] \<Rightarrow> (case f u of Inl e \<Rightarrow> Inl e
                  | Inr a \<Rightarrow> (case g v of Inl e \<Rightarrow> Inl e | Inr b \<Rightarrow> Inr (a, b)))
      | _ \<Rightarrow> Inl (column_error row 2))"

definition scan3 ::
  "(sqlval \<Rightarrow> goerr + 'a) \<Rightarrow> (sqlval \<Rightarrow> goerr + 'b) \<Rightarrow> (sqlval \<Rightarrow> goerr + 'c) \<Rightarrow>
   sqlval list \<Rightarrow> goerr + 'a \<times> 'b \<times> 'c" where
  "scan3 f g h row =
     (case row of
        [u, v, w] \<Rightarrow>
          (case f u of Inl e \<Rightarrow> Inl e
           | Inr a \<Rightarrow> (case g v of Inl e \<Rightarrow> Inl e
              | Inr b \<Rightarrow> (case h w of Inl e \<Rightarrow> Inl e | Inr c \<Rightarrow> Inr (a, b, c))))
      | _ \<Rightarrow> Inl (column_error row 3))"

end
