(* ===== verification/Rsync.thy ===== *)
theory Rsync
  imports Sql
begin

text \<open>
  What both roles share: the methods of \<open>rsync\<close> in sqlitersync/sql.go (\<open>prepare\<close>, \<open>run\<close>,
  \<open>runReturnUInt\<close>, \<open>runReturnText\<close>, \<open>closeDb\<close>, \<open>errMsgByte\<close>, \<open>attachSQL\<close>), the options, statistics and
  constructor of sqlitersync/sync.go, and the statements that read and write the wire and return
  on an error.
\<close>

section \<open>Reading and writing\<close>

definition r_op :: "(Reader \<Rightarrow> Reader \<times> 'a) \<Rightarrow> (('w, 'x) rsync_scheme, 'a) gom" where
  "r_op f s = (case f (rs_r s) of (r, a) \<Rightarrow> (Val a, s\<lparr>rs_r := r\<rparr>))"

definition w_op :: "(Writer \<Rightarrow> Writer \<times> 'a) \<Rightarrow> (('w, 'x) rsync_scheme, 'a) gom" where
  "w_op f s = (case f (rs_w s) of (w, a) \<Rightarrow> (Val a, s\<lparr>rs_w := w\<rparr>))"

text \<open>\<open>v, err := ...; if err != nil { return err }\<close>\<close>

definition try_val :: "('s, goerr + 'a) gom \<Rightarrow> ('s, 'a) gom" where
  "try_val m = seq m (\<lambda>x. case x of Inl e \<Rightarrow> stop (Some e) | Inr v \<Rightarrow> ret v)"

definition try_err :: "('s, goerr option) gom \<Rightarrow> ('s, unit) gom" where
  "try_err m = seq m chk"

definition rd_byte :: "(('w, 'x) rsync_scheme, byte) gom" where
  "rd_byte = try_val (r_op ReadByte)"

definition rd_u32 :: "(('w, 'x) rsync_scheme, u32) gom" where
  "rd_u32 = try_val (r_op ReadUint32)"

definition rd_pow2 :: "(('w, 'x) rsync_scheme, int) gom" where
  "rd_pow2 = try_val (r_op ReadPow2)"

definition rd_bytes :: "int \<Rightarrow> (('w, 'x) rsync_scheme, bytes) gom" where
  "rd_bytes n = try_val (r_op (\<lambda>r. ReadBytes r n))"

definition rd_message :: "(('w, 'x) rsync_scheme, bytes) gom" where
  "rd_message = try_val (r_op ReadMessage)"

definition wr_byte :: "byte \<Rightarrow> (('w, 'x) rsync_scheme, unit) gom" where
  "wr_byte b = try_err (w_op (\<lambda>w. WriteByte w b))"

definition wr_u32 :: "u32 \<Rightarrow> (('w, 'x) rsync_scheme, unit) gom" where
  "wr_u32 x = try_err (w_op (\<lambda>w. WriteUint32 w x))"

definition wr_pow2 :: "int \<Rightarrow> (('w, 'x) rsync_scheme, unit) gom" where
  "wr_pow2 v = try_err (w_op (\<lambda>w. WritePow2 w v))"

definition wr_bytes :: "bytes \<Rightarrow> (('w, 'x) rsync_scheme, unit) gom" where
  "wr_bytes p = try_err (w_op (\<lambda>w. WriteBytes w p))"

definition wr_message :: "byte \<Rightarrow> bytes \<Rightarrow> (('w, 'x) rsync_scheme, unit) gom" where
  "wr_message m p = try_err (w_op (\<lambda>w. WriteMessage w m p))"

definition wr_flush :: "(('w, 'x) rsync_scheme, unit) gom" where
  "wr_flush = try_err (w_op Flush)"

text \<open>\<open>s.w.WriteError(msgByte, ...)\<close> as a value, and \<open>return s.w.WriteError(msgByte, ...)\<close>.\<close>

definition write_error :: "byte \<Rightarrow> string \<Rightarrow> (('w, 'x) rsync_scheme, goerr) gom" where
  "write_error m msg = w_op (\<lambda>w. WriteError w m msg)"

definition fail :: "byte \<Rightarrow> string \<Rightarrow> (('w, 'x) rsync_scheme, 'a) gom" where
  "fail m msg = seq (write_error m msg) (\<lambda>e. stop (Some e))"

section \<open>sql.go\<close>

definition replace_quotes :: "string \<Rightarrow> string" where
  "replace_quotes s = concat (map (\<lambda>c. if c = CHR 0x27 then [CHR 0x27, CHR 0x27] else [c]) s)"

definition attachSQL :: "string \<Rightarrow> string" where
  "attachSQL path = ''ATTACH '' @ [CHR 0x27] @ replace_quotes path @ [CHR 0x27] @ '' AS '' @
     [CHR 0x27] @ ''replica'' @ [CHR 0x27]"

definition errMsgByte :: "('w, 'x) rsync_scheme \<Rightarrow> byte" where
  "errMsgByte s = (if isReplica s then ReplicaError else OriginError)"

definition prepare :: "'w env \<Rightarrow> string \<Rightarrow> (('w, 'x) rsync_scheme, goerr + stmt) gom" where
  "prepare E sql =
     seq (db_Prepare E sql) (\<lambda>x.
       case x of
         Inl e \<Rightarrow>
           seq (gets errMsgByte) (\<lambda>m.
           seq (write_error m (''unable to prepare SQL ['' @ sql @ '']: '' @ err_text e)) (\<lambda>e'.
           ret (Inl e')))
       | Inr st \<Rightarrow> ret (Inr st))"

definition statement_failed :: "string \<Rightarrow> goerr \<Rightarrow> string" where
  "statement_failed sql e = ''SQL statement ['' @ sql @ ''] failed: '' @ err_text e"

text \<open>\<open>strings.Contains(s, t)\<close>\<close>

definition contains :: "string \<Rightarrow> string \<Rightarrow> bool" where
  "contains s t = sublist t s"

definition run :: "'w env \<Rightarrow> string \<Rightarrow> sqlval list \<Rightarrow> (('w, 'x) rsync_scheme, goerr option) gom" where
  "run E sql args =
     seq (db_Exec E sql args) (\<lambda>err.
       case err of
         None \<Rightarrow> ret None
       | Some e \<Rightarrow>
           if prefix ''ATTACH '' sql \<and> contains (err_text e) ''must use the same text encoding'' then
             seq (modify (\<lambda>s. s\<lparr>wrongEnc := True\<rparr>)) (\<lambda>_. ret None)
           else
             seq (gets errMsgByte) (\<lambda>m.
             seq (write_error m (statement_failed sql e)) (\<lambda>e'.
             ret (Some e'))))"

definition runReturnUInt :: "'w env \<Rightarrow> string \<Rightarrow> (('w, 'x) rsync_scheme, goerr + u32) gom" where
  "runReturnUInt E sql =
     seq (db_QueryRow E sql [] (scan1 (scan_uint32 E 0))) (\<lambda>x.
       case x of
         Inl e \<Rightarrow>
           seq (gets errMsgByte) (\<lambda>m.
           seq (write_error m (statement_failed sql e)) (\<lambda>e'.
           ret (Inl e')))
       | Inr n \<Rightarrow> ret (Inr n))"

definition runReturnText :: "'w env \<Rightarrow> string \<Rightarrow> (('w, 'x) rsync_scheme, goerr + string) gom" where
  "runReturnText E sql =
     seq (db_QueryRow E sql [] (scan1 (scan_string E 0))) (\<lambda>x.
       case x of
         Inl e \<Rightarrow>
           seq (gets errMsgByte) (\<lambda>m.
           seq (write_error m (statement_failed sql e)) (\<lambda>e'.
           ret (Inl e')))
       | Inr t \<Rightarrow> ret (Inr t))"

text \<open>\<open>if s.db == nil { return nil }; err := s.db.Close(); s.db = nil; return err\<close>\<close>

definition closeDb :: "'w env \<Rightarrow> (('w, 'x) rsync_scheme, goerr option) gom" where
  "closeDb E s =
     (if \<not> db s then (Val None, s)
      else case e_close E (world s) of (w, e) \<Rightarrow> (Val e, s\<lparr>world := w, db := False\<rparr>))"

text \<open>\<open>s.db, err = sql.Open("sqlite", dsn)\<close>\<close>

definition openDb :: "'w env \<Rightarrow> string \<Rightarrow> (('w, 'x) rsync_scheme, goerr option) gom" where
  "openDb E dsn s =
     (case e_open E (world s) dsn of
        (w, None) \<Rightarrow> (Val None, s\<lparr>world := w, db := True\<rparr>)
      | (w, Some e) \<Rightarrow> (Val (Some e), s\<lparr>world := w, db := False\<rparr>))"

text \<open>\<open>hash.Register()\<close>, on the package variables of package hash.\<close>

definition hash_Register :: "'w env \<Rightarrow> (('w, 'x) rsync_scheme, goerr option) gom" where
  "hash_Register E s =
     (case Register (e_scalar E) (e_aggregate E)
             \<lparr>once_ran = registerOnce s, registerErr = registerResult s, driver = world s\<rparr> of
        (r, e) \<Rightarrow>
          (Val e, s\<lparr>world := driver r, registerOnce := once_ran r, registerResult := registerErr r\<rparr>))"

section \<open>Deferred calls\<close>

definition push_defer :: "deferral \<Rightarrow> (('w, 'x) rsync_scheme, unit) gom" where
  "push_defer d = modify (\<lambda>s. s\<lparr>defers := d # defers s\<rparr>)"

text \<open>
  At the return of a role function its deferred calls run, last deferred first, each joining its
  error: \<open>err = errors.Join(err, ...)\<close>. \<open>pIns\<close> reads the variable of that name.
\<close>

fun do_defer ::
  "'w env \<Rightarrow> (('w, 'x) rsync_scheme \<Rightarrow> stmt option) \<Rightarrow> deferral \<Rightarrow> (('w, 'x) rsync_scheme, goerr option) gom" where
  "do_defer E pins CloseDb = closeDb E"
| "do_defer E pins (CloseStmt st) = stmt_Close E st"
| "do_defer E pins (CloseRows i) = rows_Close E i"
| "do_defer E pins ClosePIns =
     seq (gets pins) (\<lambda>v. case v of None \<Rightarrow> panic nilPointer | Some st \<Rightarrow> stmt_Close E st)"

fun run_defers ::
  "'w env \<Rightarrow> (('w, 'x) rsync_scheme \<Rightarrow> stmt option) \<Rightarrow> deferral list \<Rightarrow> goerr option \<Rightarrow>
   (('w, 'x) rsync_scheme, unit) gom" where
  "run_defers E pins [] err = stop err"
| "run_defers E pins (d # ds) err =
     seq (do_defer E pins d) (\<lambda>e. run_defers E pins ds (join_errs [err, e]))"

text \<open>A role function: its body, then the calls its body deferred.\<close>

definition with_defers ::
  "'w env \<Rightarrow> (('w, 'x) rsync_scheme \<Rightarrow> stmt option) \<Rightarrow> (('w, 'x) rsync_scheme, unit) gom \<Rightarrow>
   (('w, 'x) rsync_scheme, unit) gom" where
  "with_defers E pins body =
     seq (call body) (\<lambda>err.
     seq (gets defers) (\<lambda>ds.
     run_defers E pins ds err))"

section \<open>sync.go\<close>

record Options =
  opt_Protocol :: int
  opt_CommCheck :: bool
  opt_AllowNonWal :: bool

record Stats =
  st_BytesSent :: u64
  st_BytesReceived :: u64
  st_HashMessages :: u64
  st_HashRounds :: u32
  st_PageUpdates :: u32
  st_PageCount :: u32
  st_PageSize :: int
  st_Protocol :: int

definition stats :: "('w, 'x) rsync_scheme \<Rightarrow> Stats" where
  "stats s =
     \<lparr>st_BytesSent = BytesWritten (rs_w s), st_BytesReceived = BytesRead (rs_r s),
      st_HashMessages = hashMessages s, st_HashRounds = hashRounds s,
      st_PageUpdates = pageUpdates s, st_PageCount = pageCount s,
      st_PageSize = pageSize s, st_Protocol = protocol s\<rparr>"

definition background :: ctx where
  "background = \<lparr>passes = None, ctx_error = EOF\<rparr>"

text \<open>
  \<open>newRsync(ctx, rw, opts)\<close>. The context is given by what its checks will say before reads and
  before writes; \<open>None\<close> is a nil context or nil options. The world and the package state of hash
  are what surrounds the run.
\<close>

definition newRsync ::
  "(ctx \<times> ctx) option \<Rightarrow> instream \<Rightarrow> outstream \<Rightarrow> Options option \<Rightarrow> 'w \<Rightarrow> bool \<Rightarrow> goerr option \<Rightarrow>
   'w rsync" where
  "newRsync cctx i out opts w once once_err =
     (let (rc, wc) = (case cctx of None \<Rightarrow> (background, background) | Some c \<Rightarrow> c);
          o1 = (case opts of None \<Rightarrow> \<lparr>opt_Protocol = 0, opt_CommCheck = False, opt_AllowNonWal = False\<rparr>
                | Some o0 \<Rightarrow> o0);
          p0 = opt_Protocol o1;
          p = (if p0 \<le> 0 then ProtocolVersion
               else if p0 > ProtocolVersion then ProtocolVersion
               else p0)
      in \<lparr>db = False,
          rs_r = NewReader (i\<lparr>in_ctx := rc\<rparr>),
          rs_w = NewWriter (out\<lparr>out_ctx := wc\<rparr>),
          originPath = [], replicaPath = [],
          protocol = p, pageSize = 0, pageCount = 0,
          hashMessages = 0, hashRounds = 0, pageUpdates = 0,
          walOnly = (\<not> opt_AllowNonWal o1),
          commCheck = opt_CommCheck o1,
          isReplica = False, wrongEnc = False,
          world = w, registerOnce = once, registerResult = once_err,
          openRows = None, nextId = 0, closedStmts = [], defers = []\<rparr>)"

end
