(* ===== verification/Subdivide.thy ===== *)
theory Subdivide
  imports Rsync
begin

text \<open>
  sqlitersync/subdivide.go: \<open>sendHashSQL\<close>, \<open>sendHashMessages\<close> and \<open>subdivideHashRange\<close>.
\<close>

definition sendHashSQL :: string where
  "sendHashSQL = ''SELECT if(npg==1,'' @
     ''  (SELECT hash(data) FROM sqlite_dbpage('replica') WHERE pgno=fpg),'' @
     ''  (WITH RECURSIVE c(n) AS'' @
     ''     (SELECT fpg UNION ALL SELECT n+1 FROM c WHERE n<fpg+npg-1)'' @
     ''   SELECT agghash(hash(data))'' @
     ''     FROM c CROSS JOIN sqlite_dbpage('replica') ON pgno=n)) AS hash,'' @
     ''  fpg,'' @
     ''  npg'' @
     '' FROM sendHash ORDER BY fpg''"

definition deleteSendHashSQL :: string where
  "deleteSendHashSQL = ''DELETE FROM sendHash''"

text \<open>
  The body of the loop over the entries; the local variables are what the function expects next.
\<close>

definition send_entry ::
  "'w env \<Rightarrow> sqlval list \<Rightarrow> u32 \<times> u32 \<Rightarrow> (('w, 'x) rsync_scheme, u32 \<times> u32) gom" where
  "send_entry E row expected =
     (case scan3 (\<lambda>v. Inr (scan_bytes v)) (scan_uint32 E 1) (scan_uint32 E 2) row of
        Inl e \<Rightarrow> fail ReplicaError (statement_failed sendHashSQL e)
      | Inr (hash, fpg, npg) \<Rightarrow>
          seq (modify (\<lambda>s. s\<lparr>hashMessages := hashMessages s + 1\<rparr>)) (\<lambda>_.
          seq (cond (fpg \<noteq> fst expected \<or> npg \<noteq> snd expected)
                 (seq (wr_byte ReplicaConfig) (\<lambda>_.
                  seq (wr_u32 fpg) (\<lambda>_.
                  wr_u32 npg)))) (\<lambda>_.
          seq (case hash of
                 None \<Rightarrow> ret ()
               | Some h \<Rightarrow>
                   seq (wr_byte ReplicaHash) (\<lambda>_.
                   wr_bytes h)) (\<lambda>_.
          ret (fpg + npg, npg)))))"

fun send_entries ::
  "'w env \<Rightarrow> sqlval list list \<Rightarrow> u32 \<times> u32 \<Rightarrow> (('w, 'x) rsync_scheme, u32 \<times> u32) gom" where
  "send_entries E [] expected = ret expected"
| "send_entries E (row # rows) expected =
     seq (send_entry E row expected) (send_entries E rows)"

definition sendHashMessages :: "'w env \<Rightarrow> u32 \<Rightarrow> u32 \<Rightarrow> (('w, 'x) rsync_scheme, goerr option) gom" where
  "sendHashMessages E iHash0 nHash0 =
     call (
       seq (try_val (prepare E sendHashSQL)) (\<lambda>st.
       deferred (stmt_Close E st) (
         seq (stmt_Query E (Some st) []) (\<lambda>q.
         case q of
           Inl e \<Rightarrow> fail ReplicaError (statement_failed sendHashSQL e)
         | Inr (i, rs) \<Rightarrow>
             deferred (rows_Close E i) (
               seq (send_entries E (rs_rows rs) (iHash0, nHash0)) (\<lambda>_.
               seq (modify (\<lambda>s. s\<lparr>openRows := None\<rparr>)) (\<lambda>_.
               case rs_err rs of
                 Some e \<Rightarrow> fail ReplicaError (statement_failed sendHashSQL e)
               | None \<Rightarrow>
                   seq (try_err (run E deleteSendHashSQL [])) (\<lambda>_.
                   seq (w_op (\<lambda>w. WriteByte w ReplicaReady)) (\<lambda>err.
                   seq (modify (\<lambda>s. s\<lparr>hashRounds := hashRounds s + 1\<rparr>)) (\<lambda>_.
                   seq (w_op Flush) (\<lambda>ferr.
                   stop (join_errs [err, ferr]))))))))))))"

definition chunkSize :: "u32 \<Rightarrow> u32" where
  "chunkSize npg = (if npg \<le> 30 then 1 else if npg \<le> 1000 then 30 else 1000)"

definition subdivideSQL :: string where
  "subdivideSQL = ''WITH RECURSIVE c(n) AS'' @
     ''  (VALUES(?) UNION ALL SELECT n+? FROM c WHERE n<?)'' @
     ''REPLACE INTO sendHash(fpg,npg)'' @
     '' SELECT n, min(?-n,?) FROM c''"

definition subdivideHashRange ::
  "'w env \<Rightarrow> u32 \<Rightarrow> u32 \<Rightarrow> (('w, 'x) rsync_scheme, goerr option) gom" where
  "subdivideHashRange E fpg npg =
     (let nChunk = chunkSize npg;
          iEnd = uint fpg + uint npg
      in run E subdivideSQL
           [SInt (uint fpg), SInt (uint nChunk), SInt (iEnd - uint nChunk), SInt iEnd, SInt (uint nChunk)])"

section \<open>What the subdivision generates\<close>

text \<open>
  The rows of the recursive query: \<open>VALUES(a) UNION ALL SELECT n+d FROM c WHERE n<b\<close>, for a positive
  step.
\<close>

function cte :: "int \<Rightarrow> int \<Rightarrow> int \<Rightarrow> int list" where
  "cte a d b = (if d \<le> 0 then [a] else if a < b then a # cte (a + d) d b else [a])"
  by pat_completeness auto
termination
  by (relation "measure (\<lambda>(a, d, b). nat (b - a))") auto

declare cte.simps [simp del]

text \<open>
  The entries \<open>(n, min(e-n, d))\<close> the statement inserts, given its five bound values in order.
\<close>

definition subdivide_rows :: "int \<Rightarrow> int \<Rightarrow> int \<Rightarrow> int \<Rightarrow> int \<Rightarrow> (int \<times> int) list" where
  "subdivide_rows a d b e d' = map (\<lambda>n. (n, min (e - n) d')) (cte a d b)"

text \<open>The entries for a range, with the values \<open>subdivideHashRange\<close> binds.\<close>

definition chunks :: "u32 \<Rightarrow> u32 \<Rightarrow> (int \<times> int) list" where
  "chunks fpg npg =
     (let d = uint (chunkSize npg); e = uint fpg + uint npg
      in subdivide_rows (uint fpg) d (e - d) e d)"

definition range_pages :: "int \<times> int \<Rightarrow> int list" where
  "range_pages r = [fst r..fst r + snd r - 1]"

lemma cte_cover:
  "0 < d \<Longrightarrow> a < e \<Longrightarrow> concat (map range_pages (subdivide_rows a d (e - d) e d)) = [a..e - 1]"
proof (induction a d "e - d" rule: cte.induct)
  case (1 a d)
  show ?case
  proof (cases "a < e - d")
    case True
    then have "cte a d (e - d) = a # cte (a + d) d (e - d)" using "1.prems" by (simp add: cte.simps)
    moreover have "concat (map range_pages (subdivide_rows (a + d) d (e - d) e d)) = [a + d..e - 1]"
      using "1.hyps" [OF _ True] "1.prems" True by simp
    moreover have "[a..a + d - 1] @ [a + d..e - 1] = [a..e - 1]"
      using upto_split1 [of a "a + d" "e - 1"] True "1.prems" by simp
    ultimately show ?thesis using True by (simp add: subdivide_rows_def range_pages_def)
  next
    case False
    with "1.prems" have "cte a d (e - d) = [a]" by (simp add: cte.simps)
    with False show ?thesis by (simp add: subdivide_rows_def range_pages_def)
  qed
qed

lemma cte_bounds:
  "n \<in> set (cte a d b) \<Longrightarrow> 0 < d \<Longrightarrow> a \<le> n \<and> (n < b + d \<or> n = a)"
proof (induction a d b rule: cte.induct)
  case (1 a d b)
  then show ?case by (cases "a < b") (fastforce simp: cte.simps [of a])+
qed

lemma chunkSize_bounds:
  "1 \<le> npg \<Longrightarrow> 0 < uint (chunkSize npg) \<and> uint (chunkSize npg) \<le> uint npg \<and>
     uint (chunkSize npg) \<le> 1000 \<and> (1 < npg \<longrightarrow> uint (chunkSize npg) < uint npg) \<and>
     (npg \<le> 1000 \<longrightarrow> uint (chunkSize npg) \<le> 30) \<and> (npg \<le> 30 \<longrightarrow> chunkSize npg = 1)"
  by (auto simp: chunkSize_def word_le_def word_less_def)

lemma chunks_partition:
  assumes "1 \<le> npg"
  shows "concat (map range_pages (chunks fpg npg)) = [uint fpg..uint fpg + uint npg - 1]"
  using cte_cover [of "uint (chunkSize npg)" "uint fpg" "uint fpg + uint npg"] chunkSize_bounds [OF assms]
  by (simp add: chunks_def Let_def)

text \<open>
  C33 (subdivision is a partition). The entries generated for a range list its pages exactly once and
  in order: no page is skipped, none is hashed twice, nothing outside the range is hashed.
\<close>

theorem subdivide_partition:
  assumes "1 \<le> npg"
  shows "concat (map range_pages (chunks fpg npg)) = [uint fpg..uint fpg + uint npg - 1]"
  using assms by (rule chunks_partition)

theorem subdivide_partition_witness:
  "concat (map range_pages (chunks 900 1000)) = [900..1899]"
  using subdivide_partition [of 1000 900] by simp

lemma chunks_progress:
  assumes "1 \<le> npg" and "(n, k) \<in> set (chunks fpg npg)"
  shows "1 \<le> k \<and> k \<le> 1000 \<and> (1 < npg \<longrightarrow> k < uint npg) \<and> (npg \<le> 1000 \<longrightarrow> k \<le> 30) \<and>
    (npg \<le> 30 \<longrightarrow> k = 1) \<and> uint fpg \<le> n \<and> n + k \<le> uint fpg + uint npg"
proof -
  let ?d = "uint (chunkSize npg)"
  let ?e = "uint fpg + uint npg"
  note d = chunkSize_bounds [OF assms(1)]
  from assms(2) have n: "n \<in> set (cte (uint fpg) ?d (?e - ?d))" and k: "k = min (?e - n) ?d"
    by (auto simp: chunks_def subdivide_rows_def Let_def)
  from cte_bounds [OF n] d have b: "uint fpg \<le> n" "n < ?e" by auto
  have "chunkSize npg = 1 \<longrightarrow> ?d = 1" by simp
  with d b k show ?thesis by auto
qed

text \<open>
  C34 (subdivision makes progress). Every entry of a subdivided range covers at least one page and at
  most 1000; a range of more than one page is split into strictly smaller ones; ranges of up to 1000
  pages give entries of at most 30, and ranges of up to 30 give single pages. So the third
  subdivision of any range consists of single pages.
\<close>

theorem subdivide_progress:
  assumes "1 \<le> npg" and "(n, k) \<in> set (chunks fpg npg)"
  shows "1 \<le> k \<and> k \<le> 1000 \<and> (1 < npg \<longrightarrow> k < uint npg) \<and> (npg \<le> 1000 \<longrightarrow> k \<le> 30) \<and>
    (npg \<le> 30 \<longrightarrow> k = 1) \<and> uint fpg \<le> n \<and> n + k \<le> uint fpg + uint npg"
  using assms by (rule chunks_progress)

theorem subdivide_progress_witness:
  "(990, 30) \<in> set (chunks 900 1000) \<and> (30::int) < uint (1000::32 word)"
proof -
  have "(990, 30) \<in> set (chunks 900 1000)"
    by (simp add: chunks_def chunkSize_def subdivide_rows_def cte.simps)
  from subdivide_progress [OF _ this] this show ?thesis by simp
qed

end
