(* ===== verification/Origin.thy ===== *)
theory Origin
  imports Rsync
begin

text \<open>
  The origin role, sqlitersync/origin.go: \<open>originSide\<close> with one definition per message handler. The
  local variables of the function are the fields \<open>origin\<close> adds to the run state.
\<close>

section \<open>The statements\<close>

definition checkHashSQL :: string where
  "checkHashSQL = ''SELECT hash(data)==?2 FROM sqlite_dbpage('main')'' @
     '' WHERE pgno=?1''"

definition checkHashNSQL :: string where
  "checkHashNSQL = ''WITH c(n) AS'' @
     ''  (VALUES(?1) UNION ALL SELECT n+1 FROM c WHERE n<?2)'' @
     ''SELECT agghash(hash(data))==?3'' @
     ''  FROM c CROSS JOIN sqlite_dbpage('main') ON pgno=n''"

definition insBadHashSQL :: string where
  "insBadHashSQL = ''INSERT INTO badHash VALUES(?1,?2)''"

definition multiBadHashSQL :: string where
  "multiBadHashSQL = ''SELECT pgno, sz FROM badHash WHERE sz>1''"

definition pageDataSQL :: string where
  "pageDataSQL = ''SELECT pgno, data'' @
     ''  FROM badHash JOIN sqlite_dbpage('main') USING(pgno)''"

definition beginSQL :: string where
  "beginSQL = ''BEGIN''"

definition journalModeSQL :: string where
  "journalModeSQL = ''PRAGMA journal_mode''"

definition pageCountSQL :: string where
  "pageCountSQL = ''PRAGMA page_count''"

definition pageSizeSQL :: string where
  "pageSizeSQL = ''PRAGMA page_size''"

definition createBadHashSQL :: string where
  "createBadHashSQL = ''CREATE TEMP TABLE badHash('' @
     '' pgno INTEGER PRIMARY KEY,'' @
     '' sz INT)''"

definition deleteMultiSQL :: string where
  "deleteMultiSQL = ''DELETE FROM badHash WHERE sz>1''"

definition fillTailSQL :: string where
  "fillTailSQL = ''WITH RECURSIVE c(n) AS'' @
     ''  (VALUES(?) UNION ALL SELECT n+1 FROM c WHERE n<?)'' @
     ''INSERT INTO badHash SELECT n, 1 FROM c''"

definition deleteLockPageSQL :: string where
  "deleteLockPageSQL = ''DELETE FROM badHash WHERE pgno=?''"

section \<open>The state of the role\<close>

record 'w origin = "'w rsync" +
  iHash :: u32
  nHash :: u32
  mxHash :: u32
  pCkHash :: "stmt option"
  pCkHashN :: "stmt option"
  pInsHash :: "stmt option"
  lockBytePage :: int

type_synonym ('w, 'a) o_gom = "('w origin, 'a) gom"

text \<open>\<open>return s.w.WriteError(s.errMsgByte(), ...)\<close>\<close>

definition o_fail :: "string \<Rightarrow> ('w, 'a) o_gom" where
  "o_fail msg = seq (gets errMsgByte) (\<lambda>m. fail m msg)"

section \<open>Starting\<close>

definition origin_commCheck :: "'w env \<Rightarrow> ('w, unit) o_gom" where
  "origin_commCheck E =
     seq (gets (\<lambda>s. ''origin  zOrigin='' @ fmt_q E (originPath s) @ '' zReplica='' @
            fmt_q E (replicaPath s) @ '' isRemote=1 protocol='' @ show_int (protocol s))) (\<lambda>msg.
     seq (wr_message OriginMsg (bytes_of msg)) (\<lambda>_.
     seq (wr_byte OriginEnd) (\<lambda>_.
     seq (w_op Flush) (\<lambda>err.
     stop err))))"

text \<open>The ORIGIN_BEGIN message, sent at the start and again after a lower protocol was proposed.\<close>

definition send_begin :: "('w, unit) o_gom" where
  "send_begin =
     seq (wr_byte OriginBegin) (\<lambda>_.
     seq (gets protocol) (\<lambda>p.
     seq (wr_byte (word_of_int p)) (\<lambda>_.
     seq (gets pageSize) (\<lambda>sz.
     seq (wr_pow2 sz) (\<lambda>_.
     seq (gets pageCount) (\<lambda>n.
     seq (wr_u32 n) (\<lambda>_.
     wr_flush)))))))"

definition check_wal :: "'w env \<Rightarrow> ('w, unit) o_gom" where
  "check_wal E =
     seq (try_val (runReturnText E journalModeSQL)) (\<lambda>mode.
     cond (mode \<noteq> ''wal'') (o_fail ''Origin database is not in WAL mode''))"

definition origin_setup :: "'w env \<Rightarrow> ('w, unit) o_gom" where
  "origin_setup E =
     seq (modify (\<lambda>s. if protocol s \<le> 0 then s\<lparr>protocol := ProtocolVersion\<rparr> else s)) (\<lambda>_.
     seq (push_defer CloseDb) (\<lambda>_.
     seq (gets originPath) (\<lambda>path.
     seq (\<lambda>s. case e_stat E (world s) path of (w, e) \<Rightarrow> (Val e, s\<lparr>world := w\<rparr>)) (\<lambda>statErr.
     seq (case statErr of
            None \<Rightarrow> ret ()
          | Some e \<Rightarrow> o_fail (''cannot open origin '' @ fmt_q E path @ '': '' @ err_text e)) (\<lambda>_.
     seq (openDb E path) (\<lambda>err.
     seq (case err of
            None \<Rightarrow> ret ()
          | Some e \<Rightarrow> o_fail (''cannot open origin '' @ fmt_q E path @ '': '' @ err_text e)) (\<lambda>_.
     seq (try_err (run E beginSQL [])) (\<lambda>_.
     seq (gets walOnly) (\<lambda>wal.
     seq (cond wal (check_wal E)) (\<lambda>_.
     seq (try_val (runReturnUInt E pageCountSQL)) (\<lambda>nPage.
     seq (try_val (runReturnUInt E pageSizeSQL)) (\<lambda>szPg.
     seq (modify (\<lambda>s. s\<lparr>pageCount := nPage, pageSize := uint szPg\<rparr>)) (\<lambda>_.
     seq send_begin (\<lambda>_.
     seq (gets pageSize) (\<lambda>sz.
     if sz = 0 then panic ''integer divide by zero''
     else modify (\<lambda>s. s\<lparr>lockBytePage := 2 ^ 30 div sz + 1,
            iHash := 1, nHash := 1, mxHash := 0,
            pCkHash := None, pCkHashN := None, pInsHash := None\<rparr>))))))))))))))))"

section \<open>The messages of the replica\<close>

text \<open>REPLICA_BEGIN: adopt the older protocol and announce again.\<close>

definition on_replica_begin :: "('w, unit) o_gom" where
  "on_replica_begin =
     seq rd_byte (\<lambda>newProtocol.
     seq (gets protocol) (\<lambda>p.
     if int (unat newProtocol) < p then
       seq (modify (\<lambda>s. s\<lparr>protocol := int (unat newProtocol)\<rparr>)) (\<lambda>_.
       send_begin)
     else o_fail ''Invalid REPLICA_BEGIN reply''))"

text \<open>REPLICA_CONFIG: the range of the next hash.\<close>

definition on_replica_config :: "('w, unit) o_gom" where
  "on_replica_config =
     seq rd_u32 (\<lambda>a.
     seq (modify (\<lambda>s. s\<lparr>iHash := a\<rparr>)) (\<lambda>_.
     seq rd_u32 (\<lambda>b.
     modify (\<lambda>s. s\<lparr>nHash := b\<rparr>))))"

text \<open>The table and the statements made when the first hash arrives.\<close>

definition first_hash :: "'w env \<Rightarrow> ('w, unit) o_gom" where
  "first_hash E =
     seq (gets pCkHash) (\<lambda>v.
     cond (v = None)
       (seq (try_err (run E createBadHashSQL [])) (\<lambda>_.
        seq (try_val (prepare E checkHashSQL)) (\<lambda>st1.
        seq (modify (\<lambda>s. s\<lparr>pCkHash := Some st1\<rparr>)) (\<lambda>_.
        seq (push_defer (CloseStmt st1)) (\<lambda>_.
        seq (try_val (prepare E insBadHashSQL)) (\<lambda>st2.
        seq (modify (\<lambda>s. s\<lparr>pInsHash := Some st2\<rparr>)) (\<lambda>_.
        push_defer (CloseStmt st2)))))))))"

text \<open>\<open>errors.Is(err, sql.ErrNoRows)\<close>\<close>

fun is_no_rows :: "goerr \<Rightarrow> bool" where
  "is_no_rows (JoinErr es) = list_ex is_no_rows es"
| "is_no_rows e = (e = ErrNoRows)"

definition match_multi :: "'w env \<Rightarrow> bytes \<Rightarrow> ('w, bool) o_gom" where
  "match_multi E rcvHash =
     seq (gets pCkHashN) (\<lambda>v.
     seq (cond (v = None)
            (seq (try_val (prepare E checkHashNSQL)) (\<lambda>st.
             seq (modify (\<lambda>s. s\<lparr>pCkHashN := Some st\<rparr>)) (\<lambda>_.
             push_defer (CloseStmt st))))) (\<lambda>_.
     seq (gets (\<lambda>s. (pCkHashN s, uint (iHash s), uint (nHash s)))) (\<lambda>(st, i, n).
     seq (stmt_QueryRow E st [SInt i, SInt (i + n - 1), SBlob rcvHash] (scan1 (scan_null_int64 E 0))) (\<lambda>x.
     case x of
       Inl e \<Rightarrow> o_fail (statement_failed checkHashNSQL e)
     | Inr m \<Rightarrow> ret (m \<noteq> None \<and> m \<noteq> Some 0)))))"

definition match_single :: "'w env \<Rightarrow> bytes \<Rightarrow> ('w, bool) o_gom" where
  "match_single E rcvHash =
     seq (gets (\<lambda>s. (pCkHash s, uint (iHash s)))) (\<lambda>(st, i).
     seq (stmt_QueryRow E st [SInt i, SBlob rcvHash] (scan1 (scan_int64 E 0))) (\<lambda>x.
     case x of
       Inl e \<Rightarrow> if is_no_rows e then ret False else o_fail (statement_failed checkHashSQL e)
     | Inr m \<Rightarrow> ret (m \<noteq> 0)))"

text \<open>REPLICA_HASH: compare, record a mismatch, move to the next range.\<close>

definition record_mismatch :: "'w env \<Rightarrow> ('w, unit) o_gom" where
  "record_mismatch E =
     seq (gets (\<lambda>s. (pInsHash s, uint (iHash s), uint (nHash s)))) (\<lambda>(st, i, n).
     seq (stmt_Exec E st [SInt i, SInt n]) (\<lambda>err.
     case err of
       None \<Rightarrow> ret ()
     | Some e \<Rightarrow> o_fail (statement_failed insBadHashSQL e)))"

definition next_range :: "'w origin \<Rightarrow> 'w origin" where
  "next_range s =
     (let s1 = (if iHash s + nHash s > mxHash s then s\<lparr>mxHash := iHash s + nHash s\<rparr> else s)
      in s1\<lparr>iHash := iHash s1 + nHash s1\<rparr>)"

definition on_replica_hash :: "'w env \<Rightarrow> ('w, unit) o_gom" where
  "on_replica_hash E =
     seq (first_hash E) (\<lambda>_.
     seq (modify (\<lambda>s. s\<lparr>hashMessages := hashMessages s + 1\<rparr>)) (\<lambda>_.
     seq (rd_bytes 20) (\<lambda>rcvHash.
     seq (gets nHash) (\<lambda>n.
     seq (if n > 1 then match_multi E rcvHash else match_single E rcvHash) (\<lambda>bMatch.
     seq (cond (\<not> bMatch) (record_mismatch E)) (\<lambda>_.
     modify next_range))))))"

text \<open>REPLICA_READY: the loop over the multi-page entries, which counts them.\<close>

definition send_detail :: "'w env \<Rightarrow> sqlval list \<Rightarrow> ('w, unit) o_gom" where
  "send_detail E row =
     (case scan2 (scan_uint32 E 0) (scan_uint32 E 1) row of
        Inl e \<Rightarrow> o_fail (statement_failed multiBadHashSQL e)
      | Inr (pgno, cnt) \<Rightarrow>
          seq (wr_byte OriginDetail) (\<lambda>_.
          seq (wr_u32 pgno) (\<lambda>_.
          wr_u32 cnt)))"

definition send_details :: "'w env \<Rightarrow> ('w, nat) o_gom" where
  "send_details E =
     seq (db_Query E multiBadHashSQL []) (\<lambda>q.
     case q of
       Inl e \<Rightarrow> o_fail (statement_failed multiBadHashSQL e)
     | Inr (i, rs) \<Rightarrow>
         seq (push_defer (CloseRows i)) (\<lambda>_.
         seq (rows_loop (i, rs) (send_detail E)) (\<lambda>rowsErr.
         seq (case rowsErr of
                None \<Rightarrow> ret ()
              | Some e \<Rightarrow> o_fail (statement_failed multiBadHashSQL e)) (\<lambda>_.
         seq (try_err (rows_Close E i)) (\<lambda>_.
         ret (length (rs_rows rs)))))))"

text \<open>One row of the page stream.\<close>

definition send_page :: "'w env \<Rightarrow> sqlval list \<Rightarrow> ('w, unit) o_gom" where
  "send_page E row =
     (case scan2 (scan_uint32 E 0) (\<lambda>v. Inr (scan_bytes v)) row of
        Inl e \<Rightarrow> o_fail (statement_failed pageDataSQL e)
      | Inr (pgno, data) \<Rightarrow>
          seq (modify (\<lambda>s. s\<lparr>pageUpdates := pageUpdates s + 1\<rparr>)) (\<lambda>_.
          seq (wr_byte OriginPage) (\<lambda>_.
          seq (wr_u32 pgno) (\<lambda>_.
          wr_bytes (case data of None \<Rightarrow> [] | Some d \<Rightarrow> d)))))"

definition fill_tail :: "'w env \<Rightarrow> ('w, unit) o_gom" where
  "fill_tail E =
     seq (gets (\<lambda>s. (mxHash s, pageCount s))) (\<lambda>(mx, n).
     cond (mx \<le> n) (try_err (run E fillTailSQL [SInt (uint mx), SInt (uint n)])))"

definition send_pages :: "'w env \<Rightarrow> ('w, unit) o_gom" where
  "send_pages E =
     seq (fill_tail E) (\<lambda>_.
     seq (gets lockBytePage) (\<lambda>lock.
     seq (try_err (run E deleteLockPageSQL [SInt lock])) (\<lambda>_.
     seq (db_Query E pageDataSQL []) (\<lambda>q.
     case q of
       Inl e \<Rightarrow> o_fail (statement_failed pageDataSQL e)
     | Inr (i, rs) \<Rightarrow>
         seq (push_defer (CloseRows i)) (\<lambda>_.
         seq (rows_loop (i, rs) (send_page E)) (\<lambda>rowsErr.
         seq (case rowsErr of
                None \<Rightarrow> ret ()
              | Some e \<Rightarrow> o_fail (statement_failed pageDataSQL e)) (\<lambda>_.
         seq (try_err (rows_Close E i)) (\<lambda>_.
         seq (wr_byte OriginTxn) (\<lambda>_.
         seq (gets pageCount) (\<lambda>n.
         seq (wr_u32 n) (\<lambda>_.
         wr_byte OriginEnd)))))))))))"

definition on_replica_ready :: "'w env \<Rightarrow> ('w, unit) o_gom" where
  "on_replica_ready E =
     seq (modify (\<lambda>s. s\<lparr>hashRounds := hashRounds s + 1\<rparr>)) (\<lambda>_.
     seq (send_details E) (\<lambda>nMulti.
     seq (if nMulti > 0 then
            seq (try_err (run E deleteMultiSQL [])) (\<lambda>_.
            wr_byte OriginReady)
          else send_pages E) (\<lambda>_.
     wr_flush)))"

definition peer_error :: "string \<Rightarrow> bytes \<Rightarrow> goerr" where
  "peer_error peer msg = ErrText (''sqlitersync: '' @ peer @ '': '' @ string_of msg)"

definition unknown_message :: "byte \<Rightarrow> string" where
  "unknown_message c = ''Unknown message 0x'' @ show_02x c"

text \<open>The switch on the message byte.\<close>

definition origin_handle :: "'w env \<Rightarrow> byte \<Rightarrow> ('w, unit) o_gom" where
  "origin_handle E c =
     (if c = ReplicaMsg then seq rd_message (\<lambda>_. ret ())
      else if c = ReplicaError then seq rd_message (\<lambda>msg. stop (Some (peer_error ''replica'' msg)))
      else if c = ReplicaEnd then stop None
      else if c = ReplicaBegin then on_replica_begin
      else if c = ReplicaConfig then on_replica_config
      else if c = ReplicaHash then on_replica_hash E
      else if c = ReplicaReady then on_replica_ready E
      else o_fail (unknown_message c))"

text \<open>\<open>c, err := s.r.ReadByte()\<close>; the end of the stream ends the run without an error.\<close>

definition next_message :: "(('w, 'x) rsync_scheme, byte) gom" where
  "next_message =
     seq (r_op ReadByte) (\<lambda>x.
     case x of
       Inl e \<Rightarrow> stop (if is_eof e then None else Some e)
     | Inr c \<Rightarrow> ret c)"

definition origin_step :: "'w env \<Rightarrow> ('w, unit) o_gom" where
  "origin_step E = seq next_message (origin_handle E)"

text \<open>
  The loop \<open>for { ... }\<close>. Every iteration reads at least one byte or returns, so the number of bytes
  to come bounds the iterations; running out of it is a value of its own.
\<close>

definition outOfFuel :: string where
  "outOfFuel = ''out of fuel''"

primrec origin_loop :: "'w env \<Rightarrow> nat \<Rightarrow> ('w, unit) o_gom" where
  "origin_loop E 0 = panic outOfFuel"
| "origin_loop E (Suc n) = seq (origin_step E) (\<lambda>_. origin_loop E n)"

definition origin_body :: "'w env \<Rightarrow> ('w, unit) o_gom" where
  "origin_body E =
     seq (try_err (hash_Register E)) (\<lambda>_.
     seq (modify (\<lambda>s. s\<lparr>isReplica := False\<rparr>)) (\<lambda>_.
     seq (gets commCheck) (\<lambda>cc.
     if cc then origin_commCheck E
     else
       seq (origin_setup E) (\<lambda>_.
       seq (gets (\<lambda>s. Suc (length (r_avail (rs_r s))))) (\<lambda>n.
       origin_loop E n)))))"

definition originSide :: "'w env \<Rightarrow> ('w, unit) o_gom" where
  "originSide E = with_defers E (\<lambda>_. None) (origin_body E)"

text \<open>\<open>Origin(ctx, rw, originPath, opts)\<close>\<close>

definition origin_start :: "'w rsync \<Rightarrow> string \<Rightarrow> 'w origin" where
  "origin_start s path =
     rsync.extend (rsync.truncate (s\<lparr>originPath := path\<rparr>))
       \<lparr>iHash = 0, nHash = 0, mxHash = 0, pCkHash = None, pCkHashN = None, pInsHash = None,
        lockBytePage = 0\<rparr>"

definition Origin ::
  "'w env \<Rightarrow> (ctx \<times> ctx) option \<Rightarrow> instream \<Rightarrow> outstream \<Rightarrow> string \<Rightarrow> Options option \<Rightarrow> 'w \<Rightarrow> bool \<Rightarrow>
   goerr option \<Rightarrow> (Stats \<times> goerr option) option \<times> 'w origin" where
  "Origin E cctx i out path opts w once once_err =
     (case originSide E (origin_start (newRsync cctx i out opts w once once_err) path) of
        (Return e, s) \<Rightarrow> (Some (stats s, e), s)
      | (Val _, s) \<Rightarrow> (Some (stats s, None), s)
      | (Panic p, s) \<Rightarrow> (None, s))"

end
