(* ===== verification/Replica.thy ===== *)
theory Replica
  imports Subdivide Origin
begin

text \<open>
  The replica role, sqlitersync/replica.go: \<open>replicaSide\<close> with one definition per message handler. The
  local variables of the function are the fields \<open>replica\<close> adds to the run state.
\<close>

section \<open>The statements\<close>

definition insertPageSQL :: string where
  "insertPageSQL = ''INSERT INTO sqlite_dbpage(pgno,data,schema)VALUES(?1,?2,'replica')''"

definition writableSchemaSQL :: string where
  "writableSchemaSQL = ''PRAGMA writable_schema=ON''"

definition utf16leSQL :: string where
  "utf16leSQL = ''PRAGMA encoding=utf16le''"

definition utf16beSQL :: string where
  "utf16beSQL = ''PRAGMA encoding=utf16be''"

definition createSendHashSQL :: string where
  "createSendHashSQL = ''CREATE TABLE sendHash('' @
     ''  fpg INTEGER PRIMARY KEY,'' @
     ''  npg INT'' @
     '')''"

definition replicaPageCountSQL :: string where
  "replicaPageCountSQL = ''PRAGMA replica.page_count''"

definition setPageSizeSQL :: "int \<Rightarrow> string" where
  "setPageSizeSQL n = ''PRAGMA replica.page_size='' @ show_int n"

definition readSchemaSQL :: string where
  "readSchemaSQL = ''SELECT * FROM replica.sqlite_schema''"

definition beginImmediateSQL :: string where
  "beginImmediateSQL = ''BEGIN IMMEDIATE''"

definition replicaJournalModeSQL :: string where
  "replicaJournalModeSQL = ''PRAGMA replica.journal_mode''"

definition replicaPageSizeSQL :: string where
  "replicaPageSizeSQL = ''PRAGMA replica.page_size''"

definition allPagesSQL :: string where
  "allPagesSQL = ''WITH RECURSIVE c(n) AS'' @
     ''  (VALUES(1) UNION ALL SELECT n+1 FROM c WHERE n<?)'' @
     ''INSERT INTO sendHash(fpg, npg) SELECT n, 1 FROM c''"

definition firstPageSQL :: string where
  "firstPageSQL = ''INSERT INTO sendHash VALUES(1,1)''"

definition commitSQL :: string where
  "commitSQL = ''COMMIT''"

section \<open>The state of the role\<close>

record 'w replica = "'w rsync" +
  jMode :: byte
  pIns :: "stmt option"

type_synonym ('w, 'a) r_gom = "('w replica, 'a) gom"

section \<open>Starting\<close>

definition replica_commCheck :: "'w env \<Rightarrow> ('w, unit) r_gom" where
  "replica_commCheck E =
     seq (gets (\<lambda>s. ''replica zOrigin='' @ fmt_q E (originPath s) @ '' zReplica='' @
            fmt_q E (replicaPath s) @ '' isRemote=1 protocol='' @ show_int (protocol s))) (\<lambda>msg.
     seq (wr_message ReplicaMsg (bytes_of msg)) (\<lambda>_.
     seq (wr_byte ReplicaEnd) (\<lambda>_.
     seq (w_op Flush) (\<lambda>err.
     stop err))))"

section \<open>ORIGIN_BEGIN\<close>

text \<open>The reply that proposes the replica's own, older protocol.\<close>

definition propose_protocol :: "('w, unit) r_gom" where
  "propose_protocol =
     seq (wr_byte ReplicaBegin) (\<lambda>_.
     seq (gets protocol) (\<lambda>p.
     seq (wr_byte (word_of_int p)) (\<lambda>_.
     wr_flush)))"

text \<open>Attach the replica file, in the encoding of the file.\<close>

definition attach_replica :: "'w env \<Rightarrow> ('w, unit) r_gom" where
  "attach_replica E =
     seq (gets (\<lambda>s. attachSQL (replicaPath s))) (\<lambda>sql.
     seq (try_err (run E sql [])) (\<lambda>_.
     seq (gets wrongEnc) (\<lambda>wrong1.
     cond wrong1
       (seq (modify (\<lambda>s. s\<lparr>wrongEnc := False\<rparr>)) (\<lambda>_.
        seq (try_err (run E utf16leSQL [])) (\<lambda>_.
        seq (try_err (run E sql [])) (\<lambda>_.
        seq (gets wrongEnc) (\<lambda>wrong2.
        cond wrong2
          (seq (modify (\<lambda>s. s\<lparr>wrongEnc := False\<rparr>)) (\<lambda>_.
           seq (try_err (run E utf16beSQL [])) (\<lambda>_.
           seq (try_err (run E sql [])) (\<lambda>_.
           seq (gets wrongEnc) (\<lambda>wrong3.
           cond wrong3
             (fail ReplicaError ''cannot attach replica: unsupported text encoding''))))))))))))))"

definition init_empty_replica :: "'w env \<Rightarrow> ('w, unit) r_gom" where
  "init_empty_replica E =
     seq (gets pageSize) (\<lambda>sz.
     seq (try_err (run E (setPageSizeSQL sz) [])) (\<lambda>_.
     try_err (run E readSchemaSQL [])))"

definition check_replica_wal :: "'w env \<Rightarrow> u32 \<Rightarrow> ('w, unit) r_gom" where
  "check_replica_wal E nRPage =
     seq (try_val (runReturnText E replicaJournalModeSQL)) (\<lambda>mode.
     if mode \<noteq> ''wal'' then
       seq (gets walOnly) (\<lambda>wal.
       seq (cond (wal \<and> nRPage > 0) (fail ReplicaError ''replica is not in WAL mode'')) (\<lambda>_.
       modify (\<lambda>s. s\<lparr>jMode := 1\<rparr>)))
     else modify (\<lambda>s. s\<lparr>jMode := 2\<rparr>))"

definition size_mismatch :: "int \<Rightarrow> u32 \<Rightarrow> string" where
  "size_mismatch osz rsz = ''page size mismatch; origin is '' @ show_int osz @
     '' bytes and replica is '' @ show_nat (unat rsz) @ '' bytes''"

text \<open>The entries of the first round: every page alone, or page 1 and chunks of the rest.\<close>

definition first_entries :: "'w env \<Rightarrow> u32 \<Rightarrow> ('w, unit) r_gom" where
  "first_entries E nRPage =
     seq (gets protocol) (\<lambda>p.
     if p < 2 \<or> nRPage \<le> 100 then
       try_err (run E allPagesSQL [SInt (uint nRPage)])
     else
       seq (try_err (run E firstPageSQL [])) (\<lambda>_.
       try_err (subdivideHashRange E 2 (nRPage - 1))))"

definition open_replica :: "'w env \<Rightarrow> ('w, unit) r_gom" where
  "open_replica E =
     seq (openDb E '':memory:'') (\<lambda>err.
     seq (case err of
            None \<Rightarrow> ret ()
          | Some e \<Rightarrow> fail ReplicaError (''cannot open in-memory database: '' @ err_text e)) (\<lambda>_.
     seq (try_err (run E writableSchemaSQL [])) (\<lambda>_.
     seq (attach_replica E) (\<lambda>_.
     seq (try_err (run E createSendHashSQL [])) (\<lambda>_.
     seq (try_val (runReturnUInt E replicaPageCountSQL)) (\<lambda>nRPage.
     seq (cond (nRPage = 0) (init_empty_replica E)) (\<lambda>_.
     seq (try_err (run E beginImmediateSQL [])) (\<lambda>_.
     seq (check_replica_wal E nRPage) (\<lambda>_.
     seq (try_val (runReturnUInt E replicaPageCountSQL)) (\<lambda>nRPage2.
     seq (try_val (runReturnUInt E replicaPageSizeSQL)) (\<lambda>szRPage.
     seq (gets pageSize) (\<lambda>sz.
     seq (cond (int (unat szRPage) \<noteq> sz) (fail ReplicaError (size_mismatch sz szRPage))) (\<lambda>_.
     seq (first_entries E nRPage2) (\<lambda>_.
     try_err (sendHashMessages E 1 1)))))))))))))))"

definition on_origin_begin :: "'w env \<Rightarrow> ('w, unit) r_gom" where
  "on_origin_begin E =
     seq (try_err (closeDb E)) (\<lambda>_.
     seq (modify (\<lambda>s. s\<lparr>pIns := None\<rparr>)) (\<lambda>_.
     seq rd_byte (\<lambda>proto.
     seq rd_pow2 (\<lambda>szOPage.
     seq rd_u32 (\<lambda>nOPage.
     seq (gets protocol) (\<lambda>p.
     if int (unat proto) > p then propose_protocol
     else
       seq (modify (\<lambda>s. s\<lparr>protocol := int (unat proto), pageCount := nOPage, pageSize := szOPage\<rparr>)) (\<lambda>_.
       open_replica E)))))))"

section \<open>The other messages of the origin\<close>

definition on_origin_detail :: "'w env \<Rightarrow> ('w, unit) r_gom" where
  "on_origin_detail E =
     seq rd_u32 (\<lambda>fpg.
     seq rd_u32 (\<lambda>npg.
     try_err (subdivideHashRange E fpg npg)))"

definition on_origin_ready :: "'w env \<Rightarrow> ('w, unit) r_gom" where
  "on_origin_ready E = try_err (sendHashMessages E 0 0)"

text \<open>Drop every page beyond the origin's count: NULL at the page after the last.\<close>

definition truncate_replica :: "'w env \<Rightarrow> stmt option \<Rightarrow> u32 \<Rightarrow> ('w, unit) r_gom" where
  "truncate_replica E v nOPage =
     cond (nOPage < 0xffffffff)
       (seq (stmt_Exec E v [SInt (uint nOPage + 1), SNull]) (\<lambda>err.
        case err of
          None \<Rightarrow> ret ()
        | Some e \<Rightarrow>
            fail ReplicaError (''SQL statement ['' @ insertPageSQL @ ''] failed (pgno='' @
              show_nat (unat (nOPage + 1)) @ '', data=NULL): '' @ err_text e)))"

definition on_origin_txn :: "'w env \<Rightarrow> ('w, unit) r_gom" where
  "on_origin_txn E =
     seq rd_u32 (\<lambda>nOPage.
     seq (gets pIns) (\<lambda>v.
     if v = None then try_err (run E commitSQL [])
     else
       seq (truncate_replica E v nOPage) (\<lambda>_.
       seq (modify (\<lambda>s. s\<lparr>pageCount := nOPage\<rparr>)) (\<lambda>_.
       try_err (run E commitSQL [])))))"

text \<open>Keep a replica that was in WAL mode in WAL mode.\<close>

definition wal_header :: "u32 \<Rightarrow> byte \<Rightarrow> bytes \<Rightarrow> bytes" where
  "wal_header pgno jm page =
     (if pgno = 1 \<and> jm = 2 \<and> page ! 18 = 1 then page[18 := 2, 19 := 2] else page)"

definition on_origin_page :: "'w env \<Rightarrow> ('w, unit) r_gom" where
  "on_origin_page E =
     seq rd_u32 (\<lambda>pgno.
     seq (gets pIns) (\<lambda>v.
     seq (cond (v = None)
            (seq (try_val (prepare E insertPageSQL)) (\<lambda>st.
             seq (modify (\<lambda>s. s\<lparr>pIns := Some st\<rparr>)) (\<lambda>_.
             push_defer ClosePIns)))) (\<lambda>_.
     seq (gets pageSize) (\<lambda>sz.
     seq (rd_bytes sz) (\<lambda>page.
     seq (gets jMode) (\<lambda>jm.
     seq (cond (pgno = 1 \<and> jm = 2 \<and> length page \<le> 18) (panic ''index out of range'')) (\<lambda>_.
     seq (cond (pgno = 1 \<and> jm = 2 \<and> page ! 18 = 1 \<and> length page \<le> 19) (panic ''index out of range'')) (\<lambda>_.
     seq (modify (\<lambda>s. s\<lparr>pageUpdates := pageUpdates s + 1\<rparr>)) (\<lambda>_.
     seq (gets pIns) (\<lambda>v'.
     seq (stmt_Exec E v' [SInt (uint pgno), SBlob (wal_header pgno jm page)]) (\<lambda>err.
     case err of
       None \<Rightarrow> ret ()
     | Some e \<Rightarrow>
         fail ReplicaError (''SQL statement ['' @ insertPageSQL @ ''] failed (pgno='' @
           show_nat (unat pgno) @ ''): '' @ err_text e))))))))))))"

text \<open>The switch on the message byte.\<close>

definition replica_handle :: "'w env \<Rightarrow> byte \<Rightarrow> ('w, unit) r_gom" where
  "replica_handle E c =
     (if c = OriginMsg then seq rd_message (\<lambda>_. ret ())
      else if c = OriginError then seq rd_message (\<lambda>msg. stop (Some (peer_error ''origin'' msg)))
      else if c = OriginEnd then stop None
      else if c = OriginBegin then on_origin_begin E
      else if c = OriginDetail then on_origin_detail E
      else if c = OriginReady then on_origin_ready E
      else if c = OriginTxn then on_origin_txn E
      else if c = OriginPage then on_origin_page E
      else fail ReplicaError (unknown_message c))"

definition replica_step :: "'w env \<Rightarrow> ('w, unit) r_gom" where
  "replica_step E = seq next_message (replica_handle E)"

primrec replica_loop :: "'w env \<Rightarrow> nat \<Rightarrow> ('w, unit) r_gom" where
  "replica_loop E 0 = panic outOfFuel"
| "replica_loop E (Suc n) = seq (replica_step E) (\<lambda>_. replica_loop E n)"

definition replica_setup :: "'w env \<Rightarrow> ('w, unit) r_gom" where
  "replica_setup E =
     seq (modify (\<lambda>s. if protocol s \<le> 0 then s\<lparr>protocol := ProtocolVersion\<rparr> else s)) (\<lambda>_.
     push_defer CloseDb)"

definition replica_body :: "'w env \<Rightarrow> ('w, unit) r_gom" where
  "replica_body E =
     seq (try_err (hash_Register E)) (\<lambda>_.
     seq (modify (\<lambda>s. s\<lparr>isReplica := True\<rparr>)) (\<lambda>_.
     seq (gets commCheck) (\<lambda>cc.
     if cc then replica_commCheck E
     else
       seq (replica_setup E) (\<lambda>_.
       seq (gets (\<lambda>s. Suc (length (r_avail (rs_r s))))) (\<lambda>n.
       replica_loop E n)))))"

definition replicaSide :: "'w env \<Rightarrow> ('w, unit) r_gom" where
  "replicaSide E = with_defers E pIns (replica_body E)"

definition replica_start :: "'w rsync \<Rightarrow> string \<Rightarrow> 'w replica" where
  "replica_start s path =
     rsync.extend (rsync.truncate (s\<lparr>replicaPath := path\<rparr>)) \<lparr>jMode = 0, pIns = None\<rparr>"

text \<open>\<open>Replica(ctx, rw, replicaPath, opts)\<close>\<close>

definition Replica ::
  "'w env \<Rightarrow> (ctx \<times> ctx) option \<Rightarrow> instream \<Rightarrow> outstream \<Rightarrow> string \<Rightarrow> Options option \<Rightarrow> 'w \<Rightarrow> bool \<Rightarrow>
   goerr option \<Rightarrow> (Stats \<times> goerr option) option \<times> 'w replica" where
  "Replica E cctx i out path opts w once once_err =
     (case replicaSide E (replica_start (newRsync cctx i out opts w once once_err) path) of
        (Return e, s) \<Rightarrow> (Some (stats s, e), s)
      | (Val _, s) \<Rightarrow> (Some (stats s, None), s)
      | (Panic p, s) \<Rightarrow> (None, s))"

end
