(* ===== verification/Database.thy ===== *)
theory Database
  imports Replica "HOL-Library.Multiset"
begin

text \<open>
  What the statements of the two roles mean, as far as the roles rely on it: documented behaviour of
  SQLite (sqlite_dbpage, recursive queries, PRAGMAs, transactions, ATTACH), stated on a database as
  a list of pages. \<open>odb\<close> is the origin's connection, \<open>rdb\<close> the replica's. The functions hash and agghash
  inside the statements are the ones of hash/sql.go. The locales say what an engine must do to be
  used: its successful replies agree with these meanings, failed ones change nothing. The fault-free
  locales add that a statement with a meaning succeeds. A reference engine interprets all of them.
\<close>

section \<open>Pages and hashes\<close>

type_synonym pages = "bytes list"

text \<open>Row \<open>p\<close> of sqlite_dbpage.\<close>

definition page_at :: "pages \<Rightarrow> int \<Rightarrow> bytes option" where
  "page_at ps p = (if 1 \<le> p \<and> p \<le> int (length ps) then Some (ps ! nat (p - 1)) else None)"

text \<open>\<open>hash(data)\<close> and \<open>agghash(...)\<close> as the registered functions compute them.\<close>

definition sql_hash :: "bytes \<Rightarrow> bytes" where
  "sql_hash d = (case hashFunc [VBytes d] of Some (Inr (VBytes h)) \<Rightarrow> h | _ \<Rightarrow> [])"

definition sql_agghash :: "bytes list \<Rightarrow> bytes option" where
  "sql_agghash ds =
     (case agg_eval MakeAggregate (\<lambda>a r. Step a [r]) WindowValue (map VBytes ds) of
        Some (Inr (VBytes h)) \<Rightarrow> Some h
      | _ \<Rightarrow> None)"

text \<open>The pages \<open>a..b\<close> that exist, in order; the recursive query always generates \<open>a\<close>.\<close>

definition pages_in :: "pages \<Rightarrow> int \<Rightarrow> int \<Rightarrow> bytes list" where
  "pages_in ps a b = List.map_filter (page_at ps) [a..max a b]"

text \<open>The hash of \<open>n\<close> pages from \<open>a\<close>: of the page itself, or of the pages' hashes.\<close>

definition range_hash :: "pages \<Rightarrow> int \<Rightarrow> int \<Rightarrow> bytes option" where
  "range_hash ps a n =
     (if n = 1 then map_option sql_hash (page_at ps a)
      else sql_agghash (map sql_hash (pages_in ps a (a + n - 1))))"

text \<open>
  A commit stamps page 1: it sets the file change counter (bytes 24 to 27), the version-valid-for number
  (92 to 95) and the number of the SQLite library (96 to 99), and no other byte. The repository's tests
  name the same bytes (replica_test.go, TestReplicaFullCopy). \<open>restamped ps qs\<close>: the pages \<open>qs\<close> are
  \<open>ps\<close> but for the stamp.
\<close>

definition stamp_byte :: "nat \<Rightarrow> bool" where
  "stamp_byte i \<longleftrightarrow> 24 \<le> i \<and> i \<le> 27 \<or> 92 \<le> i \<and> i \<le> 99"

definition restamped_page :: "bytes \<Rightarrow> bytes \<Rightarrow> bool" where
  "restamped_page d e \<longleftrightarrow> length e = length d \<and> (\<forall>i < length d. stamp_byte i \<or> e ! i = d ! i)"

fun restamped :: "pages \<Rightarrow> pages \<Rightarrow> bool" where
  "restamped [] qs = (qs = [])"
| "restamped (d # ds) [] = False"
| "restamped (d # ds) (e # es) = (restamped_page d e \<and> es = ds)"

lemma restamped_page_refl [simp]: "restamped_page d d"
  by (simp add: restamped_page_def)

lemma restamped_refl [simp]: "restamped ps ps"
  by (cases ps) simp_all

lemma restamped_pages:
  assumes "restamped ps qs"
  shows "length qs = length ps" and "2 \<le> p \<Longrightarrow> page_at qs p = page_at ps p"
proof -
  show l: "length qs = length ps" using assms by (cases ps; cases qs) simp_all
  show "page_at qs p = page_at ps p" if "2 \<le> p"
    using assms that by (cases ps; cases qs) (auto simp: page_at_def nth_Cons split: nat.splits)
qed

section \<open>The origin's statements\<close>

record odb =
  o_pages :: pages
  o_psize :: int
  o_mode :: string
  o_bad :: "(int \<times> int) list option"

datatype ostmt =
  OBegin | OJournalMode | OPageCount | OPageSize | OCreateBad | OCheckHash int bytes
  | OCheckHashN int int bytes | OInsBad int int | OMultiBad | ODeleteMulti | OFillTail int int
  | ODeleteLock int | OPageData

text \<open>The text of a statement and the values bound to its parameters.\<close>

fun osql :: "ostmt \<Rightarrow> string" where
  "osql OBegin = beginSQL"
| "osql OJournalMode = journalModeSQL"
| "osql OPageCount = pageCountSQL"
| "osql OPageSize = pageSizeSQL"
| "osql OCreateBad = createBadHashSQL"
| "osql (OCheckHash p h) = checkHashSQL"
| "osql (OCheckHashN a b h) = checkHashNSQL"
| "osql (OInsBad p n) = insBadHashSQL"
| "osql OMultiBad = multiBadHashSQL"
| "osql ODeleteMulti = deleteMultiSQL"
| "osql (OFillTail a b) = fillTailSQL"
| "osql (ODeleteLock p) = deleteLockPageSQL"
| "osql OPageData = pageDataSQL"

fun oargs :: "ostmt \<Rightarrow> sqlval list" where
  "oargs (OCheckHash p h) = [SInt p, SBlob h]"
| "oargs (OCheckHashN a b h) = [SInt a, SInt b, SBlob h]"
| "oargs (OInsBad p n) = [SInt p, SInt n]"
| "oargs (OFillTail a b) = [SInt a, SInt b]"
| "oargs (ODeleteLock p) = [SInt p]"
| "oargs _ = []"

text \<open>Inserting rows with new keys; a key that is there already is an error.\<close>

definition insert_rows :: "(int \<times> int) list \<Rightarrow> (int \<times> int) list \<Rightarrow> (int \<times> int) list option" where
  "insert_rows new old =
     (if distinct (map fst new) \<and> set (map fst new) \<inter> set (map fst old) = {} then Some (old @ new) else None)"

definition sql_bool :: "bool \<Rightarrow> sqlval" where
  "sql_bool b = SInt (if b then 1 else 0)"

fun o_exec :: "ostmt \<Rightarrow> odb \<Rightarrow> odb option" where
  "o_exec OBegin d = Some d"
| "o_exec OCreateBad d = (if o_bad d = None then Some (d\<lparr>o_bad := Some []\<rparr>) else None)"
| "o_exec (OInsBad p n) d =
     Option.bind (o_bad d) (\<lambda>bad. map_option (\<lambda>b. d\<lparr>o_bad := Some b\<rparr>) (insert_rows [(p, n)] bad))"
| "o_exec ODeleteMulti d = map_option (\<lambda>bad. d\<lparr>o_bad := Some (filter (\<lambda>r. snd r \<le> 1) bad)\<rparr>) (o_bad d)"
| "o_exec (OFillTail a b) d =
     Option.bind (o_bad d) (\<lambda>bad. map_option (\<lambda>b. d\<lparr>o_bad := Some b\<rparr>)
       (insert_rows (map (\<lambda>n. (n, 1)) [a..max a b]) bad))"
| "o_exec (ODeleteLock p) d = map_option (\<lambda>bad. d\<lparr>o_bad := Some (filter (\<lambda>r. fst r \<noteq> p) bad)\<rparr>) (o_bad d)"
| "o_exec _ d = None"

fun o_rows :: "ostmt \<Rightarrow> odb \<Rightarrow> sqlval list list option" where
  "o_rows OJournalMode d = Some [[SText (o_mode d)]]"
| "o_rows OPageCount d = Some [[SInt (int (length (o_pages d)))]]"
| "o_rows OPageSize d = Some [[SInt (o_psize d)]]"
| "o_rows (OCheckHash p h) d =
     Some (case page_at (o_pages d) p of None \<Rightarrow> [] | Some data \<Rightarrow> [[sql_bool (sql_hash data = h)]])"
| "o_rows (OCheckHashN a b h) d =
     Some [[case sql_agghash (map sql_hash (pages_in (o_pages d) a b)) of
              None \<Rightarrow> SNull | Some h' \<Rightarrow> sql_bool (h' = h)]]"
| "o_rows OMultiBad d =
     map_option (\<lambda>bad. map (\<lambda>r. [SInt (fst r), SInt (snd r)]) (filter (\<lambda>r. snd r > 1) bad)) (o_bad d)"
| "o_rows OPageData d =
     map_option (\<lambda>bad. List.map_filter
       (\<lambda>r. map_option (\<lambda>data. [SInt (fst r), SBlob data]) (page_at (o_pages d) (fst r))) bad) (o_bad d)"
| "o_rows _ d = None"

section \<open>The replica's statements\<close>

datatype encoding = UTF8 | UTF16LE | UTF16BE

text \<open>
  The file behind the path \<open>r_path\<close> (its committed pages, page size, journal mode and encoding, and
  what page 1 of a new database looks like) and the connection: the encoding of the in-memory
  database, whether the file is attached, whether a transaction is open, the pages the connection
  sees, and its table sendHash.
\<close>

record rdb =
  r_path :: string
  r_file :: pages
  r_psize :: int
  r_mode :: string
  r_enc :: encoding
  r_fresh :: "int \<Rightarrow> bytes"
  r_mem :: encoding
  r_attached :: bool
  r_txn :: bool
  r_work :: pages
  r_send :: "(int \<times> int) list option"

datatype rstmt =
  RWritable | RAttach string | REncodingLE | REncodingBE | RCreateSend | RPageCount
  | RSetPageSize int | RReadSchema | RBeginImm | RJournalMode | RPageSize | RAllPages int | RFirstPage
  | RSubdivide int int int int int | RSendHash | RDeleteSend | RInsertPage int bytes
  | RTruncate int | RCommit

fun rsql :: "rstmt \<Rightarrow> string" where
  "rsql RWritable = writableSchemaSQL"
| "rsql (RAttach path) = attachSQL path"
| "rsql REncodingLE = utf16leSQL"
| "rsql REncodingBE = utf16beSQL"
| "rsql RCreateSend = createSendHashSQL"
| "rsql RPageCount = replicaPageCountSQL"
| "rsql (RSetPageSize n) = setPageSizeSQL n"
| "rsql RReadSchema = readSchemaSQL"
| "rsql RBeginImm = beginImmediateSQL"
| "rsql RJournalMode = replicaJournalModeSQL"
| "rsql RPageSize = replicaPageSizeSQL"
| "rsql (RAllPages n) = allPagesSQL"
| "rsql RFirstPage = firstPageSQL"
| "rsql (RSubdivide a k b e k') = subdivideSQL"
| "rsql RSendHash = sendHashSQL"
| "rsql RDeleteSend = deleteSendHashSQL"
| "rsql (RInsertPage p d) = insertPageSQL"
| "rsql (RTruncate p) = insertPageSQL"
| "rsql RCommit = commitSQL"

fun rargs :: "rstmt \<Rightarrow> sqlval list" where
  "rargs (RAllPages n) = [SInt n]"
| "rargs (RSubdivide a k b e k') = [SInt a, SInt k, SInt b, SInt e, SInt k']"
| "rargs (RInsertPage p d) = [SInt p, SBlob d]"
| "rargs (RTruncate p) = [SInt p, SNull]"
| "rargs _ = []"

definition valid_page_size :: "int \<Rightarrow> bool" where
  "valid_page_size n \<longleftrightarrow> n \<in> set [512, 1024, 2048, 4096, 8192, 16384, 32768, 65536]"

text \<open>REPLACE INTO: a row takes the place of the row with its key.\<close>

definition replace_rows :: "(int \<times> int) list \<Rightarrow> (int \<times> int) list \<Rightarrow> (int \<times> int) list" where
  "replace_rows new old = filter (\<lambda>r. fst r \<notin> fst ` set new) old @ new"

text \<open>Writing page \<open>p\<close>; the file grows by pages of zeros when \<open>p\<close> is beyond its end.\<close>

definition write_page :: "int \<Rightarrow> int \<Rightarrow> bytes \<Rightarrow> pages \<Rightarrow> pages" where
  "write_page sz p data ps =
     (ps @ replicate (nat p - length ps) (replicate (nat sz) 0))[nat (p - 1) := data]"

text \<open>The outcome of a statement: done, refused for the encoding of the attached file, or failed.\<close>

datatype 'a exec_result = Done 'a | WrongEncoding | Failed

fun option_done :: "'a option \<Rightarrow> 'a exec_result" where
  "option_done None = Failed"
| "option_done (Some x) = Done x"

definition attach_file :: "string \<Rightarrow> rdb \<Rightarrow> rdb exec_result" where
  "attach_file path d =
     (if r_attached d \<or> path \<noteq> r_path d then Failed
      else if r_file d \<noteq> [] \<and> r_enc d \<noteq> r_mem d then WrongEncoding
      else Done (d\<lparr>r_attached := True, r_work := r_file d\<rparr>))"

fun r_exec :: "rstmt \<Rightarrow> rdb \<Rightarrow> rdb exec_result" where
  "r_exec RWritable d = Done d"
| "r_exec (RAttach path) d = attach_file path d"
| "r_exec REncodingLE d = Done (if r_attached d then d else d\<lparr>r_mem := UTF16LE\<rparr>)"
| "r_exec REncodingBE d = Done (if r_attached d then d else d\<lparr>r_mem := UTF16BE\<rparr>)"
| "r_exec RCreateSend d = (if r_send d = None then Done (d\<lparr>r_send := Some []\<rparr>) else Failed)"
| "r_exec (RSetPageSize n) d =
     (if \<not> r_attached d then Failed
      else if r_work d = [] \<and> \<not> r_txn d \<and> valid_page_size n then Done (d\<lparr>r_psize := n\<rparr>) else Done d)"
| "r_exec RReadSchema d = (if r_attached d then Done d else Failed)"
| "r_exec RBeginImm d =
     (if \<not> r_attached d \<or> r_txn d then Failed
      else Done (d\<lparr>r_txn := True, r_work := (if r_work d = [] then [r_fresh d (r_psize d)] else r_work d)\<rparr>))"
| "r_exec (RAllPages n) d =
     option_done (Option.bind (r_send d) (\<lambda>q. map_option (\<lambda>q'. d\<lparr>r_send := Some q'\<rparr>)
       (insert_rows (map (\<lambda>n. (n, 1)) [1..max 1 n]) q)))"
| "r_exec RFirstPage d =
     option_done (Option.bind (r_send d) (\<lambda>q. map_option (\<lambda>q'. d\<lparr>r_send := Some q'\<rparr>)
       (insert_rows [(1, 1)] q)))"
| "r_exec (RSubdivide a k b e k') d =
     (if k \<le> 0 then Failed
      else option_done (map_option (\<lambda>q. d\<lparr>r_send := Some (replace_rows (subdivide_rows a k b e k') q)\<rparr>)
             (r_send d)))"
| "r_exec RDeleteSend d = option_done (map_option (\<lambda>q. d\<lparr>r_send := Some []\<rparr>) (r_send d))"
| "r_exec (RInsertPage p data) d =
     (if r_txn d \<and> 1 \<le> p \<and> int (length data) = r_psize d
      then Done (d\<lparr>r_work := write_page (r_psize d) p data (r_work d)\<rparr>) else Failed)"
| "r_exec (RTruncate p) d =
     (if r_txn d \<and> 2 \<le> p then Done (d\<lparr>r_work := take (nat (p - 1)) (r_work d)\<rparr>) else Failed)"
| "r_exec _ d = Failed"

text \<open>
  COMMIT is the one statement whose outcome is not a function of the state: the file and the connection
  then show the pages of the transaction, restamped. \<open>r_effect\<close>: what a successful statement may do.
\<close>

definition commits :: "rdb \<Rightarrow> rdb \<Rightarrow> bool" where
  "commits d d' \<longleftrightarrow> r_txn d \<and> restamped (r_work d) (r_file d') \<and>
     d' = d\<lparr>r_file := r_file d', r_work := r_file d', r_txn := False\<rparr>"

definition r_effect :: "rstmt \<Rightarrow> rdb \<Rightarrow> rdb \<Rightarrow> bool" where
  "r_effect st d d' \<longleftrightarrow> (if st = RCommit then commits d d' else r_exec st d = Done d')"

lemma r_effect_simps [simp]:
  "r_effect RCommit d d' = commits d d'"
  "st \<noteq> RCommit \<Longrightarrow> r_effect st d d' = (r_exec st d = Done d')"
  by (simp_all add: r_effect_def)

lemma commitsE:
  assumes "commits d d'"
  obtains q where "r_txn d" "restamped (r_work d) q" "d' = d\<lparr>r_file := q, r_work := q, r_txn := False\<rparr>"
  using assms unfolding commits_def by blast

lemma commitsI: "r_txn d \<Longrightarrow> restamped (r_work d) q \<Longrightarrow> commits d (d\<lparr>r_file := q, r_work := q, r_txn := False\<rparr>)"
  by (simp add: commits_def)

fun r_rows :: "rstmt \<Rightarrow> rdb \<Rightarrow> sqlval list list option" where
  "r_rows RPageCount d = (if r_attached d then Some [[SInt (int (length (r_work d)))]] else None)"
| "r_rows RJournalMode d = (if r_attached d then Some [[SText (r_mode d)]] else None)"
| "r_rows RPageSize d = (if r_attached d then Some [[SInt (r_psize d)]] else None)"
| "r_rows RSendHash d =
     (if r_attached d then
        map_option (\<lambda>q. map (\<lambda>r. [case range_hash (r_work d) (fst r) (snd r) of
             None \<Rightarrow> SNull | Some h \<Rightarrow> SBlob h, SInt (fst r), SInt (snd r)]) (sort_key fst q)) (r_send d)
      else None)"
| "r_rows _ d = None"

text \<open>Closing the connection ends an open transaction without its changes.\<close>

definition r_close :: "rdb \<Rightarrow> rdb" where
  "r_close d = d\<lparr>r_mem := UTF8, r_attached := False, r_txn := False, r_work := [], r_send := None\<rparr>"

section \<open>Engines\<close>

text \<open>
  An engine under the origin's connection: \<open>odb_of w\<close> is the database it shows in the state \<open>w\<close>.
  Queries without ORDER BY may return their rows in any order.
\<close>

locale origin_engine =
  fixes E :: "'w env" and odb_of :: "'w \<Rightarrow> odb"
  assumes o_exec_ok: "e_exec E w (osql st) (oargs st) = (w', None) \<Longrightarrow> o_exec st (odb_of w) = Some (odb_of w')"
    and o_exec_err: "e_exec E w (osql st) (oargs st) = (w', Some e) \<Longrightarrow> odb_of w' = odb_of w"
    and o_query: "e_query E w (osql st) (oargs st) = (w', x) \<Longrightarrow> odb_of w' = odb_of w"
    and o_query_rows: "e_query E w (osql st) (oargs st) = (w', Inr rs) \<Longrightarrow>
      \<exists>rows. o_rows st (odb_of w) = Some rows \<and> mset (rs_rows rs) \<subseteq># mset rows \<and>
        (rs_err rs = None \<longrightarrow> mset (rs_rows rs) = mset rows)"
    and o_open: "e_open E w path = (w', None) \<Longrightarrow> odb_of w' = odb_of w\<lparr>o_bad := None\<rparr>"
    and o_prepare: "odb_of (fst (e_prepare E w sql)) = odb_of w"
    and o_stmt_close: "odb_of (fst (e_stmt_close E w sql)) = odb_of w"
    and o_rows_close: "odb_of (fst (e_rows_close E w)) = odb_of w"
    and o_stat: "odb_of (fst (e_stat E w path)) = odb_of w"
    and o_scalar: "odb_of (fst (e_scalar E w name n)) = odb_of w"
    and o_aggregate: "odb_of (fst (e_aggregate E w name n det)) = odb_of w"

text \<open>An engine without faults: what has a meaning succeeds.\<close>

locale sound_origin_engine = origin_engine +
  assumes o_exec_total: "o_exec st (odb_of w) \<noteq> None \<Longrightarrow> snd (e_exec E w (osql st) (oargs st)) = None"
    and o_query_total: "o_rows st (odb_of w) \<noteq> None \<Longrightarrow>
      \<exists>rs. snd (e_query E w (osql st) (oargs st)) = Inr rs \<and> rs_err rs = None"
    and o_open_total: "snd (e_open E w path) = None"
    and o_stat_total: "snd (e_stat E w path) = None"
    and o_prepare_total: "snd (e_prepare E w sql) = None"
    and o_rows_close_total: "snd (e_rows_close E w) = None"
    and o_stmt_close_total: "snd (e_stmt_close E w sql) = None"
    and o_close_total: "snd (e_close E w) = None"
    and o_scalar_total: "snd (e_scalar E w name n) = None"
    and o_aggregate_total: "snd (e_aggregate E w name n det) = None"

text \<open>
  An engine under the replica's connection. A transaction that fails to commit may leave either
  content in the file, the new one restamped; any other failed statement leaves everything as it was.
\<close>

locale replica_engine =
  fixes E :: "'w env" and rdb_of :: "'w \<Rightarrow> rdb"
  assumes r_exec_ok: "e_exec E w (rsql st) (rargs st) = (w', None) \<Longrightarrow> r_effect st (rdb_of w) (rdb_of w')"
    and r_exec_err: "e_exec E w (rsql st) (rargs st) = (w', Some e) \<Longrightarrow>
      rdb_of w' = rdb_of w \<or> (st = RCommit \<and> restamped (r_work (rdb_of w)) (r_file (rdb_of w')))"
    and r_query: "e_query E w (rsql st) (rargs st) = (w', x) \<Longrightarrow> rdb_of w' = rdb_of w"
    and r_query_rows: "e_query E w (rsql st) (rargs st) = (w', Inr rs) \<Longrightarrow>
      \<exists>rows. r_rows st (rdb_of w) = Some rows \<and> prefix (rs_rows rs) rows \<and>
        (rs_err rs = None \<longrightarrow> rs_rows rs = rows)"
    and r_open: "e_open E w path = (w', r) \<Longrightarrow> rdb_of w' = r_close (rdb_of w)"
    and r_close: "rdb_of (fst (e_close E w)) = r_close (rdb_of w)"
    and r_prepare: "rdb_of (fst (e_prepare E w sql)) = rdb_of w"
    and r_stmt_close: "rdb_of (fst (e_stmt_close E w sql)) = rdb_of w"
    and r_rows_close: "rdb_of (fst (e_rows_close E w)) = rdb_of w"
    and r_scalar: "rdb_of (fst (e_scalar E w name n)) = rdb_of w"
    and r_aggregate: "rdb_of (fst (e_aggregate E w name n det)) = rdb_of w"

locale sound_replica_engine = replica_engine +
  assumes r_exec_total: "r_effect st (rdb_of w) d \<Longrightarrow> snd (e_exec E w (rsql st) (rargs st)) = None"
    and r_exec_encoding: "r_exec st (rdb_of w) = WrongEncoding \<Longrightarrow>
      \<exists>e. snd (e_exec E w (rsql st) (rargs st)) = Some e \<and> rdb_of (fst (e_exec E w (rsql st) (rargs st))) = rdb_of w \<and>
        contains (err_text e) ''must use the same text encoding''"
    and r_query_total: "r_rows st (rdb_of w) \<noteq> None \<Longrightarrow>
      \<exists>rs. snd (e_query E w (rsql st) (rargs st)) = Inr rs \<and> rs_err rs = None"
    and r_open_total: "snd (e_open E w path) = None"
    and r_prepare_total: "snd (e_prepare E w sql) = None"
    and r_rows_close_total: "snd (e_rows_close E w) = None"
    and r_stmt_close_total: "snd (e_stmt_close E w sql) = None"
    and r_close_total: "snd (e_close E w) = None"
    and r_scalar_total: "snd (e_scalar E w name n) = None"
    and r_aggregate_total: "snd (e_aggregate E w name n det) = None"

end
