(* ===== verification/Protocol.thy ===== *)
theory Protocol
  imports Database
begin

text \<open>
  The abstract specification of the protocol: what each role does with one message, on databases and
  messages instead of statements, buffers and bytes. \<open>o_spec\<close> is the origin's reaction (a relation,
  because SQL leaves the order of some rows open), \<open>r_spec\<close> the replica's (a relation, because a commit
  leaves its stamp open), \<open>psys_step\<close> the two roles with
  the messages in flight between them.
\<close>

section \<open>Messages\<close>

datatype omsg = MBegin byte int u32 | MDetail u32 u32 | MReady | MPage u32 bytes | MTxn u32 | MEnd

datatype rmsg = NPropose byte | NConfig u32 u32 | NHash bytes | NReady

definition pow2_byte :: "int \<Rightarrow> byte" where
  "pow2_byte v = of_nat (log2_loop v 0)"

fun enc_omsg :: "omsg \<Rightarrow> bytes" where
  "enc_omsg (MBegin p sz n) = OriginBegin # p # pow2_byte sz # put_u32 n"
| "enc_omsg (MDetail a k) = OriginDetail # put_u32 a @ put_u32 k"
| "enc_omsg MReady = [OriginReady]"
| "enc_omsg (MPage p d) = OriginPage # put_u32 p @ d"
| "enc_omsg (MTxn n) = OriginTxn # put_u32 n"
| "enc_omsg MEnd = [OriginEnd]"

fun enc_rmsg :: "rmsg \<Rightarrow> bytes" where
  "enc_rmsg (NPropose p) = [ReplicaBegin, p]"
| "enc_rmsg (NConfig a k) = ReplicaConfig # put_u32 a @ put_u32 k"
| "enc_rmsg (NHash h) = ReplicaHash # h"
| "enc_rmsg NReady = [ReplicaReady]"

section \<open>The origin\<close>

record ospec =
  sp_db :: odb
  sp_proto :: int
  sp_count :: u32
  sp_i :: u32
  sp_n :: u32
  sp_mx :: u32
  sp_rounds :: u32
  sp_hashes :: u64
  sp_sent :: u32

definition lock_page :: "int \<Rightarrow> int" where
  "lock_page sz = 2 ^ 30 div sz + 1"

text \<open>A hash is compared with the hash of the range expected next.\<close>

definition hash_matches :: "pages \<Rightarrow> u32 \<Rightarrow> u32 \<Rightarrow> bytes \<Rightarrow> bool" where
  "hash_matches ps i n h = (range_hash ps (uint i) (max 1 (uint n)) = Some h)"

definition bad_rows :: "odb \<Rightarrow> (int \<times> int) list" where
  "bad_rows d = (case o_bad d of None \<Rightarrow> [] | Some b \<Rightarrow> b)"

definition set_bad :: "(int \<times> int) list \<Rightarrow> ospec \<Rightarrow> ospec" where
  "set_bad b a = a\<lparr>sp_db := (sp_db a)\<lparr>o_bad := Some b\<rparr>\<rparr>"

definition next_expected :: "ospec \<Rightarrow> ospec" where
  "next_expected a =
     a\<lparr>sp_mx := (if sp_i a + sp_n a > sp_mx a then sp_i a + sp_n a else sp_mx a),
       sp_i := sp_i a + sp_n a, sp_hashes := sp_hashes a + 1\<rparr>"

text \<open>The pages streamed at the end: those of badHash that exist.\<close>

definition page_msgs :: "pages \<Rightarrow> (int \<times> int) list \<Rightarrow> omsg list" where
  "page_msgs ps rows = List.map_filter
     (\<lambda>r. map_option (\<lambda>d. MPage (word_of_int (fst r)) d) (page_at ps (fst r))) rows"

definition detail_msgs :: "(int \<times> int) list \<Rightarrow> omsg list" where
  "detail_msgs rows = map (\<lambda>r. MDetail (word_of_int (fst r)) (word_of_int (snd r))) rows"

definition tail_rows :: "ospec \<Rightarrow> (int \<times> int) list" where
  "tail_rows a = (if sp_mx a \<le> sp_count a
     then map (\<lambda>n. (n, 1)) [uint (sp_mx a)..uint (sp_count a)] else [])"

inductive o_spec :: "ospec \<Rightarrow> rmsg \<Rightarrow> ospec \<Rightarrow> omsg list \<Rightarrow> bool" where
  propose: "int (unat p) < sp_proto a \<Longrightarrow>
     o_spec a (NPropose p) (a\<lparr>sp_proto := int (unat p)\<rparr>) [MBegin p (o_psize (sp_db a)) (sp_count a)]"
| config: "o_spec a (NConfig i n) (a\<lparr>sp_i := i, sp_n := n\<rparr>) []"
| hash_match: "length h = 20 \<Longrightarrow> hash_matches (o_pages (sp_db a)) (sp_i a) (sp_n a) h \<Longrightarrow>
     o_spec a (NHash h) (next_expected (set_bad (bad_rows (sp_db a)) a)) []"
| hash_differs: "length h = 20 \<Longrightarrow> \<not> hash_matches (o_pages (sp_db a)) (sp_i a) (sp_n a) h \<Longrightarrow>
     insert_rows [(uint (sp_i a), uint (sp_n a))] (bad_rows (sp_db a)) = Some bad \<Longrightarrow>
     o_spec a (NHash h) (next_expected (set_bad bad a)) []"
| ready_detail: "o_bad (sp_db a) = Some bad \<Longrightarrow>
     mset rows = mset (filter (\<lambda>r. snd r > 1) bad) \<Longrightarrow> rows \<noteq> [] \<Longrightarrow>
     o_spec a NReady (set_bad (filter (\<lambda>r. snd r \<le> 1) bad) (a\<lparr>sp_rounds := sp_rounds a + 1\<rparr>))
       (detail_msgs rows @ [MReady])"
| ready_pages: "o_bad (sp_db a) = Some bad \<Longrightarrow> filter (\<lambda>r. snd r > 1) bad = [] \<Longrightarrow>
     insert_rows (tail_rows a) bad = Some bad1 \<Longrightarrow>
     bad2 = filter (\<lambda>r. fst r \<noteq> lock_page (o_psize (sp_db a))) bad1 \<Longrightarrow>
     mset out = mset (page_msgs (o_pages (sp_db a)) bad2) \<Longrightarrow>
     o_spec a NReady (set_bad bad2 (a\<lparr>sp_rounds := sp_rounds a + 1,
         sp_sent := sp_sent a + of_nat (length out)\<rparr>))
       (out @ [MTxn (sp_count a), MEnd])"

inductive_cases o_spec_propose: "o_spec a (NPropose p) a' out"
inductive_cases o_spec_config: "o_spec a (NConfig i n) a' out"
inductive_cases o_spec_hash: "o_spec a (NHash h) a' out"
inductive_cases o_spec_ready: "o_spec a NReady a' out"

section \<open>The replica\<close>

record rspec =
  rq_db :: rdb
  rq_proto :: int
  rq_wal :: bool
  rq_size :: int
  rq_count :: u32
  rq_jm :: byte
  rq_ins :: bool
  rq_rounds :: u32
  rq_hashes :: u64
  rq_pages :: u32

text \<open>
  The messages for the entries of sendHash: a CONFIG when the entry is not the one expected, its hash
  when its pages exist.
\<close>

fun batch :: "pages \<Rightarrow> (int \<times> int) list \<Rightarrow> u32 \<times> u32 \<Rightarrow> rmsg list" where
  "batch ps [] ex = [NReady]"
| "batch ps ((f, k) # es) ex =
     (if word_of_int f \<noteq> fst ex \<or> word_of_int k \<noteq> snd ex then [NConfig (word_of_int f) (word_of_int k)] else []) @
     (case range_hash ps f k of None \<Rightarrow> [] | Some h \<Rightarrow> [NHash h]) @
     batch ps es (word_of_int f + word_of_int k, word_of_int k)"

definition send_batch :: "rspec \<Rightarrow> (int \<times> int) list \<Rightarrow> u32 \<times> u32 \<Rightarrow> rspec \<times> rmsg list" where
  "send_batch r q ex =
     (r\<lparr>rq_db := (rq_db r)\<lparr>r_send := Some []\<rparr>, rq_rounds := rq_rounds r + 1,
        rq_hashes := rq_hashes r + of_nat (length q)\<rparr>,
      batch (r_work (rq_db r)) (sort_key fst q) ex)"

text \<open>The entries of the first round for a replica of \<open>n\<close> pages.\<close>

definition first_rows :: "int \<Rightarrow> nat \<Rightarrow> (int \<times> int) list" where
  "first_rows proto n =
     (if proto < 2 \<or> n \<le> 100 then map (\<lambda>k. (k, 1)) [1..max 1 (int n)]
      else replace_rows (chunks 2 (word_of_int (int n - 1))) [(1, 1)])"

text \<open>The database of the connection once the file is attached and the transaction begun.\<close>

definition opened :: "int \<Rightarrow> rdb \<Rightarrow> rdb" where
  "opened sz d =
     (let d1 = r_close d;
          mem = (if r_file d = [] then UTF8 else r_enc d);
          psize = (if r_file d = [] \<and> valid_page_size sz then sz else r_psize d)
      in d1\<lparr>r_mem := mem, r_attached := True, r_psize := psize, r_txn := True,
            r_work := (if r_file d = [] then [r_fresh d psize] else r_file d), r_send := Some []\<rparr>)"

definition on_begin :: "rspec \<Rightarrow> byte \<Rightarrow> int \<Rightarrow> u32 \<Rightarrow> (rspec \<times> rmsg list) option" where
  "on_begin r p sz n =
     (if int (unat p) > rq_proto r then
        Some (r\<lparr>rq_db := r_close (rq_db r), rq_ins := False\<rparr>, [NPropose (word_of_int (rq_proto r))])
      else
        let d = opened sz (rq_db r);
            r1 = r\<lparr>rq_db := d, rq_proto := int (unat p), rq_size := sz, rq_count := n, rq_ins := False,
                   rq_jm := (if r_mode d = ''wal'' then 2 else 1)\<rparr>
        in if r_mode d \<noteq> ''wal'' \<and> rq_wal r \<and> r_file d \<noteq> [] \<or> r_psize d \<noteq> sz then None
           else Some (send_batch r1 (first_rows (int (unat p)) (length (r_work d))) (1, 1)))"

text \<open>
  Page 1 of a replica in WAL mode keeps the version numbers (bytes 18 and 19) of that mode: where a
  received page 1 says 1, both become 2.
\<close>

definition kept_wal :: "byte \<Rightarrow> bytes \<Rightarrow> bytes" where
  "kept_wal jm d = (if jm = 2 \<and> d ! 18 = 1 then d[18 := 2, 19 := 2] else d)"

text \<open>The code's edit of a received page does just that.\<close>

lemma wal_header_kept: "wal_header p jm d = (if p = 1 then kept_wal jm d else d)"
  by (simp add: wal_header_def kept_wal_def)

definition on_page :: "rspec \<Rightarrow> u32 \<Rightarrow> bytes \<Rightarrow> rspec option" where
  "on_page r p d =
     (case r_exec (RInsertPage (uint p) (if p = 1 then kept_wal (rq_jm r) d else d)) (rq_db r) of
        Done db' \<Rightarrow> Some (r\<lparr>rq_db := db', rq_ins := True, rq_pages := rq_pages r + 1\<rparr>)
      | _ \<Rightarrow> None)"

text \<open>
  The transaction with the pages beyond \<open>n\<close> dropped, when pages were received; the commit that follows
  leaves the stamp open, so the replica's reaction is a relation as well.
\<close>

definition on_txn :: "rspec \<Rightarrow> u32 \<Rightarrow> rspec option" where
  "on_txn r n =
     (if \<not> r_txn (rq_db r) then None
      else if \<not> rq_ins r then Some r
      else
        (case (if n < 0xffffffff then r_exec (RTruncate (uint n + 1)) (rq_db r) else Done (rq_db r)) of
           Done db1 \<Rightarrow> Some (r\<lparr>rq_db := db1, rq_count := n\<rparr>)
         | _ \<Rightarrow> None))"

inductive r_spec :: "rspec \<Rightarrow> omsg \<Rightarrow> rspec \<Rightarrow> rmsg list \<Rightarrow> bool" where
  begins: "on_begin r p sz n = Some (r', out) \<Longrightarrow> r_spec r (MBegin p sz n) r' out"
| detail: "r_send (rq_db r) = Some q \<Longrightarrow>
     r_spec r (MDetail f k) (r\<lparr>rq_db := (rq_db r)\<lparr>r_send := Some (replace_rows (chunks f k) q)\<rparr>\<rparr>) []"
| round: "r_send (rq_db r) = Some q \<Longrightarrow> send_batch r q (0, 0) = (r', out) \<Longrightarrow> r_spec r MReady r' out"
| page: "on_page r p d = Some r' \<Longrightarrow> r_spec r (MPage p d) r' []"
| txn: "on_txn r n = Some r1 \<Longrightarrow> commits (rq_db r1) d \<Longrightarrow> r_spec r (MTxn n) (r1\<lparr>rq_db := d\<rparr>) []"

inductive_simps r_spec_simps [simp]:
  "r_spec r (MBegin p sz n) r' out" "r_spec r (MDetail f k) r' out" "r_spec r MReady r' out"
  "r_spec r (MPage p d) r' out" "r_spec r (MTxn n) r' out" "r_spec r MEnd r' out"

section \<open>The two roles\<close>

text \<open>
  The messages in flight are queues; \<open>ended\<close> once the replica has read ORIGIN_END; \<open>said\<close> is the history
  of what the origin has sent.
\<close>

record psys =
  p_o :: ospec
  p_r :: rspec
  to_o :: "rmsg list"
  to_r :: "omsg list"
  ended :: bool
  said :: "omsg list"

inductive psys_step :: "psys \<Rightarrow> psys \<Rightarrow> bool" where
  origin: "to_o s = m # ms \<Longrightarrow> o_spec (p_o s) m a out \<Longrightarrow>
     psys_step s (s\<lparr>p_o := a, to_o := ms, to_r := to_r s @ out, said := said s @ out\<rparr>)"
| replica: "\<not> ended s \<Longrightarrow> to_r s = m # ms \<Longrightarrow> r_spec (p_r s) m r out \<Longrightarrow>
     psys_step s (s\<lparr>p_r := r, to_r := ms, to_o := to_o s @ out\<rparr>)"
| finish: "\<not> ended s \<Longrightarrow> to_r s = MEnd # ms \<Longrightarrow> psys_step s (s\<lparr>to_r := ms, ended := True\<rparr>)"

inductive_cases psys_stepE: "psys_step s s'"

end
