(* ===== verification/Convergence.thy ===== *)
theory Convergence
  imports Protocol
begin

text \<open>
  Why the protocol makes the replica a copy of the origin. The lemmas are about the abstract system of
  Protocol: what a batch of hash messages tells the origin, what a matching hash implies when hashes
  do not collide, and the invariant of the three phases (hashes, details, pages), which every step
  preserves.
\<close>

section \<open>Hashes of ranges\<close>

lemma sql_hash_sponge: "sql_hash d = sponge d"
  by (simp add: sql_hash_def hashFunc_def hash160_sponge)

lemma length_sponge [simp]: "length (sponge d) = 20"
  by (simp add: sponge_def)

lemma sql_agghash_sponge:
  "sql_agghash ds = (if ds = [] then None else Some (sponge (concat ds)))"
proof -
  have h: "dropWhile hashable (map VBytes ds) = []" by (simp add: list.pred_map list_all_iff)
  have n: "list_all (\<lambda>r. r = VNil) (map VBytes ds) = (ds = [])" by (cases ds) simp_all
  have c: "concat (map row_bytes (map VBytes ds)) = concat ds" by (induction ds) simp_all
  show ?thesis
    unfolding sql_agghash_def agg_eval_agghash agghash_spec_def h n c by simp
qed

lemma length_range_hash: "range_hash ps a n = Some h \<Longrightarrow> length h = 20"
  by (auto simp: range_hash_def sql_hash_sponge sql_agghash_sponge split: if_splits)

lemma page_at_Some: "page_at ps p = Some d \<longleftrightarrow> 1 \<le> p \<and> p \<le> int (length ps) \<and> d = ps ! nat (p - 1)"
  by (auto simp: page_at_def)

lemma page_at_None: "page_at ps p = None \<longleftrightarrow> p < 1 \<or> int (length ps) < p"
  by (auto simp: page_at_def)

lemma pages_eqI:
  assumes "\<And>p. 1 \<le> p \<Longrightarrow> page_at ps p = page_at qs p"
  shows "ps = qs"
proof (rule nth_equalityI)
  show len: "length ps = length qs"
  proof (rule ccontr)
    assume "length ps \<noteq> length qs"
    then consider "length ps < length qs" | "length qs < length ps" by linarith
    then show False
      using assms [of "int (length qs)"] assms [of "int (length ps)"]
      by cases (auto simp: page_at_def split: if_splits)
  qed
  fix i assume "i < length ps"
  with len assms [of "int i + 1"] show "ps ! i = qs ! i" by (simp add: page_at_def)
qed

text \<open>\<open>inside n rows\<close>: the ranges are not empty and within the pages \<open>1..n\<close>.\<close>

definition inside :: "nat \<Rightarrow> (int \<times> int) list \<Rightarrow> bool" where
  "inside n rows \<longleftrightarrow> (\<forall>(p, k) \<in> set rows. 1 \<le> p \<and> 1 \<le> k \<and> p + k \<le> int n + 1)"

lemma inside_simps [simp]:
  "inside n []"
  "inside n (r # rows) \<longleftrightarrow> (1 \<le> fst r \<and> 1 \<le> snd r \<and> fst r + snd r \<le> int n + 1) \<and> inside n rows"
  "inside n (rows @ rows') \<longleftrightarrow> inside n rows \<and> inside n rows'"
  by (auto simp: inside_def)

lemma map_filter_all:
  "(\<And>x. x \<in> set xs \<Longrightarrow> f x \<noteq> None) \<Longrightarrow> List.map_filter f xs = map (\<lambda>x. the (f x)) xs"
  by (induction xs) (fastforce simp: List.map_filter_simps split: option.splits)+

lemma length_map_filter_le: "length (List.map_filter f xs) \<le> length xs"
  by (induction xs) (auto simp: List.map_filter_simps split: option.splits)

lemma length_map_filter_eq:
  "length (List.map_filter f xs) = length xs \<Longrightarrow> x \<in> set xs \<Longrightarrow> f x \<noteq> None"
proof (induction xs)
  case (Cons y ys)
  then show ?case using length_map_filter_le [of f ys]
    by (auto simp: List.map_filter_simps split: option.splits)
qed simp

lemma range_hash_inside:
  assumes "inside (length ps) [(f, k)]"
  shows "\<exists>h. range_hash ps f k = Some h"
proof (cases "k = 1")
  case True
  with assms show ?thesis by (simp add: range_hash_def page_at_def)
next
  case False
  with assms have k: "1 < k" by simp
  then have "f \<in> set [f..max f (f + k - 1)]" by simp
  moreover have "page_at ps f \<noteq> None" using assms by (simp add: page_at_None)
  ultimately have "pages_in ps f (f + k - 1) \<noteq> []"
    unfolding pages_in_def by (auto simp: List.map_filter_def filter_empty_conv)
  with k show ?thesis by (simp add: range_hash_def sql_agghash_sponge)
qed

section \<open>What is assumed of the two databases\<close>

text \<open>
  No collision among the hashes that are compared: of single pages, and, for a replica of more than
  100 pages, of ranges.
\<close>

definition collision_free :: "pages \<Rightarrow> pages \<Rightarrow> bool" where
  "collision_free og rp \<longleftrightarrow>
     (\<forall>p. 1 \<le> p \<and> p \<le> int (length rp) \<and> range_hash og p 1 = range_hash rp p 1 \<longrightarrow> page_at og p = page_at rp p) \<and>
     (100 < length rp \<longrightarrow>
       (\<forall>a k. 1 < k \<and> 1 \<le> a \<and> a + k \<le> int (length rp) + 1 \<and> range_hash og a k = range_hash rp a k \<longrightarrow>
         pages_in og a (a + k - 1) = pages_in rp a (a + k - 1)))"

text \<open>
  The database file format: pages of one size, a page count below the limit, the lock-byte page
  never the last one and read as zeros.
\<close>

definition wf_file :: "int \<Rightarrow> pages \<Rightarrow> bool" where
  "wf_file sz ps \<longleftrightarrow> 20 \<le> sz \<and> sz \<le> 65536 \<and> (\<forall>d \<in> set ps. int (length d) = sz) \<and> length ps < 2 ^ 32 - 1 \<and>
     int (length ps) \<noteq> lock_page sz \<and>
     (\<forall>d. page_at ps (lock_page sz) = Some d \<longrightarrow> d = replicate (nat sz) 0)"

text \<open>The header of page 1 holds the page count, so files of different length differ in page 1.\<close>

definition header_count :: "pages \<Rightarrow> pages \<Rightarrow> bool" where
  "header_count og rp \<longleftrightarrow> (length og \<noteq> length rp \<longrightarrow> og \<noteq> [] \<and> page_at og 1 \<noteq> page_at rp 1)"

text \<open>The header of a file in WAL mode says so (byte 18).\<close>

definition header_wal :: "byte \<Rightarrow> pages \<Rightarrow> bool" where
  "header_wal jm rp \<longleftrightarrow> (jm = 2 \<longrightarrow> (\<forall>d. page_at rp 1 = Some d \<longrightarrow> d ! 18 \<noteq> 1))"

text \<open>
  What the file should become: the origin's pages, page 1 kept in WAL mode. The commit then stamps it,
  so the file itself is a \<open>restamped\<close> copy.
\<close>

definition copy_of :: "byte \<Rightarrow> pages \<Rightarrow> pages" where
  "copy_of jm ps = (case ps of [] \<Rightarrow> [] | d # ds \<Rightarrow> kept_wal jm d # ds)"

lemma page_at_copy_of:
  "page_at (copy_of jm ps) p = map_option (\<lambda>d. if p = 1 then kept_wal jm d else d) (page_at ps p)"
proof (cases ps)
  case (Cons d ds)
  then show ?thesis
    by (cases "p = 1") (auto simp: page_at_def copy_of_def nth_Cons split: nat.splits)
qed (auto simp: page_at_def copy_of_def)

lemma length_copy_of [simp]: "length (copy_of jm ps) = length ps"
  by (simp add: copy_of_def split: list.splits)

text \<open>A matching hash means matching pages.\<close>

lemma match_pages:
  assumes "collision_free og rp" and "inside (length rp) [(f, k)]" and "k = 1 \<or> 100 < length rp"
    and "range_hash og f k = range_hash rp f k" and "f \<le> p" "p < f + k"
  shows "page_at og p = page_at rp p"
proof (cases "k = 1")
  case True
  then have "p = f" using assms(5,6) by simp
  with assms True show ?thesis by (auto simp: collision_free_def)
next
  case False
  with assms(2) have k: "1 < k" by simp
  then have eq: "pages_in og f (f + k - 1) = pages_in rp f (f + k - 1)"
    using assms unfolding collision_free_def inside_def by auto
  let ?ps = "[f..f + k - 1]"
  have mx: "max f (f + k - 1) = f + k - 1" using k by simp
  have R: "page_at rp x \<noteq> None" if "x \<in> set ?ps" for x
    using that assms(2) by (auto simp: page_at_None)
  have Rm: "pages_in rp f (f + k - 1) = map (\<lambda>x. the (page_at rp x)) ?ps"
    unfolding pages_in_def mx by (rule map_filter_all) (rule R)
  then have "length (List.map_filter (page_at og) ?ps) = length ?ps"
    using eq by (simp add: pages_in_def mx)
  from length_map_filter_eq [OF this] have O: "page_at og x \<noteq> None" if "x \<in> set ?ps" for x
    using that by blast
  have "pages_in og f (f + k - 1) = map (\<lambda>x. the (page_at og x)) ?ps"
    unfolding pages_in_def mx by (rule map_filter_all) (rule O)
  with eq Rm have "map (\<lambda>x. the (page_at og x)) ?ps = map (\<lambda>x. the (page_at rp x)) ?ps" by simp
  moreover have p: "p \<in> set ?ps" using assms(5,6) by simp
  ultimately have "the (page_at og p) = the (page_at rp p)" by (simp only: map_eq_conv)
  with O [OF p] R [OF p] show ?thesis by auto
qed

text \<open>A single hash that does not match means a different page.\<close>

lemma differ_page:
  "range_hash og p 1 \<noteq> range_hash rp p 1 \<Longrightarrow> page_at og p \<noteq> page_at rp p"
  by (auto simp: range_hash_def)

section \<open>What the hash messages say\<close>

text \<open>
  The ranges and hashes in a queue of messages, as the origin will take them when it expects \<open>ex\<close>.
\<close>

fun track :: "u32 \<times> u32 \<Rightarrow> rmsg list \<Rightarrow> ((u32 \<times> u32) \<times> bytes) list" where
  "track ex [] = []"
| "track ex (NConfig a k # ms) = track (a, k) ms"
| "track ex (NHash h # ms) = (ex, h) # track (fst ex + snd ex, snd ex) ms"
| "track ex (NReady # ms) = track ex ms"
| "track ex (NPropose p # ms) = track ex ms"

fun hash_queue :: "rmsg list \<Rightarrow> bool" where
  "hash_queue [] = False"
| "hash_queue (NConfig a k # ms) = hash_queue ms"
| "hash_queue (NHash h # ms) = (length h = 20 \<and> hash_queue ms)"
| "hash_queue (NReady # ms) = (ms = [])"
| "hash_queue (NPropose p # ms) = False"

definition tagged :: "pages \<Rightarrow> (int \<times> int) list \<Rightarrow> ((u32 \<times> u32) \<times> bytes) list" where
  "tagged ps rows =
     map (\<lambda>(f, k). ((word_of_int f, word_of_int k), the (range_hash ps f k))) rows"

lemma tagged_simps [simp]:
  "tagged ps [] = []"
  "tagged ps ((f, k) # rows) =
     ((word_of_int f, word_of_int k), the (range_hash ps f k)) # tagged ps rows"
  by (simp_all add: tagged_def)

lemma tagged_Nil [simp]: "tagged ps rows = [] \<longleftrightarrow> rows = []" "[] = tagged ps rows \<longleftrightarrow> rows = []"
  by (auto simp: tagged_def)

lemma track_batch:
  "inside (length ps) es \<Longrightarrow> track ex (batch ps es ex) = tagged ps es \<and> hash_queue (batch ps es ex)"
proof (induction es arbitrary: ex)
  case (Cons r es)
  obtain f k where r: "r = (f, k)" by fastforce
  with Cons.prems range_hash_inside [of ps f k] obtain h where h: "range_hash ps f k = Some h" by auto
  from Cons.IH [of "(word_of_int f + word_of_int k, word_of_int k)"] Cons.prems
  have IH: "track (word_of_int f + word_of_int k, word_of_int k)
      (batch ps es (word_of_int f + word_of_int k, word_of_int k)) = tagged ps es"
    "hash_queue (batch ps es (word_of_int f + word_of_int k, word_of_int k))" by simp_all
  show ?case
    using IH h length_range_hash [OF h] by (cases ex) (auto simp: r)
qed simp

lemma uint_u32 [simp]: "0 \<le> x \<Longrightarrow> x < 2 ^ 32 \<Longrightarrow> uint (word_of_int x :: u32) = x"
  by (simp add: uint_word_of_int)

text \<open>A batch that expects nothing announces its first entry.\<close>

lemma track_batch_0:
  assumes "inside (length ps) es" and "length ps < 2 ^ 32 - 1"
  shows "track ex (batch ps es (0, 0)) = tagged ps es \<and> hash_queue (batch ps es (0, 0))"
proof (cases es)
  case (Cons r es')
  obtain f k where r: "r = (f, k)" by fastforce
  with Cons assms have k: "1 \<le> k" "k < 2 ^ 32" by auto
  have "(word_of_int k :: u32) \<noteq> 0"
  proof
    assume "(word_of_int k :: u32) = 0"
    then have "uint (word_of_int k :: u32) = 0" by simp
    with k show False by simp
  qed
  with Cons r have "track ex (batch ps es (0, 0)) = track (0, 0) (batch ps es (0, 0))" by simp
  with track_batch [OF assms(1), of "(0, 0)"] show ?thesis by simp
qed simp

section \<open>Ranges of pages\<close>

definition pages_of :: "(int \<times> int) list \<Rightarrow> int list" where
  "pages_of rows = concat (map range_pages rows)"

lemma pages_of_simps [simp]:
  "pages_of [] = []"
  "pages_of (r # rows) = range_pages r @ pages_of rows"
  "pages_of (a @ b) = pages_of a @ pages_of b"
  by (simp_all add: pages_of_def)

lemma mset_pages_of: "mset a = mset b \<Longrightarrow> mset (pages_of a) = mset (pages_of b)"
proof -
  have "mset (pages_of a) = (\<Sum>r\<in>#mset a. mset (range_pages r))" for a
    by (induction a) simp_all
  then show "mset a = mset b \<Longrightarrow> mset (pages_of a) = mset (pages_of b)" by simp
qed

lemma pages_of_perm:
  assumes "mset a = mset b"
  shows "set (pages_of a) = set (pages_of b)" "distinct (pages_of a) = distinct (pages_of b)"
  using mset_pages_of [OF assms] by (auto dest: mset_eq_setD mset_eq_imp_distinct_iff)

lemma set_range_pages [simp]: "set (range_pages (f, k)) = {f..f + k - 1}"
  by (simp add: range_pages_def)

lemma set_pages_of: "set (pages_of rows) = (\<Union>(f, k) \<in> set rows. {f..f + k - 1})"
  by (auto simp: pages_of_def range_pages_def)

lemma inside_perm: "mset a = mset b \<Longrightarrow> inside n a = inside n b"
  by (simp add: inside_def mset_eq_setD [of a b])

lemma pages_of_chunks: "1 \<le> npg \<Longrightarrow> pages_of (chunks fpg npg) = [uint fpg..uint fpg + uint npg - 1]"
  unfolding pages_of_def by (rule chunks_partition)

lemma inside_chunks:
  assumes "inside n [(uint f, uint k)]"
  shows "inside n (chunks f k)"
proof -
  have k: "1 \<le> k" using assms by (auto simp: word_le_def)
  show ?thesis
    using chunks_progress [OF k] assms by (fastforce simp: inside_def)
qed

lemma distinct_pages_keys:
  "distinct (pages_of rows) \<Longrightarrow> inside n rows \<Longrightarrow> distinct (map fst rows)"
proof (induction rows)
  case (Cons r rows)
  obtain f k where r: "r = (f, k)" by fastforce
  have "f \<notin> fst ` set rows"
  proof
    assume "f \<in> fst ` set rows"
    then obtain k' where k': "(f, k') \<in> set rows" by auto
    with Cons.prems(2) have "1 \<le> k'" by (auto simp: inside_def)
    with k' have "f \<in> set (pages_of rows)" by (force simp: set_pages_of)
    moreover have "f \<in> set (range_pages r)" using Cons.prems(2) r by simp
    ultimately show False using Cons.prems(1) by auto
  qed
  with Cons r show ?case by auto
qed simp

text \<open>Replacing rows whose pages are all new keeps the old rows.\<close>

lemma replace_rows_new:
  assumes "set (pages_of new) \<inter> set (pages_of old) = {}" and "inside n new" and "inside n old"
  shows "replace_rows new old = old @ new"
proof -
  have "fst r \<notin> fst ` set new" if "r \<in> set old" for r
  proof
    obtain f k where r: "r = (f, k)" by fastforce
    assume "fst r \<in> fst ` set new"
    then obtain k' where "(f, k') \<in> set new" using r by auto
    moreover from this assms(2) have "1 \<le> k'" by (auto simp: inside_def)
    ultimately have "f \<in> set (pages_of new)" by (force simp: set_pages_of)
    moreover from that r assms(3) have "f \<in> set (pages_of old)"
      by (force simp: set_pages_of inside_def)
    ultimately show False using assms(1) by auto
  qed
  then have "filter (\<lambda>r. fst r \<notin> fst ` set new) old = old" by (simp add: filter_id_conv)
  then show ?thesis by (simp add: replace_rows_def)
qed

lemma pages_of_singles: "pages_of (map (\<lambda>k. (k, 1)) ks) = ks"
  by (induction ks) (simp_all add: range_pages_def)

lemma inside_singles: "inside n (map (\<lambda>k. (k, 1)) [1..int n])"
  by (auto simp: inside_def)

lemma first_rows_spec:
  assumes "1 \<le> n" and "n < 2 ^ 32 - 1"
  shows "inside n (first_rows proto n) \<and> set (pages_of (first_rows proto n)) = {1..int n} \<and>
    distinct (pages_of (first_rows proto n)) \<and>
    (\<forall>(f, k) \<in> set (first_rows proto n). k \<le> 1000 \<and> (k = 1 \<or> 100 < n))"
proof (cases "proto < 2 \<or> n \<le> 100")
  case True
  have "max 1 (int n) = int n" using assms by simp
  with True inside_singles [of n] show ?thesis
    by (auto simp: first_rows_def pages_of_singles)
next
  case False
  let ?w = "word_of_int (int n - 1) :: u32"
  have w: "uint ?w = int n - 1" by (rule uint_u32) (use False assms(2) in simp_all)
  then have k: "1 \<le> ?w" using False by (simp add: word_le_def)
  have two: "uint (2::u32) = 2" by simp
  have pc: "pages_of (chunks 2 ?w) = [2..int n]"
    using pages_of_chunks [OF k, of 2] w by simp
  have ic: "inside n (chunks 2 ?w)" by (rule inside_chunks) (use w False in simp)
  have "replace_rows (chunks 2 ?w) [(1, 1)] = [(1, 1)] @ chunks 2 ?w"
    by (rule replace_rows_new [where n = n]) (use pc ic False in \<open>auto simp: range_pages_def\<close>)
  then have fr: "first_rows proto n = (1, 1) # chunks 2 ?w" using False by (simp add: first_rows_def)
  have "set (pages_of (first_rows proto n)) = {1..int n}"
    using pc False by (auto simp: fr range_pages_def)
  moreover have "distinct (pages_of (first_rows proto n))"
    using pc by (auto simp: fr range_pages_def)
  moreover have "inside n (first_rows proto n)" using ic False by (simp add: fr)
  moreover have "\<forall>(f, k) \<in> set (first_rows proto n). k \<le> 1000 \<and> (k = 1 \<or> 100 < n)"
    using chunks_progress [OF k] False by (fastforce simp: fr)
  ultimately show ?thesis by blast
qed


section \<open>The phases\<close>

text \<open>What is assumed of the origin's pages, the replica's pages when the run begins, and its mode.\<close>

definition setting :: "pages \<Rightarrow> pages \<Rightarrow> int \<Rightarrow> byte \<Rightarrow> bool" where
  "setting og rp sz jm \<longleftrightarrow>
     wf_file sz og \<and> wf_file sz rp \<and> rp \<noteq> [] \<and> collision_free og rp \<and> header_count og rp \<and> header_wal jm rp"

text \<open>The rows that may still hide a difference: disjoint ranges that contain every different page.\<close>

definition covering :: "pages \<Rightarrow> pages \<Rightarrow> (int \<times> int) list \<Rightarrow> bool" where
  "covering og rp rows \<longleftrightarrow> inside (length rp) rows \<and> distinct (pages_of rows) \<and>
     (\<forall>p. 1 \<le> p \<and> p \<le> int (length rp) \<and> page_at og p \<noteq> page_at rp p \<longrightarrow> p \<in> set (pages_of rows))"

definition single_differs :: "pages \<Rightarrow> pages \<Rightarrow> (int \<times> int) list \<Rightarrow> bool" where
  "single_differs og rp bad \<longleftrightarrow> (\<forall>p. (p, 1) \<in> set bad \<longrightarrow> page_at og p \<noteq> page_at rp p)"

text \<open>The largest range hashed in each round.\<close>

definition lvl :: "nat \<Rightarrow> int" where
  "lvl n = (if n = 0 then 1000 else if n = 1 then 30 else 1)"

definition sized :: "pages \<Rightarrow> int \<Rightarrow> (int \<times> int) list \<Rightarrow> bool" where
  "sized rp m rows \<longleftrightarrow> (\<forall>(f, k) \<in> set rows. k \<le> m \<and> (k = 1 \<or> 100 < length rp))"

text \<open>The mark of the highest page hashed is, or will be after the rows, one past the last page.\<close>

definition marked :: "pages \<Rightarrow> u32 \<Rightarrow> (int \<times> int) list \<Rightarrow> bool" where
  "marked rp mx rows \<longleftrightarrow> uint mx \<le> int (length rp) + 1 \<and>
     (uint mx = int (length rp) + 1 \<or> (\<exists>(f, k) \<in> set rows. f + k = int (length rp) + 1))"

definition origin_const :: "pages \<Rightarrow> int \<Rightarrow> ospec \<Rightarrow> bool" where
  "origin_const og sz a \<longleftrightarrow> o_pages (sp_db a) = og \<and> o_psize (sp_db a) = sz \<and>
     uint (sp_count a) = int (length og)"

definition replica_const :: "pages \<Rightarrow> pages \<Rightarrow> int \<Rightarrow> byte \<Rightarrow> rspec \<Rightarrow> bool" where
  "replica_const file rp sz jm r \<longleftrightarrow> r_file (rq_db r) = file \<and> r_work (rq_db r) = rp \<and>
     r_psize (rq_db r) = sz \<and> r_txn (rq_db r) \<and> rq_size r = sz \<and> rq_jm r = jm \<and> \<not> rq_ins r \<and> rq_pages r = 0"

text \<open>
  Hash messages are on their way to the origin. \<open>rows\<close> are the ranges whose hashes it has not seen yet.
\<close>

definition phase_hash :: "pages \<Rightarrow> pages \<Rightarrow> pages \<Rightarrow> int \<Rightarrow> byte \<Rightarrow> psys \<Rightarrow> bool" where
  "phase_hash og file rp sz jm s \<longleftrightarrow>
     \<not> ended s \<and> to_r s = [] \<and> hash_queue (to_o s) \<and>
     origin_const og sz (p_o s) \<and> replica_const file rp sz jm (p_r s) \<and>
     r_send (rq_db (p_r s)) = Some [] \<and>
     (\<exists>rows. track (sp_i (p_o s), sp_n (p_o s)) (to_o s) = tagged rp rows \<and>
        covering og rp (bad_rows (sp_db (p_o s)) @ rows) \<and>
        single_differs og rp (bad_rows (sp_db (p_o s))) \<and>
        sized rp (lvl (unat (sp_rounds (p_o s)))) (bad_rows (sp_db (p_o s)) @ rows) \<and>
        marked rp (sp_mx (p_o s)) rows \<and> (o_bad (sp_db (p_o s)) = None \<longrightarrow> rows \<noteq> [])) \<and>
     unat (sp_rounds (p_o s)) \<le> 2 \<and> rq_rounds (p_r s) = sp_rounds (p_o s) + 1 \<and> sp_sent (p_o s) = 0"

text \<open>
  Requests for detail are on their way to the replica; \<open>rows\<close> are those it has not seen, \<open>q\<close> what it
  has noted to hash next.
\<close>

definition detail_static :: "pages \<Rightarrow> pages \<Rightarrow> pages \<Rightarrow> int \<Rightarrow> byte \<Rightarrow> psys \<Rightarrow> bool" where
  "detail_static og file rp sz jm s \<longleftrightarrow>
     \<not> ended s \<and> to_o s = [] \<and>
     origin_const og sz (p_o s) \<and> replica_const file rp sz jm (p_r s) \<and>
     uint (sp_mx (p_o s)) = int (length rp) + 1 \<and>
     1 \<le> unat (sp_rounds (p_o s)) \<and> unat (sp_rounds (p_o s)) \<le> 2 \<and>
     rq_rounds (p_r s) = sp_rounds (p_o s) \<and> sp_sent (p_o s) = 0"

definition detail_rows ::
  "pages \<Rightarrow> pages \<Rightarrow> psys \<Rightarrow> (int \<times> int) list \<Rightarrow> (int \<times> int) list \<Rightarrow> (int \<times> int) list \<Rightarrow> bool" where
  "detail_rows og rp s rows q bad \<longleftrightarrow>
     to_r s = detail_msgs rows @ [MReady] \<and> r_send (rq_db (p_r s)) = Some q \<and>
     o_bad (sp_db (p_o s)) = Some bad \<and>
     covering og rp (bad @ q @ rows) \<and> single_differs og rp bad \<and>
     sized rp 1 bad \<and> sized rp (lvl (unat (sp_rounds (p_o s)))) q \<and>
     sized rp (lvl (unat (sp_rounds (p_o s)) - 1)) rows \<and> (\<forall>r \<in> set rows. 1 < snd r)"

definition phase_detail :: "pages \<Rightarrow> pages \<Rightarrow> pages \<Rightarrow> int \<Rightarrow> byte \<Rightarrow> psys \<Rightarrow> bool" where
  "phase_detail og file rp sz jm s \<longleftrightarrow>
     detail_static og file rp sz jm s \<and> (\<exists>rows q bad. detail_rows og rp s rows q bad)"

text \<open>The pages the protocol has to transfer.\<close>

definition page_diff :: "pages \<Rightarrow> pages \<Rightarrow> int \<Rightarrow> int set" where
  "page_diff og rp sz =
     {p. 1 \<le> p \<and> p \<le> int (length og) \<and> p \<noteq> lock_page sz \<and> page_at og p \<noteq> page_at rp p}"

definition page_queue :: "(int \<times> bytes) list \<Rightarrow> omsg list" where
  "page_queue rows = map (\<lambda>(p, d). MPage (word_of_int p) d) rows"

text \<open>Pages are on their way; every page not among \<open>rows\<close> is already as it should be.\<close>

definition page_ok :: "pages \<Rightarrow> int \<Rightarrow> byte \<Rightarrow> pages \<Rightarrow> int \<Rightarrow> bool" where
  "page_ok og sz jm work p \<longleftrightarrow>
     page_at work p = page_at (copy_of jm og) p \<or> (p = lock_page sz \<and> page_at work p = None)"

definition pages_static :: "pages \<Rightarrow> pages \<Rightarrow> pages \<Rightarrow> int \<Rightarrow> byte \<Rightarrow> psys \<Rightarrow> bool" where
  "pages_static og file rp sz jm s \<longleftrightarrow>
     \<not> ended s \<and> to_o s = [] \<and> origin_const og sz (p_o s) \<and>
     r_file (rq_db (p_r s)) = file \<and> r_psize (rq_db (p_r s)) = sz \<and> r_txn (rq_db (p_r s)) \<and>
     rq_jm (p_r s) = jm \<and> rq_size (p_r s) = sz \<and>
     (\<forall>d. page_at (r_work (rq_db (p_r s))) (lock_page sz) = Some d \<longrightarrow> d = replicate (nat sz) 0) \<and>
     sp_sent (p_o s) = of_nat (card (page_diff og rp sz)) \<and>
     1 \<le> unat (sp_rounds (p_o s)) \<and> unat (sp_rounds (p_o s)) \<le> 3 \<and> rq_rounds (p_r s) = sp_rounds (p_o s)"

definition pages_rows :: "pages \<Rightarrow> pages \<Rightarrow> int \<Rightarrow> byte \<Rightarrow> psys \<Rightarrow> (int \<times> bytes) list \<Rightarrow> bool" where
  "pages_rows og rp sz jm s rows \<longleftrightarrow>
     to_r s = page_queue rows @ [MTxn (sp_count (p_o s)), MEnd] \<and> distinct (map fst rows) \<and>
     (\<forall>(p, d) \<in> set rows. page_at og p = Some d \<and> p \<noteq> lock_page sz) \<and>
     (\<forall>p. 1 \<le> p \<and> p \<le> int (length og) \<and> p \<notin> fst ` set rows \<longrightarrow>
        page_ok og sz jm (r_work (rq_db (p_r s))) p) \<and>
     (rq_ins (p_r s) \<or> r_work (rq_db (p_r s)) = rp \<and> fst ` set rows = page_diff og rp sz) \<and>
     sp_sent (p_o s) = rq_pages (p_r s) + of_nat (length rows)"

definition phase_pages :: "pages \<Rightarrow> pages \<Rightarrow> pages \<Rightarrow> int \<Rightarrow> byte \<Rightarrow> psys \<Rightarrow> bool" where
  "phase_pages og file rp sz jm s \<longleftrightarrow>
     pages_static og file rp sz jm s \<and> (\<exists>rows. pages_rows og rp sz jm s rows)"

text \<open>The transaction is committed.\<close>

definition phase_committed :: "pages \<Rightarrow> pages \<Rightarrow> int \<Rightarrow> byte \<Rightarrow> psys \<Rightarrow> bool" where
  "phase_committed og rp sz jm s \<longleftrightarrow>
     to_o s = [] \<and> (if ended s then to_r s = [] else to_r s = [MEnd]) \<and>
     restamped (copy_of jm og) (r_file (rq_db (p_r s))) \<and> \<not> r_txn (rq_db (p_r s)) \<and>
     sp_sent (p_o s) = of_nat (card (page_diff og rp sz)) \<and> rq_pages (p_r s) = sp_sent (p_o s) \<and>
     1 \<le> unat (sp_rounds (p_o s)) \<and> unat (sp_rounds (p_o s)) \<le> 3 \<and> rq_rounds (p_r s) = sp_rounds (p_o s) \<and>
     origin_const og sz (p_o s) \<and> rq_size (p_r s) = sz"

section \<open>The hash phase\<close>

lemma lvl_mono: "m \<le> n \<Longrightarrow> lvl n \<le> lvl m"
  by (auto simp: lvl_def)

lemma setting_len: "setting og rp sz jm \<Longrightarrow> int (length rp) + 1 < 2 ^ 32 \<and> int (length og) + 1 < 2 ^ 32"
  by (auto simp: setting_def wf_file_def)

lemma covering_len:
  "covering og rp rows \<Longrightarrow> (f, k) \<in> set rows \<Longrightarrow> 1 \<le> f \<and> 1 \<le> k \<and> f + k \<le> int (length rp) + 1"
  by (auto simp: covering_def inside_def)

lemma covering_perm: "mset a = mset b \<Longrightarrow> covering og rp a = covering og rp b"
  by (simp add: covering_def inside_perm [of a b] pages_of_perm [of a b])

lemma hash_config:
  assumes "phase_hash og file rp sz jm s" and "to_o s = NConfig i n # ms"
    and "o_spec (p_o s) (NConfig i n) a out"
  shows "phase_hash og file rp sz jm (s\<lparr>p_o := a, to_o := ms, to_r := to_r s @ out\<rparr>)"
proof -
  from assms(3) have "a = (p_o s)\<lparr>sp_i := i, sp_n := n\<rparr>" "out = []" by (auto elim: o_spec_config)
  with assms(1,2) show ?thesis by (simp add: phase_hash_def origin_const_def)
qed

text \<open>A range that matches can be dropped, one that differs moves to badHash.\<close>

lemma covering_drop:
  assumes "covering og rp (bad @ (f, k) # rows)"
    and "\<And>p. f \<le> p \<Longrightarrow> p < f + k \<Longrightarrow> page_at og p = page_at rp p"
  shows "covering og rp (bad @ rows)"
  using assms by (auto simp: covering_def range_pages_def)

lemma marked_next:
  assumes "setting og rp sz jm" and "covering og rp (bad @ (f, k) # rows)"
    and "marked rp mx ((f, k) # rows)"
  defines "e \<equiv> word_of_int f + word_of_int k :: u32"
  shows "marked rp (if e > mx then e else mx) rows"
proof -
  from covering_len [OF assms(2), of f k] have fk: "1 \<le> f" "1 \<le> k" "f + k \<le> int (length rp) + 1" by auto
  have "uint (word_of_int (f + k) :: u32) = f + k"
    by (rule uint_u32) (use fk setting_len [OF assms(1)] in auto)
  then have e: "uint e = f + k" by (simp add: e_def)
  with assms(3) fk show ?thesis by (auto simp: marked_def word_less_def)
qed

lemma sized_app [simp]: "sized rp m (a @ b) \<longleftrightarrow> sized rp m a \<and> sized rp m b"
  unfolding sized_def set_append by (rule ball_Un)

lemma sized_Cons [simp]: "sized rp m ((f, k) # b) \<longleftrightarrow> (k \<le> m \<and> (k = 1 \<or> 100 < length rp)) \<and> sized rp m b"
  by (auto simp: sized_def)

lemma hash_hash:
  assumes set: "setting og rp sz jm" and ph: "phase_hash og file rp sz jm s" and q: "to_o s = NHash h # ms"
    and o: "o_spec (p_o s) (NHash h) a out"
  shows "phase_hash og file rp sz jm (s\<lparr>p_o := a, to_o := ms, to_r := to_r s @ out\<rparr>)"
proof -
  let ?a = "p_o s"
  let ?bad = "bad_rows (sp_db ?a)"
  from ph q obtain r rows where tr: "((sp_i ?a, sp_n ?a), h) # track (sp_i ?a + sp_n ?a, sp_n ?a) ms = tagged rp (r # rows)"
    and cov: "covering og rp (?bad @ r # rows)" and sd: "single_differs og rp ?bad"
    and sz: "sized rp (lvl (unat (sp_rounds ?a))) (?bad @ r # rows)"
    and mk: "marked rp (sp_mx ?a) (r # rows)"
    unfolding phase_hash_def by (auto simp: tagged_def)
  obtain f k where r: "r = (f, k)" by fastforce
  from covering_len [OF cov, of f k] r have fk: "1 \<le> f" "1 \<le> k" "f + k \<le> int (length rp) + 1" by auto
  from tr r have i: "sp_i ?a = word_of_int f" "sp_n ?a = word_of_int k" and h: "h = the (range_hash rp f k)"
    and tr': "track (sp_i ?a + sp_n ?a, sp_n ?a) ms = tagged rp rows" by auto
  from fk setting_len [OF set] have u: "uint (sp_i ?a) = f" "uint (sp_n ?a) = k" by (simp_all add: i)
  have ins: "inside (length rp) [(f, k)]" using fk by simp
  from range_hash_inside [OF this] h have hr: "range_hash rp f k = Some h" by auto
  have k1: "k = 1 \<or> 100 < length rp" using sz r by simp
  have mt: "hash_matches (o_pages (sp_db ?a)) (sp_i ?a) (sp_n ?a) h = (range_hash og f k = range_hash rp f k)"
    using ph fk by (simp add: hash_matches_def u hr phase_hash_def origin_const_def)
  have mk': "marked rp (if sp_i ?a + sp_n ?a > sp_mx ?a then sp_i ?a + sp_n ?a else sp_mx ?a) rows"
    unfolding i by (rule marked_next [OF set]) (use cov mk r in auto)
  from o consider
      (eq) "a = next_expected (set_bad ?bad ?a)" "out = []" "range_hash og f k = range_hash rp f k"
    | (ne) bad' where "a = next_expected (set_bad bad' ?a)" "out = []"
        "range_hash og f k \<noteq> range_hash rp f k" "insert_rows [(f, k)] ?bad = Some bad'"
    by (rule o_spec_hash) (use mt u in auto)
  then show ?thesis
  proof cases
    case eq
    have "covering og rp (?bad @ rows)"
      by (rule covering_drop) (use cov r match_pages [OF _ ins k1 eq(3)] set in \<open>auto simp: setting_def\<close>)
    with eq ph q tr' sd sz r mk' show ?thesis
      by (auto simp: phase_hash_def origin_const_def next_expected_def set_bad_def bad_rows_def
          intro!: exI [of _ rows])
  next
    case ne
    then have bad': "bad' = ?bad @ [(f, k)]" by (auto simp: insert_rows_def split: if_splits)
    have "single_differs og rp bad'"
      using sd ne(3) differ_page by (auto simp: single_differs_def bad')
    moreover have "covering og rp (bad' @ rows)" using cov r by (simp add: bad')
    moreover have "sized rp (lvl (unat (sp_rounds ?a))) (bad' @ rows)" using sz r by (simp add: bad')
    ultimately show ?thesis
      using ne(1,2) ph q tr' mk'
      by (auto simp: phase_hash_def origin_const_def next_expected_def set_bad_def bad_rows_def
          intro!: exI [of _ rows])
  qed
qed

text \<open>A permutation of a mapped list is the map of a permutation.\<close>

lemma mset_map_split:
  "mset out = mset (map f xs) \<Longrightarrow> \<exists>ys. out = map f ys \<and> mset ys = mset xs"
proof (induction out arbitrary: xs)
  case (Cons y out)
  then have "y \<in> set (map f xs)" by (metis list.set_intros(1) mset_eq_setD)
  then obtain x where x: "x \<in> set xs" "y = f x" by auto
  then obtain a b where xs: "xs = a @ x # b" by (meson split_list)
  with Cons.prems x have "mset out = mset (map f (a @ b))" by simp
  from Cons.IH [OF this] obtain ys where "out = map f ys" "mset ys = mset (a @ b)" by blast
  with x xs show ?case by (intro exI [of _ "x # ys"]) simp
qed simp

text \<open>The pages behind the rows of badHash.\<close>

definition rows_data :: "pages \<Rightarrow> (int \<times> int) list \<Rightarrow> (int \<times> bytes) list" where
  "rows_data ps rows = List.map_filter (\<lambda>r. map_option (\<lambda>d. (fst r, d)) (page_at ps (fst r))) rows"

lemma page_msgs_rows: "page_msgs ps rows = page_queue (rows_data ps rows)"
  by (induction rows)
    (auto simp: page_msgs_def rows_data_def page_queue_def List.map_filter_simps split: option.splits)

lemma map_fst_rows_data: "map fst (rows_data ps rows) = filter (\<lambda>p. page_at ps p \<noteq> None) (map fst rows)"
  by (induction rows) (auto simp: rows_data_def List.map_filter_simps split: option.splits)

lemma set_rows_data: "set (rows_data ps rows) = {(p, d). p \<in> fst ` set rows \<and> page_at ps p = Some d}"
  by (induction rows) (auto simp: rows_data_def List.map_filter_simps split: option.splits)

lemma set_tail_rows:
  "uint (sp_mx a) = m \<Longrightarrow> uint (sp_count a) = n \<Longrightarrow> fst ` set (tail_rows a) = {m..n}"
  by (force simp: tail_rows_def word_le_def)

lemma lock_page_gt1:
  assumes "setting og rp sz jm"
  shows "1 < lock_page sz"
proof -
  have sz: "20 \<le> sz" "sz \<le> 65536" using assms by (simp_all add: setting_def wf_file_def)
  have "2 ^ 30 div (65536::int) \<le> 2 ^ 30 div sz" by (rule zdiv_mono2) (use sz in simp_all)
  then show ?thesis by (simp add: lock_page_def)
qed

text \<open>Every page the protocol will not send is right already.\<close>

lemma unsent_ok:
  assumes "setting og rp sz jm" and "1 \<le> p" "p \<le> int (length og)" and "p \<notin> page_diff og rp sz"
  shows "page_ok og sz jm rp p"
proof (cases "p = lock_page sz")
  case True
  have "1 < lock_page sz" by (rule lock_page_gt1 [OF assms(1)])
  moreover obtain d where d: "page_at og p = Some d" using assms(2,3) by (simp add: page_at_def)
  ultimately show ?thesis
    using assms(1) True by (cases "page_at rp p") (auto simp: page_ok_def page_at_copy_of setting_def wf_file_def)
next
  case False
  with assms have eq: "page_at og p = page_at rp p" by (simp add: page_diff_def)
  show ?thesis
  proof (cases "p = 1")
    case True
    with eq assms(1) show ?thesis
      by (cases "page_at rp 1")
        (auto simp: page_ok_def page_at_copy_of kept_wal_def setting_def header_wal_def)
  next
    case False
    with eq show ?thesis by (cases "page_at rp p") (auto simp: page_ok_def page_at_copy_of)
  qed
qed

lemma sent_rows:
  assumes set: "setting og rp sz jm" and cov: "covering og rp bad" and sd: "single_differs og rp bad"
    and one: "sized rp 1 bad" and mx: "uint (sp_mx a) = int (length rp) + 1" and og: "origin_const og sz a"
    and ins: "insert_rows (tail_rows a) bad = Some bad1"
  defines "bad2 \<equiv> filter (\<lambda>r. fst r \<noteq> lock_page sz) bad1"
  shows "distinct (map fst (rows_data og bad2)) \<and> fst ` set (rows_data og bad2) = page_diff og rp sz"
proof
  from og have cnt: "uint (sp_count a) = int (length og)" by (simp add: origin_const_def)
  have k1: "k = 1" if "(f, k) \<in> set bad" for f k
    using that covering_len [OF cov that] one by (auto simp: sized_def)
  from ins have bad1: "bad1 = bad @ tail_rows a" "distinct (map fst (tail_rows a))"
    "set (map fst (tail_rows a)) \<inter> set (map fst bad) = {}" by (auto simp: insert_rows_def split: if_splits)
  have "distinct (map fst bad)" by (rule distinct_pages_keys) (use cov in \<open>auto simp: covering_def\<close>)
  with bad1 have "distinct (map fst bad1)" by (auto simp del: set_map)
  then have "distinct (map fst bad2)" unfolding bad2_def by (rule distinct_map_filter)
  then show "distinct (map fst (rows_data og bad2))" by (simp add: map_fst_rows_data)
  have keys: "fst ` set bad2 = (fst ` set bad \<union> {int (length rp) + 1..int (length og)}) - {lock_page sz}"
    unfolding bad2_def bad1(1) using set_tail_rows [OF mx cnt] by auto
  show "fst ` set (rows_data og bad2) = page_diff og rp sz"
  proof (intro set_eqI iffI)
    fix p assume "p \<in> fst ` set (rows_data og bad2)"
    then obtain d where "(p, d) \<in> set (rows_data og bad2)" by auto
    then have p: "p \<in> fst ` set bad2" "page_at og p \<noteq> None" by (simp_all add: set_rows_data)
    then have r: "1 \<le> p" "p \<le> int (length og)" by (auto simp: page_at_None)
    have "page_at og p \<noteq> page_at rp p"
    proof (cases "p \<in> fst ` set bad")
      case True
      then obtain k where "(p, k) \<in> set bad" by auto
      with k1 [OF this] have "(p, 1) \<in> set bad" by simp
      with sd show ?thesis by (simp add: single_differs_def)
    next
      case False
      with p keys have "page_at rp p = None" by (auto simp: page_at_None)
      with p show ?thesis by simp
    qed
    with p(1) keys r show "p \<in> page_diff og rp sz" by (auto simp: page_diff_def)
  next
    fix p assume p: "p \<in> page_diff og rp sz"
    then obtain d where d: "page_at og p = Some d" by (auto simp: page_diff_def page_at_def)
    have "p \<in> fst ` set bad2"
    proof (cases "p \<le> int (length rp)")
      case True
      with p cov have "p \<in> set (pages_of bad)" by (auto simp: page_diff_def covering_def)
      then obtain f k where "(f, k) \<in> set bad" "f \<le> p" "p \<le> f + k - 1" by (auto simp: set_pages_of)
      with k1 have "p \<in> fst ` set bad" by force
      with p keys show ?thesis by (auto simp: page_diff_def)
    next
      case False
      with p keys show ?thesis by (auto simp: page_diff_def)
    qed
    with d have "(p, d) \<in> set (rows_data og bad2)" by (simp add: set_rows_data)
    then show "p \<in> fst ` set (rows_data og bad2)" by (rule rev_image_eqI) simp
  qed
qed

lemma hash_ready:
  assumes set: "setting og rp sz jm" and ph: "phase_hash og file rp sz jm s" and q: "to_o s = NReady # ms"
    and o: "o_spec (p_o s) NReady a out"
  defines "s' \<equiv> s\<lparr>p_o := a, to_o := ms, to_r := to_r s @ out\<rparr>"
  shows "phase_detail og file rp sz jm s' \<or> phase_pages og file rp sz jm s'"
proof -
  let ?a = "p_o s"
  from ph q have ms: "ms = []" by (simp add: phase_hash_def)
  with ph q obtain rows where rows: "rows = []" and cov: "covering og rp (bad_rows (sp_db ?a) @ rows)"
    and sd: "single_differs og rp (bad_rows (sp_db ?a))"
    and sz: "sized rp (lvl (unat (sp_rounds ?a))) (bad_rows (sp_db ?a) @ rows)" and mk: "marked rp (sp_mx ?a) rows"
    unfolding phase_hash_def by auto
  note [simp] = rows
  have mx: "uint (sp_mx ?a) = int (length rp) + 1" using mk by (simp add: marked_def)
  have rd: "unat (sp_rounds ?a) \<le> 2" "rq_rounds (p_r s) = sp_rounds ?a + 1" "sp_sent ?a = 0"
    using ph by (simp_all add: phase_hash_def)
  then have rd1: "unat (sp_rounds ?a + 1) = unat (sp_rounds ?a) + 1" by (simp add: unat_word_ariths)
  have oc: "origin_const og sz ?a" using ph by (simp add: phase_hash_def)
  from o consider
      (detail) bad drows where "a = set_bad (filter (\<lambda>r. snd r \<le> 1) bad) (?a\<lparr>sp_rounds := sp_rounds ?a + 1\<rparr>)"
        "out = detail_msgs drows @ [MReady]" "o_bad (sp_db ?a) = Some bad"
        "mset drows = mset (filter (\<lambda>r. snd r > 1) bad)" "drows \<noteq> []"
    | (pages) bad bad1 out1 where
        "a = set_bad (filter (\<lambda>r. fst r \<noteq> lock_page sz) bad1)
          (?a\<lparr>sp_rounds := sp_rounds ?a + 1, sp_sent := sp_sent ?a + of_nat (length out1)\<rparr>)"
        "out = out1 @ [MTxn (sp_count ?a), MEnd]" "o_bad (sp_db ?a) = Some bad"
        "filter (\<lambda>r. snd r > 1) bad = []" "insert_rows (tail_rows ?a) bad = Some bad1"
        "mset out1 = mset (page_msgs og (filter (\<lambda>r. fst r \<noteq> lock_page sz) bad1))"
    by (rule o_spec_ready) (use oc in \<open>auto simp: origin_const_def\<close>)
  then show ?thesis
  proof cases
    case detail
    then have bad: "bad_rows (sp_db ?a) = bad" by (simp add: bad_rows_def)
    let ?one = "filter (\<lambda>r. snd r \<le> 1) bad"
    have "mset (?one @ drows) = mset bad"
      using detail(4) multiset_partition [of "mset bad" "\<lambda>r. snd r \<le> 1"] by (simp add: not_le)
    with cov bad have "covering og rp (?one @ [] @ drows)" using covering_perm [of "?one @ drows" bad] by simp
    moreover have drows: "set drows = {r \<in> set bad. 1 < snd r}"
      using mset_eq_setD [OF detail(4)] by simp
    moreover from sz bad drows have "sized rp (lvl (unat (sp_rounds ?a))) drows" by (auto simp: sized_def)
    moreover have "sized rp 1 ?one" using sz bad by (auto simp: sized_def)
    moreover have "single_differs og rp ?one" using sd bad by (auto simp: single_differs_def)
    moreover have "unat (sp_rounds ?a) \<le> 1"
    proof (rule ccontr)
      assume "\<not> unat (sp_rounds ?a) \<le> 1"
      then have "lvl (unat (sp_rounds ?a)) = 1" by (simp add: lvl_def)
      moreover from detail(5) have "hd drows \<in> set drows" by simp
      with drows have "hd drows \<in> set bad" "1 < snd (hd drows)" by simp_all
      ultimately show False using sz bad by (force simp: sized_def)
    qed
    moreover have "sized rp m []" for m by (simp add: sized_def)
    ultimately have "detail_rows og rp s' drows [] ?one"
      using detail ph ms rd1 by (auto simp: detail_rows_def s'_def phase_hash_def set_bad_def)
    moreover have "detail_static og file rp sz jm s'"
      using detail ph ms mx rd rd1 oc \<open>unat (sp_rounds ?a) \<le> 1\<close>
      by (auto simp: detail_static_def s'_def phase_hash_def origin_const_def set_bad_def)
    ultimately show ?thesis by (auto simp: phase_detail_def)
  next
    case pages
    then have bad: "bad_rows (sp_db ?a) = bad" by (simp add: bad_rows_def)
    let ?bad2 = "filter (\<lambda>r. fst r \<noteq> lock_page sz) bad1"
    have one: "sized rp 1 bad" using sz bad pages(4) by (force simp: sized_def filter_empty_conv)
    note rows = sent_rows [OF set _ _ one mx oc pages(5)]
    from rows cov sd bad have rows: "distinct (map fst (rows_data og ?bad2))"
      "fst ` set (rows_data og ?bad2) = page_diff og rp sz" by auto
    from pages(6) have "mset out1 = mset (map (\<lambda>(p, d). MPage (word_of_int p) d) (rows_data og ?bad2))"
      by (simp add: page_msgs_rows page_queue_def)
    from mset_map_split [OF this] obtain sent where
      sent: "out1 = page_queue sent" "mset sent = mset (rows_data og ?bad2)"
      unfolding page_queue_def by blast
    from sent(2) have ss: "set sent = set (rows_data og ?bad2)" by (rule mset_eq_setD)
    have "mset (map fst sent) = mset (map fst (rows_data og ?bad2))" using sent(2) by simp
    then have ds: "distinct (map fst sent)" using rows(1) mset_eq_imp_distinct_iff by blast
    have fs: "fst ` set sent = page_diff og rp sz" using rows(2) ss by simp
    have card: "card (page_diff og rp sz) = length sent"
      using distinct_card [OF ds] fs by simp
    have pd: "\<forall>(p, d) \<in> set sent. page_at og p = Some d \<and> p \<noteq> lock_page sz"
      using ss fs by (auto simp: set_rows_data page_diff_def)
    have ok: "\<forall>p. 1 \<le> p \<and> p \<le> int (length og) \<and> p \<notin> fst ` set sent \<longrightarrow> page_ok og sz jm rp p"
      using unsent_ok [OF set] fs by blast
    have lk: "\<forall>d. page_at rp (lock_page sz) = Some d \<longrightarrow> d = replicate (nat sz) 0"
      using set by (simp add: setting_def wf_file_def)
    have "length out1 = length sent" using sent(1) by (simp add: page_queue_def)
    have "pages_rows og rp sz jm s' sent"
      using pages(1,2) ph ms sent(1) ds fs pd ok \<open>length out1 = length sent\<close> rd
      by (auto simp: pages_rows_def s'_def phase_hash_def replica_const_def set_bad_def)
    moreover have "pages_static og file rp sz jm s'"
      using pages(1) ph ms rd rd1 oc card lk \<open>length out1 = length sent\<close>
      by (auto simp: pages_static_def s'_def phase_hash_def origin_const_def replica_const_def set_bad_def)
    ultimately show ?thesis by (auto simp: phase_pages_def)
  qed
qed

section \<open>The detail phase\<close>

lemma detail_msgs_simps [simp]:
  "detail_msgs [] = []"
  "detail_msgs ((f, k) # rows) = MDetail (word_of_int f) (word_of_int k) # detail_msgs rows"
  by (simp_all add: detail_msgs_def)

lemma detail_detail:
  assumes set: "setting og rp sz jm" and ph: "phase_detail og file rp sz jm s"
    and q: "to_r s = MDetail f k # ms" and r: "r_spec (p_r s) (MDetail f k) r' out"
  shows "phase_detail og file rp sz jm (s\<lparr>p_r := r', to_r := ms, to_o := to_o s @ out\<rparr>)"
proof -
  let ?n = "unat (sp_rounds (p_o s))"
  from ph have st: "detail_static og file rp sz jm s" by (simp add: phase_detail_def)
  from ph obtain rows0 qs bad where dr: "detail_rows og rp s rows0 qs bad"
    by (auto simp: phase_detail_def)
  then have tr: "MDetail f k # ms = detail_msgs rows0 @ [MReady]"
    and sq: "r_send (rq_db (p_r s)) = Some qs" and ob: "o_bad (sp_db (p_o s)) = Some bad"
    and cov: "covering og rp (bad @ qs @ rows0)" and sd: "single_differs og rp bad"
    and one: "sized rp 1 bad" and szq: "sized rp (lvl ?n) qs" and szr: "sized rp (lvl (?n - 1)) rows0"
    and big: "\<forall>r \<in> set rows0. 1 < snd r"
    using q by (simp_all add: detail_rows_def)
  from tr obtain fi ki rows where rows0: "rows0 = (fi, ki) # rows" and fk: "f = word_of_int fi" "k = word_of_int ki"
    and ms: "ms = detail_msgs rows @ [MReady]" by (cases rows0) auto
  from covering_len [OF cov, of fi ki] rows0
  have b: "1 \<le> fi" "1 \<le> ki" "fi + ki \<le> int (length rp) + 1" by auto
  with setting_len [OF set] have u: "uint f = fi" "uint k = ki" by (simp_all add: fk)
  then have k1: "1 \<le> k" using b by (simp add: word_le_def)
  have pc: "pages_of (chunks f k) = pages_of [(fi, ki)]"
    using pages_of_chunks [OF k1, of f] by (simp add: u range_pages_def)
  have ic: "inside (length rp) (chunks f k)" by (rule inside_chunks) (simp add: u b)
  have "replace_rows (chunks f k) qs = qs @ chunks f k"
    by (rule replace_rows_new [where n = "length rp"]) (use cov rows0 pc ic in \<open>auto simp: covering_def\<close>)
  with r sq have r': "r' = (p_r s)\<lparr>rq_db := (rq_db (p_r s))\<lparr>r_send := Some (qs @ chunks f k)\<rparr>\<rparr>" "out = []"
    by auto
  have "covering og rp (bad @ (qs @ chunks f k) @ rows)"
    using cov ic pc rows0 by (auto simp: covering_def)
  moreover have "sized rp (lvl ?n) (chunks f k)"
  proof -
    have n: "?n = 1 \<or> ?n = 2" using st by (auto simp: detail_static_def)
    have len: "100 < length rp" and ki: "ki \<le> lvl (?n - 1)"
      using szr rows0 big by (auto simp: sized_def)
    have "k' \<le> lvl ?n" if "(f', k') \<in> set (chunks f k)" for f' k'
      using chunks_progress [OF k1 that] n ki u by (auto simp: lvl_def word_le_def)
    with len show ?thesis by (auto simp: sized_def)
  qed
  moreover have "sized rp (lvl (?n - 1)) rows" "\<forall>r \<in> set rows. 1 < snd r"
    using szr big rows0 by simp_all
  ultimately have "detail_rows og rp (s\<lparr>p_r := r', to_r := ms, to_o := to_o s @ out\<rparr>) rows
      (qs @ chunks f k) bad"
    using ms ob sd one szq r' by (simp add: detail_rows_def)
  moreover have "detail_static og file rp sz jm (s\<lparr>p_r := r', to_r := ms, to_o := to_o s @ out\<rparr>)"
    using st r' by (simp add: detail_static_def replica_const_def)
  ultimately show ?thesis by (auto simp: phase_detail_def)
qed

lemma detail_ready:
  assumes set: "setting og rp sz jm" and ph: "phase_detail og file rp sz jm s"
    and q: "to_r s = MReady # ms" and r: "r_spec (p_r s) MReady r' out"
  shows "phase_hash og file rp sz jm (s\<lparr>p_r := r', to_r := ms, to_o := to_o s @ out\<rparr>)"
proof -
  let ?n = "unat (sp_rounds (p_o s))"
  from ph have st: "detail_static og file rp sz jm s" by (simp add: phase_detail_def)
  from ph obtain rows0 qs bad where dr: "detail_rows og rp s rows0 qs bad"
    by (auto simp: phase_detail_def)
  then have tr: "MReady # ms = detail_msgs rows0 @ [MReady]"
    and sq: "r_send (rq_db (p_r s)) = Some qs" and ob: "o_bad (sp_db (p_o s)) = Some bad"
    and cov: "covering og rp (bad @ qs @ rows0)" and sd: "single_differs og rp bad"
    and one: "sized rp 1 bad" and szq: "sized rp (lvl ?n) qs"
    using q by (simp_all add: detail_rows_def)
  from tr have rows0: "rows0 = []" "ms = []" by (cases rows0; auto simp: detail_msgs_def)+
  let ?es = "sort_key fst qs"
  have work: "r_work (rq_db (p_r s)) = rp" using st by (simp add: detail_static_def replica_const_def)
  have m: "mset (bad @ ?es) = mset (bad @ qs @ rows0)" using rows0 by simp
  from covering_perm [OF m] cov have cov': "covering og rp (bad @ ?es)" by simp
  then have ins: "inside (length rp) ?es" by (simp add: covering_def)
  have len: "length rp < 2 ^ 32 - 1" using set by (simp add: setting_def wf_file_def)
  note tb = track_batch_0 [OF ins len]
  have "1 \<le> lvl ?n" by (simp add: lvl_def)
  then have "sized rp (lvl ?n) (bad @ ?es)" using one szq by (force simp: sized_def)
  moreover have "marked rp (sp_mx (p_o s)) ?es" using st by (simp add: detail_static_def marked_def)
  ultimately show ?thesis
    using r sq st tb cov' sd ob rows0 work
    by (auto simp: phase_hash_def detail_static_def send_batch_def replica_const_def bad_rows_def
        intro!: exI [of _ ?es])
qed

section \<open>The page phase\<close>

lemma page_queue_simps [simp]:
  "page_queue [] = []"
  "page_queue ((p, d) # rows) = MPage (word_of_int p) d # page_queue rows"
  by (simp_all add: page_queue_def)

lemma page_at_write_page:
  assumes "1 \<le> p"
  shows "page_at (write_page sz p d ps) x =
    (if x = p then Some d
     else if int (length ps) < x \<and> x < p then Some (replicate (nat sz) 0) else page_at ps x)"
proof -
  let ?L = "ps @ replicate (nat p - length ps) (replicate (nat sz) 0)"
  have len: "int (length ?L) = max (int (length ps)) p" using assms by auto
  consider "x < 1" | "max (int (length ps)) p < x" | "x = p" | "1 \<le> x" "x \<noteq> p" "x \<le> int (length ps)"
    | "int (length ps) < x" "x < p" using assms by linarith
  then show ?thesis
  proof cases
    case 1
    then show ?thesis using assms by (simp add: page_at_def)
  next
    case 2
    then have "page_at (?L[nat (p - 1) := d]) x = None" "page_at ps x = None"
      using len by (simp_all add: page_at_None)
    with 2 show ?thesis by (simp add: write_page_def)
  next
    case 3
    then have "nat (p - 1) < length ?L" using assms len by linarith
    then have "?L[nat (p - 1) := d] ! nat (p - 1) = d" by (rule nth_list_update_eq)
    with 3 assms len show ?thesis by (simp add: page_at_def write_page_def)
  next
    case 4
    then have "nat (x - 1) < length ps" "nat (x - 1) \<noteq> nat (p - 1)" using assms by linarith+
    then have "?L[nat (p - 1) := d] ! nat (x - 1) = ps ! nat (x - 1)"
      by (simp add: nth_append)
    with 4 len show ?thesis by (simp add: page_at_def write_page_def)
  next
    case 5
    then have n: "nat (x - 1) \<noteq> nat (p - 1)" "\<not> nat (x - 1) < length ps"
      "nat (x - 1) - length ps < nat p - length ps" using assms by linarith+
    then have "?L[nat (p - 1) := d] ! nat (x - 1) = replicate (nat sz) 0"
      by (simp add: nth_append)
    with 5 len assms show ?thesis by (simp add: page_at_def write_page_def)
  qed
qed

lemma kept_wal_length [simp]: "length (kept_wal jm d) = length d"
  by (simp add: kept_wal_def)

lemma pages_page:
  assumes set: "setting og rp sz jm" and ph: "phase_pages og file rp sz jm s"
    and q: "to_r s = MPage p d # ms" and r: "r_spec (p_r s) (MPage p d) r' out"
  shows "phase_pages og file rp sz jm (s\<lparr>p_r := r', to_r := ms, to_o := to_o s @ out\<rparr>)"
proof -
  let ?db = "rq_db (p_r s)"
  from ph have st: "pages_static og file rp sz jm s" by (simp add: phase_pages_def)
  from ph obtain rows0 where pr: "pages_rows og rp sz jm s rows0" by (auto simp: phase_pages_def)
  then have tr: "MPage p d # ms = page_queue rows0 @ [MTxn (sp_count (p_o s)), MEnd]"
    and dist: "distinct (map fst rows0)"
    and data: "\<forall>(p, d) \<in> set rows0. page_at og p = Some d \<and> p \<noteq> lock_page sz"
    and ok: "\<forall>p. 1 \<le> p \<and> p \<le> int (length og) \<and> p \<notin> fst ` set rows0 \<longrightarrow> page_ok og sz jm (r_work ?db) p"
    and cnt: "sp_sent (p_o s) = rq_pages (p_r s) + of_nat (length rows0)"
    using q by (simp_all add: pages_rows_def)
  from st have lock: "\<forall>d. page_at (r_work ?db) (lock_page sz) = Some d \<longrightarrow> d = replicate (nat sz) 0"
    by (simp add: pages_static_def)
  from tr obtain pi rows where rows0: "rows0 = (pi, d) # rows" and p: "p = word_of_int pi"
    and ms: "ms = page_queue rows @ [MTxn (sp_count (p_o s)), MEnd]" by (cases rows0) auto
  from data rows0 have og: "page_at og pi = Some d" "pi \<noteq> lock_page sz" by auto
  then have b: "1 \<le> pi" "pi \<le> int (length og)" by (auto simp: page_at_Some)
  with setting_len [OF set] have u: "uint p = pi" by (simp add: p)
  have jm: "rq_jm (p_r s) = jm" "r_psize ?db = sz" using st by (simp_all add: pages_static_def)
  let ?d = "if p = 1 then kept_wal jm d else d"
  let ?w = "write_page sz pi ?d (r_work ?db)"
  from r jm u have r': "r' = (p_r s)\<lparr>rq_db := ?db\<lparr>r_work := ?w\<rparr>, rq_ins := True, rq_pages := rq_pages (p_r s) + 1\<rparr>"
    "out = []" by (auto simp: on_page_def split: if_splits)
  have p1: "p = 1 \<longleftrightarrow> pi = 1" using u by (metis uint_1_eq word_uint_eqI)
  have wd: "?d = (if pi = 1 then kept_wal jm d else d)" using p1 by simp
  have at: "page_at ?w x = (if x = pi then Some ?d
      else if int (length (r_work ?db)) < x \<and> x < pi then Some (replicate (nat sz) 0)
      else page_at (r_work ?db) x)" for x by (rule page_at_write_page [OF b(1)])
  have lock': "\<forall>d. page_at ?w (lock_page sz) = Some d \<longrightarrow> d = replicate (nat sz) 0"
    using lock og(2) by (auto simp: at)
  have ok': "page_ok og sz jm ?w x" if x: "1 \<le> x" "x \<le> int (length og)" "x \<notin> fst ` set rows" for x
  proof (cases "x = pi")
    case True
    then have "page_at ?w x = Some ?d" using at by simp
    with True og(1) show ?thesis by (simp add: page_ok_def page_at_copy_of wd)
  next
    case False
    with x rows0 ok have okx: "page_ok og sz jm (r_work ?db) x" by auto
    show ?thesis
    proof (cases "int (length (r_work ?db)) < x \<and> x < pi")
      case True
      then have none: "page_at (r_work ?db) x = None" by (simp add: page_at_None)
      have "page_at (copy_of jm og) x \<noteq> None" using x by (simp add: page_at_copy_of page_at_None)
      with okx none have xl: "x = lock_page sz" by (auto simp: page_ok_def)
      obtain e where e: "page_at og x = Some e" using x by (auto simp: page_at_def)
      then have "e = replicate (nat sz) 0" using set xl by (simp add: setting_def wf_file_def)
      moreover have "x \<noteq> 1" using lock_page_gt1 [OF set] xl by simp
      ultimately show ?thesis using True False e by (simp add: page_ok_def at page_at_copy_of)
    next
      case False
      with \<open>x \<noteq> pi\<close> have "page_at ?w x = page_at (r_work ?db) x" using at [of x] by presburger
      with okx show ?thesis by (simp add: page_ok_def)
    qed
  qed
  have cnt': "sp_sent (p_o s) = rq_pages r' + of_nat (length rows)"
    using cnt by (simp add: rows0 r')
  have "pages_rows og rp sz jm (s\<lparr>p_r := r', to_r := ms, to_o := to_o s @ out\<rparr>) rows"
    using ms dist data ok' cnt' r' rows0 by (auto simp: pages_rows_def)
  moreover have "pages_static og file rp sz jm (s\<lparr>p_r := r', to_r := ms, to_o := to_o s @ out\<rparr>)"
    using st lock' r' by (simp add: pages_static_def)
  ultimately show ?thesis by (auto simp: phase_pages_def)
qed

section \<open>The commit\<close>

lemma pages_complete:
  assumes set: "setting og rp sz jm"
    and ok: "\<And>p. 1 \<le> p \<Longrightarrow> p \<le> int (length og) \<Longrightarrow> page_ok og sz jm work p"
  shows "length og \<le> length work \<and> take (length og) work = copy_of jm og"
proof -
  have len: "length og \<le> length work"
  proof (cases "og = []")
    case False
    then have "0 < length og" by simp
    then have n: "1 \<le> int (length og)" by linarith
    have "int (length og) \<noteq> lock_page sz" using set by (simp add: setting_def wf_file_def)
    with ok [OF n] have "page_at work (int (length og)) = page_at (copy_of jm og) (int (length og))"
      by (simp add: page_ok_def)
    moreover have "page_at (copy_of jm og) (int (length og)) \<noteq> None"
      using n False by (simp add: page_at_None)
    ultimately show ?thesis by (auto simp: page_at_def split: if_splits)
  qed simp
  have "take (length og) work = copy_of jm og"
  proof (rule pages_eqI)
    fix p :: int assume p: "1 \<le> p"
    show "page_at (take (length og) work) p = page_at (copy_of jm og) p"
    proof (cases "p \<le> int (length og)")
      case True
      with p len have "page_at (take (length og) work) p = page_at work p" by (auto simp: page_at_def)
      moreover have "page_at work p \<noteq> None" using p True len by (simp add: page_at_None)
      ultimately show ?thesis using ok [OF p True] by (auto simp: page_ok_def)
    next
      case False
      with p len show ?thesis by (simp add: page_at_def)
    qed
  qed
  with len show ?thesis by simp
qed

lemma nothing_to_send:
  assumes set: "setting og rp sz jm" and none: "page_diff og rp sz = {}"
    and ok: "\<And>p. 1 \<le> p \<Longrightarrow> p \<le> int (length og) \<Longrightarrow> page_ok og sz jm rp p"
  shows "rp = copy_of jm og"
proof -
  have "length og = length rp"
  proof (rule ccontr)
    assume "length og \<noteq> length rp"
    with set have "og \<noteq> []" "page_at og 1 \<noteq> page_at rp 1" by (auto simp: setting_def header_count_def)
    with lock_page_gt1 [OF set] have "1 \<in> page_diff og rp sz" by (cases og) (auto simp: page_diff_def)
    with none show False by simp
  qed
  with pages_complete [OF set ok] show ?thesis by simp
qed

lemma pages_txn:
  assumes set: "setting og rp sz jm" and ph: "phase_pages og file rp sz jm s"
    and q: "to_r s = MTxn n # ms" and r: "r_spec (p_r s) (MTxn n) r' out"
  shows "phase_committed og rp sz jm (s\<lparr>p_r := r', to_r := ms, to_o := to_o s @ out\<rparr>)"
proof -
  let ?db = "rq_db (p_r s)"
  from ph have st: "pages_static og file rp sz jm s" by (simp add: phase_pages_def)
  from ph obtain rows where pr: "pages_rows og rp sz jm s rows" by (auto simp: phase_pages_def)
  with q have rows: "rows = []" and n: "n = sp_count (p_o s)" and ms: "ms = [MEnd]"
    by (cases rows; auto simp: pages_rows_def)+
  from pr rows have ok: "page_ok og sz jm (r_work ?db) p" if "1 \<le> p" "p \<le> int (length og)" for p
    using that by (simp add: pages_rows_def)
  have un: "uint n = int (length og)" using st by (simp add: n pages_static_def origin_const_def)
  have "length og < 2 ^ 32 - 1" using set by (simp add: setting_def wf_file_def)
  then have small: "n < 0xffffffff" using un by (simp add: word_less_def)
  have out: "out = []" using r by auto
  from r obtain r1 d where r1: "on_txn (p_r s) n = Some r1" and c: "commits (rq_db r1) d" and r': "r' = r1\<lparr>rq_db := d\<rparr>"
    by auto
  have cut: "r_work (rq_db r1) = copy_of jm og \<and> rq_pages r1 = rq_pages (p_r s) \<and>
    rq_rounds r1 = rq_rounds (p_r s) \<and> rq_size r1 = rq_size (p_r s)"
  proof (cases "rq_ins (p_r s)")
    case True
    with r1 small un have "r_work (rq_db r1) = take (length og) (r_work ?db)"
      "rq_pages r1 = rq_pages (p_r s)" "rq_rounds r1 = rq_rounds (p_r s)" "rq_size r1 = rq_size (p_r s)"
      by (auto simp: on_txn_def split: if_splits)
    with pages_complete [OF set ok] show ?thesis by simp
  next
    case False
    with pr rows have w: "r_work ?db = rp" "page_diff og rp sz = {}" by (auto simp: pages_rows_def)
    from False r1 have "r1 = p_r s" by (auto simp: on_txn_def split: if_splits)
    with nothing_to_send [OF set w(2)] ok w(1) show ?thesis by simp
  qed
  then have committed: "restamped (copy_of jm og) (r_file (rq_db r')) \<and> \<not> r_txn (rq_db r') \<and> rq_pages r' = rq_pages (p_r s) \<and>
    rq_rounds r' = rq_rounds (p_r s) \<and> rq_size r' = rq_size (p_r s)"
    using c by (auto simp: r' elim!: commitsE)
  have "sp_sent (p_o s) = rq_pages (p_r s)" using pr rows by (simp add: pages_rows_def)
  with st committed ms out show ?thesis by (auto simp: phase_committed_def pages_static_def)
qed

section \<open>The beginning\<close>

text \<open>What the replica's connection will show once it is opened for pages of \<open>sz\<close> bytes.\<close>

definition start_pages :: "int \<Rightarrow> rdb \<Rightarrow> pages" where
  "start_pages sz d = r_work (opened sz d)"

definition start_mode :: "rdb \<Rightarrow> byte" where
  "start_mode d = (if r_mode d = ''wal'' then 2 else 1)"

lemma opened_close [simp]: "opened sz (r_close d) = opened sz d"
  by (simp add: opened_def r_close_def Let_def)

lemma r_close_fields [simp]:
  "r_file (r_close d) = r_file d" "r_mode (r_close d) = r_mode d" "r_psize (r_close d) = r_psize d"
  "r_enc (r_close d) = r_enc d" "r_fresh (r_close d) = r_fresh d" "r_path (r_close d) = r_path d"
  "r_close (r_close d) = r_close d"
  by (simp_all add: r_close_def)

lemma opened_fields [simp]:
  "r_file (opened sz d) = r_file d" "r_mode (opened sz d) = r_mode d" "r_txn (opened sz d)"
  "r_send (opened sz d) = Some []" "r_attached (opened sz d)"
  by (simp_all add: opened_def r_close_def Let_def)

text \<open>
  The origin has announced itself and knows nothing of the replica yet; a replica with an older
  protocol answers with its own.
\<close>

definition begin_static :: "pages \<Rightarrow> rdb \<Rightarrow> int \<Rightarrow> psys \<Rightarrow> bool" where
  "begin_static og d0 sz s \<longleftrightarrow>
     \<not> ended s \<and> origin_const og sz (p_o s) \<and> o_bad (sp_db (p_o s)) = None \<and>
     sp_i (p_o s) = 1 \<and> sp_n (p_o s) = 1 \<and> sp_mx (p_o s) = 0 \<and>
     sp_rounds (p_o s) = 0 \<and> sp_sent (p_o s) = 0 \<and>
     r_close (rq_db (p_r s)) = r_close d0 \<and> rq_rounds (p_r s) = 0 \<and> rq_pages (p_r s) = 0 \<and>
     \<not> rq_ins (p_r s) \<and> 0 \<le> rq_proto (p_r s) \<and> rq_proto (p_r s) < 256"

definition phase_begin :: "pages \<Rightarrow> rdb \<Rightarrow> int \<Rightarrow> psys \<Rightarrow> bool" where
  "phase_begin og d0 sz s \<longleftrightarrow> begin_static og d0 sz s \<and> to_o s = [] \<and>
     (\<exists>p. to_r s = [MBegin p sz (sp_count (p_o s))] \<and> int (unat p) = sp_proto (p_o s))"

definition phase_propose :: "pages \<Rightarrow> rdb \<Rightarrow> int \<Rightarrow> psys \<Rightarrow> bool" where
  "phase_propose og d0 sz s \<longleftrightarrow> begin_static og d0 sz s \<and> to_r s = [] \<and> 
     (\<exists>p. to_o s = [NPropose p] \<and> int (unat p) < sp_proto (p_o s))"

lemma begin_begin:
  assumes ph: "phase_begin og d0 sz s" and set: "setting og (start_pages sz d0) sz (start_mode d0)"
    and q: "to_r s = MBegin p sz' n # ms" and r: "r_spec (p_r s) (MBegin p sz' n) r' out"
  defines "s' \<equiv> s\<lparr>p_r := r', to_r := ms, to_o := to_o s @ out\<rparr>"
  shows "phase_propose og d0 sz s' \<or> phase_hash og (r_file d0) (start_pages sz d0) sz (start_mode d0) s'"
proof -
  from ph q have st: "begin_static og d0 sz s" and ms: "ms = []" "sz' = sz" "n = sp_count (p_o s)" "to_o s = []"
    and pr: "int (unat p) = sp_proto (p_o s)"
    by (auto simp: phase_begin_def)
  from st have cl: "r_close (rq_db (p_r s)) = r_close d0" by (simp add: begin_static_def)
  then have op: "opened sz (rq_db (p_r s)) = opened sz d0" by (metis opened_close)
  show ?thesis
  proof (cases "int (unat p) > rq_proto (p_r s)")
    case True
    with r have "r' = (p_r s)\<lparr>rq_db := r_close (rq_db (p_r s)), rq_ins := False\<rparr>"
      "out = [NPropose (word_of_int (rq_proto (p_r s)))]" by (auto simp: on_begin_def)
    moreover have "int (unat (word_of_int (rq_proto (p_r s)) :: byte)) = rq_proto (p_r s)"
      using st by (simp add: begin_static_def unsigned_of_int take_bit_int_eq_self)
    ultimately have "phase_propose og d0 sz s'"
      using st ms pr True by (auto simp: phase_propose_def begin_static_def s'_def)
    then show ?thesis by simp
  next
    case False
    let ?rp = "start_pages sz d0"
    let ?es = "sort_key fst (first_rows (int (unat p)) (length ?rp))"
    from False r op ms have r': "rq_db r' = opened sz d0" "rq_jm r' = start_mode d0" "\<not> rq_ins r'"
      "rq_rounds r' = rq_rounds (p_r s) + 1" "rq_pages r' = rq_pages (p_r s)" "rq_size r' = sz"
      "out = batch ?rp ?es (1, 1)" "r_psize (opened sz d0) = sz"
      by (auto simp: on_begin_def Let_def send_batch_def start_pages_def start_mode_def split: if_splits)
    have len: "1 \<le> length ?rp" "length ?rp < 2 ^ 32 - 1"
      using set by (auto simp: setting_def wf_file_def Suc_le_eq)
    note fr = first_rows_spec [OF len, of "int (unat p)"]
    have m: "mset ?es = mset (first_rows (int (unat p)) (length ?rp))" by simp
    have ins: "inside (length ?rp) ?es" using fr inside_perm [OF m] by simp
    have cov: "covering og ?rp ?es" using fr ins pages_of_perm [OF m] by (auto simp: covering_def)
    have szd: "sized ?rp 1000 ?es" using fr by (auto simp: sized_def)
    have "int (length ?rp) \<in> set (pages_of ?es)" using fr len pages_of_perm [OF m] by simp
    then obtain f k where fk: "(f, k) \<in> set ?es" "f \<le> int (length ?rp)" "int (length ?rp) \<le> f + k - 1"
      unfolding set_pages_of by auto
    with covering_len [OF cov fk(1)] have "f + k = int (length ?rp) + 1" by linarith
    with fk(1) have mk: "marked ?rp 0 ?es" by (auto simp: marked_def)
    have "?es \<noteq> []" using fk(1) by (metis list.set(1) empty_iff)
    then have "phase_hash og (r_file d0) ?rp sz (start_mode d0) s'"
      unfolding phase_hash_def
      using st ms r' track_batch [OF ins, of "(1, 1)"] cov szd mk
      by (auto simp: begin_static_def s'_def replica_const_def bad_rows_def single_differs_def
          lvl_def start_pages_def intro!: exI [of _ ?es])
    then show ?thesis by simp
  qed
qed

lemma begin_propose:
  assumes ph: "phase_propose og d0 sz s" and q: "to_o s = NPropose p # ms"
    and o: "o_spec (p_o s) (NPropose p) a out"
  shows "phase_begin og d0 sz (s\<lparr>p_o := a, to_o := ms, to_r := to_r s @ out\<rparr>)"
proof -
  from o have "a = (p_o s)\<lparr>sp_proto := int (unat p)\<rparr>" "out = [MBegin p (o_psize (sp_db (p_o s))) (sp_count (p_o s))]"
    by (auto elim: o_spec_propose)
  with ph q show ?thesis
    by (auto simp: phase_begin_def phase_propose_def begin_static_def origin_const_def)
qed

section \<open>The invariant\<close>

definition protocol_inv :: "pages \<Rightarrow> rdb \<Rightarrow> int \<Rightarrow> psys \<Rightarrow> bool" where
  "protocol_inv og d0 sz s \<longleftrightarrow>
     phase_begin og d0 sz s \<or> phase_propose og d0 sz s \<or>
     phase_hash og (r_file d0) (start_pages sz d0) sz (start_mode d0) s \<or>
     phase_detail og (r_file d0) (start_pages sz d0) sz (start_mode d0) s \<or>
     phase_pages og (r_file d0) (start_pages sz d0) sz (start_mode d0) s \<or>
     phase_committed og (start_pages sz d0) sz (start_mode d0) s"

text \<open>The invariant does not look at the history.\<close>

lemma phases_said [simp]:
  "phase_begin og d0 sz (s\<lparr>said := l\<rparr>) = phase_begin og d0 sz s"
  "phase_propose og d0 sz (s\<lparr>said := l\<rparr>) = phase_propose og d0 sz s"
  "phase_hash og f rp sz jm (s\<lparr>said := l\<rparr>) = phase_hash og f rp sz jm s"
  "phase_detail og f rp sz jm (s\<lparr>said := l\<rparr>) = phase_detail og f rp sz jm s"
  "phase_pages og f rp sz jm (s\<lparr>said := l\<rparr>) = phase_pages og f rp sz jm s"
  "phase_committed og rp sz jm (s\<lparr>said := l\<rparr>) = phase_committed og rp sz jm s"
  by (simp_all add: phase_begin_def phase_propose_def begin_static_def phase_hash_def phase_detail_def detail_static_def
      detail_rows_def phase_pages_def pages_static_def pages_rows_def phase_committed_def)

lemma protocol_inv_said [simp]: "protocol_inv og d0 sz (s\<lparr>said := l\<rparr>) = protocol_inv og d0 sz s"
  by (simp add: protocol_inv_def)

lemma protocol_inv_origin:
  assumes set: "setting og (start_pages sz d0) sz (start_mode d0)" and inv: "protocol_inv og d0 sz s"
    and q: "to_o s = m # ms" and o: "o_spec (p_o s) m a out"
  shows "protocol_inv og d0 sz (s\<lparr>p_o := a, to_o := ms, to_r := to_r s @ out\<rparr>)"
proof -
  let ?rp = "start_pages sz d0" and ?jm = "start_mode d0" and ?f = "r_file d0"
  from inv q consider "phase_propose og d0 sz s" | "phase_hash og ?f ?rp sz ?jm s"
    by (auto simp: protocol_inv_def phase_begin_def phase_detail_def detail_static_def phase_pages_def
        pages_static_def phase_committed_def)
  then show ?thesis
  proof cases
    case 1
    with q obtain p where "m = NPropose p" by (auto simp: phase_propose_def)
    with begin_propose [OF 1] q o show ?thesis by (simp add: protocol_inv_def)
  next
    case 2
    show ?thesis
    proof (cases m)
      case (NPropose p)
      with 2 q show ?thesis by (simp add: phase_hash_def)
    next
      case (NConfig i n)
      with hash_config [OF 2] q o show ?thesis by (simp add: protocol_inv_def)
    next
      case (NHash h)
      with hash_hash [OF set 2] q o show ?thesis by (simp add: protocol_inv_def)
    next
      case NReady
      with hash_ready [OF set 2] q o show ?thesis by (auto simp: protocol_inv_def)
    qed
  qed
qed

lemma protocol_inv_replica:
  assumes set: "setting og (start_pages sz d0) sz (start_mode d0)" and inv: "protocol_inv og d0 sz s"
    and q: "to_r s = m # ms" and r: "r_spec (p_r s) m r' out"
  shows "protocol_inv og d0 sz (s\<lparr>p_r := r', to_r := ms, to_o := to_o s @ out\<rparr>)"
proof -
  let ?rp = "start_pages sz d0" and ?jm = "start_mode d0" and ?f = "r_file d0"
  have m: "m \<noteq> MEnd" using r by auto
  from inv q m consider "phase_begin og d0 sz s" | "phase_detail og ?f ?rp sz ?jm s"
    | "phase_pages og ?f ?rp sz ?jm s"
    by (auto simp: protocol_inv_def phase_propose_def phase_hash_def phase_committed_def split: if_splits)
  then show ?thesis
  proof cases
    case 1
    with q obtain p where "m = MBegin p sz (sp_count (p_o s))" by (auto simp: phase_begin_def)
    with begin_begin [OF 1 set] q r show ?thesis by (auto simp: protocol_inv_def)
  next
    case 2
    then obtain rows qs bad where "detail_rows og ?rp s rows qs bad" by (auto simp: phase_detail_def)
    with q consider f k where "m = MDetail f k" | "m = MReady"
      by (cases rows) (auto simp: detail_rows_def)
    then show ?thesis
    proof cases
      case 1
      with detail_detail [OF set 2] q r show ?thesis by (auto simp: protocol_inv_def)
    next
      case 2
      with detail_ready [OF set \<open>phase_detail og ?f ?rp sz ?jm s\<close>] q r show ?thesis
        by (auto simp: protocol_inv_def)
    qed
  next
    case 3
    then obtain rows where "pages_rows og ?rp sz ?jm s rows" by (auto simp: phase_pages_def)
    with q consider p d where "m = MPage p d" | n where "m = MTxn n"
      by (cases rows) (auto simp: pages_rows_def)
    then show ?thesis
    proof cases
      case 1
      with pages_page [OF set 3] q r show ?thesis by (auto simp: protocol_inv_def)
    next
      case 2
      with pages_txn [OF set 3] q r show ?thesis by (auto simp: protocol_inv_def)
    qed
  qed
qed

lemma protocol_inv_finish:
  assumes inv: "protocol_inv og d0 sz s" and q: "to_r s = MEnd # ms" and e: "\<not> ended s"
  shows "protocol_inv og d0 sz (s\<lparr>to_r := ms, ended := True\<rparr>)"
proof -
  let ?rp = "start_pages sz d0" and ?jm = "start_mode d0" and ?f = "r_file d0"
  have "\<not> phase_detail og ?f ?rp sz ?jm s"
  proof
    assume "phase_detail og ?f ?rp sz ?jm s"
    then obtain rows qs bad where "detail_rows og ?rp s rows qs bad" by (auto simp: phase_detail_def)
    with q show False by (cases rows) (auto simp: detail_rows_def)
  qed
  moreover have "\<not> phase_pages og ?f ?rp sz ?jm s"
  proof
    assume "phase_pages og ?f ?rp sz ?jm s"
    then obtain rows where "pages_rows og ?rp sz ?jm s rows" by (auto simp: phase_pages_def)
    with q show False by (cases rows) (auto simp: pages_rows_def)
  qed
  ultimately have "phase_committed og ?rp sz ?jm s"
    using inv q by (auto simp: protocol_inv_def phase_begin_def phase_propose_def phase_hash_def)
  with q e show ?thesis by (auto simp: protocol_inv_def phase_committed_def)
qed

lemma protocol_inv_step:
  assumes set: "setting og (start_pages sz d0) sz (start_mode d0)" and inv: "protocol_inv og d0 sz s"
    and step: "psys_step s s'"
  shows "protocol_inv og d0 sz s'"
  using step
  by (rule psys_stepE)
    (auto intro: protocol_inv_origin [OF set inv] protocol_inv_replica [OF set inv]
      protocol_inv_finish [OF inv])

lemma protocol_inv_steps:
  assumes set: "setting og (start_pages sz d0) sz (start_mode d0)" and "psys_step\<^sup>*\<^sup>* s s'"
    and "protocol_inv og d0 sz s"
  shows "protocol_inv og d0 sz s'"
  using assms(2,3) by (induction rule: rtranclp_induct) (auto intro: protocol_inv_step [OF set])

text \<open>What the invariant says of the file and of a run that has ended.\<close>

lemma protocol_inv_file:
  assumes "protocol_inv og d0 sz s"
  shows "r_file (rq_db (p_r s)) = r_file d0 \<or> restamped (copy_of (start_mode d0) og) (r_file (rq_db (p_r s)))"
proof -
  have "r_file (rq_db (p_r s)) = r_file d0" if "r_close (rq_db (p_r s)) = r_close d0"
    using that by (metis r_close_fields(1))
  with assms show ?thesis
    by (auto simp: protocol_inv_def phase_begin_def phase_propose_def begin_static_def phase_hash_def
        replica_const_def phase_detail_def detail_static_def phase_pages_def pages_static_def
        phase_committed_def)
qed

lemma protocol_inv_ended:
  assumes "protocol_inv og d0 sz s" and "ended s"
  shows "restamped (copy_of (start_mode d0) og) (r_file (rq_db (p_r s))) \<and>
    rq_pages (p_r s) = of_nat (card (page_diff og (start_pages sz d0) sz)) \<and>
    sp_sent (p_o s) = rq_pages (p_r s) \<and> unat (rq_rounds (p_r s)) \<le> 3 \<and>
    rq_rounds (p_r s) = sp_rounds (p_o s) \<and> to_o s = [] \<and> to_r s = [] \<and>
    1 \<le> unat (rq_rounds (p_r s)) \<and> origin_const og sz (p_o s) \<and> rq_size (p_r s) = sz"
  using assms
  by (auto simp: protocol_inv_def phase_begin_def phase_propose_def begin_static_def phase_hash_def
      phase_detail_def detail_static_def phase_pages_def pages_static_def phase_committed_def)

section \<open>The pages that are sent\<close>

text \<open>
  The pages in a history of messages, by their numbers. Nothing but the answer to the last REPLICA_READY
  contains any, so the history has none until then and exactly the ones that differ afterwards.
\<close>

definition sent_pages :: "omsg list \<Rightarrow> (int \<times> bytes) list" where
  "sent_pages ms = List.map_filter (\<lambda>m. case m of MPage p d \<Rightarrow> Some (uint p, d) | _ \<Rightarrow> None) ms"

lemma sent_pages_simps [simp]:
  "sent_pages [] = []" "sent_pages (a @ b) = sent_pages a @ sent_pages b"
  "sent_pages (MPage p d # ms) = (uint p, d) # sent_pages ms"
  "sent_pages (MBegin v z n # ms) = sent_pages ms" "sent_pages (MDetail f k # ms) = sent_pages ms"
  "sent_pages (MReady # ms) = sent_pages ms" "sent_pages (MTxn n # ms) = sent_pages ms" "sent_pages (MEnd # ms) = sent_pages ms"
  by (simp_all add: sent_pages_def List.map_filter_simps) (simp add: List.map_filter_def)

lemma sent_pages_details [simp]: "sent_pages (detail_msgs rows) = []"
  by (induction rows) (simp_all add: detail_msgs_def)

lemma sent_pages_queue:
  "\<forall>(p, d) \<in> set rows. 0 \<le> p \<and> p < 2 ^ 32 \<Longrightarrow> sent_pages (page_queue rows) = rows"
  by (induction rows) (auto simp: page_queue_def)

definition early :: "pages \<Rightarrow> rdb \<Rightarrow> int \<Rightarrow> psys \<Rightarrow> bool" where
  "early og d0 sz s \<longleftrightarrow> phase_begin og d0 sz s \<or> phase_propose og d0 sz s \<or>
     phase_hash og (r_file d0) (start_pages sz d0) sz (start_mode d0) s \<or>
     phase_detail og (r_file d0) (start_pages sz d0) sz (start_mode d0) s"

definition late :: "pages \<Rightarrow> rdb \<Rightarrow> int \<Rightarrow> psys \<Rightarrow> bool" where
  "late og d0 sz s \<longleftrightarrow> phase_pages og (r_file d0) (start_pages sz d0) sz (start_mode d0) s \<or>
     phase_committed og (start_pages sz d0) sz (start_mode d0) s"

text \<open>Each page that differs is sent once, with the origin's data, and no other page is.\<close>

definition differing_sent :: "pages \<Rightarrow> pages \<Rightarrow> int \<Rightarrow> (int \<times> bytes) list \<Rightarrow> bool" where
  "differing_sent og rp sz ps \<longleftrightarrow> distinct (map fst ps) \<and> fst ` set ps = page_diff og rp sz \<and>
     (\<forall>(p, d) \<in> set ps. page_at og p = Some d)"

definition history :: "pages \<Rightarrow> rdb \<Rightarrow> int \<Rightarrow> psys \<Rightarrow> bool" where
  "history og d0 sz s \<longleftrightarrow> early og d0 sz s \<and> sent_pages (said s) = [] \<or>
     late og d0 sz s \<and> differing_sent og (start_pages sz d0) sz (sent_pages (said s))"

lemma late_answers: "late og d0 sz s \<Longrightarrow> to_o s = []"
  by (auto simp: late_def phase_pages_def pages_static_def phase_committed_def)

lemma pages_answer:
  assumes set: "setting og rp sz jm" and ph: "phase_pages og file rp sz jm s" and "\<not> rq_ins (p_r s)" "to_r s = out"
  shows "differing_sent og rp sz (sent_pages out)"
proof -
  from ph obtain rows where pr: "pages_rows og rp sz jm s rows" by (auto simp: phase_pages_def)
  have "\<forall>(p, d) \<in> set rows. 0 \<le> p \<and> p < 2 ^ 32"
    using pr setting_len [OF set] by (fastforce simp: pages_rows_def page_at_Some)
  from sent_pages_queue [OF this] have "sent_pages out = rows"
    using pr assms(4) by (auto simp: pages_rows_def)
  with pr assms(3) show ?thesis by (auto simp: pages_rows_def differing_sent_def)
qed

lemma history_origin:
  assumes set: "setting og (start_pages sz d0) sz (start_mode d0)" and h: "history og d0 sz s"
    and q: "to_o s = m # ms" and o: "o_spec (p_o s) m a out"
  shows "history og d0 sz (s\<lparr>p_o := a, to_o := ms, to_r := to_r s @ out, said := said s @ out\<rparr>)"
proof -
  let ?rp = "start_pages sz d0" and ?jm = "start_mode d0" and ?f = "r_file d0"
  from h q have e: "early og d0 sz s" "sent_pages (said s) = []" using late_answers by (force simp: history_def)+
  from e(1) q consider "phase_propose og d0 sz s" | "phase_hash og ?f ?rp sz ?jm s"
    by (auto simp: early_def phase_begin_def phase_detail_def detail_static_def)
  then show ?thesis
  proof cases
    case 1
    with q obtain p where m: "m = NPropose p" by (auto simp: phase_propose_def)
    with o have "sent_pages out = []" by (auto elim: o_spec_propose)
    with begin_propose [OF 1] q o m e(2) show ?thesis by (simp add: history_def early_def)
  next
    case 2
    show ?thesis
    proof (cases m)
      case (NPropose p)
      with 2 q show ?thesis by (simp add: phase_hash_def)
    next
      case (NConfig i n)
      with o have "out = []" by (auto elim: o_spec_config)
      with hash_config [OF 2 q [unfolded NConfig] o [unfolded NConfig]] e(2) show ?thesis by (simp add: history_def early_def)
    next
      case (NHash h)
      with o have "out = []" by (auto elim: o_spec_hash)
      with hash_hash [OF set 2 q [unfolded NHash] o [unfolded NHash]] e(2) show ?thesis by (simp add: history_def early_def)
    next
      case NReady
      let ?s = "s\<lparr>p_o := a, to_o := ms, to_r := to_r s @ out\<rparr>"
      have r: "to_r ?s = out" "\<not> rq_ins (p_r ?s)" using 2 by (simp_all add: phase_hash_def replica_const_def)
      from hash_ready [OF set 2] q o NReady consider "phase_detail og ?f ?rp sz ?jm ?s" | "phase_pages og ?f ?rp sz ?jm ?s"
        by auto
      then show ?thesis
      proof cases
        case 1
        with r(1) have "sent_pages out = []" by (auto simp: phase_detail_def detail_rows_def)
        with 1 e(2) show ?thesis by (simp add: history_def early_def)
      next
        case 2
        with pages_answer [OF set 2 r(2,1)] e(2) show ?thesis by (simp add: history_def late_def)
      qed
    qed
  qed
qed

lemma history_replica:
  assumes set: "setting og (start_pages sz d0) sz (start_mode d0)" and h: "history og d0 sz s"
    and q: "to_r s = m # ms" and r: "r_spec (p_r s) m r' out"
  shows "history og d0 sz (s\<lparr>p_r := r', to_r := ms, to_o := to_o s @ out\<rparr>)"
proof -
  let ?rp = "start_pages sz d0" and ?jm = "start_mode d0" and ?f = "r_file d0"
  let ?s = "s\<lparr>p_r := r', to_r := ms, to_o := to_o s @ out\<rparr>"
  have m: "m \<noteq> MEnd" using r by auto
  have "early og d0 sz ?s" if "early og d0 sz s"
  proof -
    from that q consider "phase_begin og d0 sz s" | "phase_detail og ?f ?rp sz ?jm s"
      by (auto simp: early_def phase_propose_def phase_hash_def)
    then show ?thesis
    proof cases
      case 1
      with q obtain p where "m = MBegin p sz (sp_count (p_o s))" by (auto simp: phase_begin_def)
      with begin_begin [OF 1 set] q r show ?thesis by (auto simp: early_def)
    next
      case 2
      then obtain rows qs bad where "detail_rows og ?rp s rows qs bad" by (auto simp: phase_detail_def)
      with q consider f k where "m = MDetail f k" | "m = MReady" by (cases rows) (auto simp: detail_rows_def)
      then show ?thesis using detail_detail [OF set 2] detail_ready [OF set 2] q r by cases (auto simp: early_def)
    qed
  qed
  moreover have "late og d0 sz ?s" if "late og d0 sz s"
  proof -
    from that q m have ph: "phase_pages og ?f ?rp sz ?jm s" by (auto simp: late_def phase_committed_def split: if_splits)
    then obtain rows where "pages_rows og ?rp sz ?jm s rows" by (auto simp: phase_pages_def)
    with q consider p d where "m = MPage p d" | n where "m = MTxn n" by (cases rows) (auto simp: pages_rows_def)
    then show ?thesis using pages_page [OF set ph] pages_txn [OF set ph] q r by cases (auto simp: late_def)
  qed
  ultimately show ?thesis using h by (auto simp: history_def)
qed

lemma history_step:
  assumes set: "setting og (start_pages sz d0) sz (start_mode d0)" and h: "history og d0 sz s" and step: "psys_step s s'"
  shows "history og d0 sz s'"
  using step
proof (rule psys_stepE)
  fix ms
  assume s': "s' = s\<lparr>to_r := ms, ended := True\<rparr>" and q: "to_r s = MEnd # ms" "\<not> ended s"
  let ?rp = "start_pages sz d0" and ?jm = "start_mode d0" and ?f = "r_file d0"
  have "\<not> phase_detail og ?f ?rp sz ?jm s" "\<not> phase_pages og ?f ?rp sz ?jm s"
    using q(1) by (auto simp: phase_detail_def detail_rows_def phase_pages_def pages_rows_def detail_msgs_def page_queue_def
        Cons_eq_append_conv Cons_eq_map_conv)
  with h q have "phase_committed og ?rp sz ?jm s" "differing_sent og ?rp sz (sent_pages (said s))"
    by (auto simp: history_def early_def late_def phase_begin_def phase_propose_def phase_hash_def)
  with q s' show ?thesis by (auto simp: history_def late_def phase_committed_def)
qed (simp_all add: history_origin [OF set h] history_replica [OF set h])

lemma history_ended: "history og d0 sz s \<Longrightarrow> ended s \<Longrightarrow> differing_sent og (start_pages sz d0) sz (sent_pages (said s))"
  by (auto simp: history_def early_def phase_begin_def phase_propose_def begin_static_def phase_hash_def phase_detail_def
      detail_static_def)

end
