(* ===== verification/Refine.thy ===== *)
theory Refine
  imports Convergence WireProps
begin

text \<open>
  Running the concrete handlers. \<open>wpo m Q s\<close>: running \<open>m\<close> from \<open>s\<close> ends in an outcome and state that
  satisfy \<open>Q\<close>. The rules say what the wire operations do on a sound stream and what the calls on the
  connection do over a sound engine, so that a handler is executed symbolically.
\<close>

section \<open>Outcomes\<close>

definition wpo :: "('s, 'a) gom \<Rightarrow> ('a outcome \<Rightarrow> 's \<Rightarrow> bool) \<Rightarrow> 's \<Rightarrow> bool" where
  "wpo m Q s = (case m s of (r, s') \<Rightarrow> Q r s')"

lemma wpoD: "wpo m Q s \<Longrightarrow> m s = (r, s') \<Longrightarrow> Q r s'"
  by (simp add: wpo_def)

lemma wpo_mono: "wpo m Q s \<Longrightarrow> (\<And>r s'. Q r s' \<Longrightarrow> R r s') \<Longrightarrow> wpo m R s"
  by (auto simp: wpo_def split: prod.splits)

lemma wpo_seq:
  "wpo (seq m k) Q s \<longleftrightarrow>
     wpo m (\<lambda>r s'. case r of Val x \<Rightarrow> wpo (k x) Q s' | Return e \<Rightarrow> Q (Return e) s' | Panic p \<Rightarrow> Q (Panic p) s') s"
  by (auto simp: wpo_def seq_def split: prod.splits outcome.splits)

lemma wpo_ret [simp]: "wpo (ret x) Q s \<longleftrightarrow> Q (Val x) s"
  by (simp add: wpo_def ret_def)

lemma wpo_Pair [simp]: "wpo (Pair r) Q s \<longleftrightarrow> Q r s"
  by (simp add: wpo_def)

lemma seq_Pair [simp]: "seq (Pair (Val x)) k = k x" "seq (Pair (Return e)) k = Pair (Return e)"
  "seq (Pair (Panic p)) k = Pair (Panic p)"
  by (simp_all add: fun_eq_iff seq_def)

lemma wpo_stop [simp]: "wpo (stop e) Q s \<longleftrightarrow> Q (Return e) s"
  by (simp add: wpo_def stop_def)

lemma wpo_panic [simp]: "wpo (panic p) Q s \<longleftrightarrow> Q (Panic p) s"
  by (simp add: wpo_def panic_def)

lemma wpo_gets [simp]: "wpo (gets f) Q s \<longleftrightarrow> Q (Val (f s)) s"
  by (simp add: wpo_def gets_def)

lemma wpo_modify [simp]: "wpo (modify g) Q s \<longleftrightarrow> Q (Val ()) (g s)"
  by (simp add: wpo_def modify_def)

lemma wpo_cond [simp]: "wpo (cond b m) Q s \<longleftrightarrow> (if b then wpo m Q s else Q (Val ()) s)"
  by (simp add: cond_def)

lemma wpo_push_defer [simp]: "wpo (push_defer d) Q s \<longleftrightarrow> Q (Val ()) (s\<lparr>defers := d # defers s\<rparr>)"
  by (simp add: push_defer_def)

lemma wpo_try_err:
  "wpo (try_err m) Q s \<longleftrightarrow>
     wpo m (\<lambda>r s'. case r of Val None \<Rightarrow> Q (Val ()) s' | Val (Some e) \<Rightarrow> Q (Return (Some e)) s'
       | Return e \<Rightarrow> Q (Return e) s' | Panic p \<Rightarrow> Q (Panic p) s') s"
  by (auto simp: try_err_def wpo_def seq_def chk_def ret_def stop_def split: prod.splits outcome.splits option.splits)

lemma wpo_try_val:
  "wpo (try_val m) Q s \<longleftrightarrow>
     wpo m (\<lambda>r s'. case r of Val (Inr v) \<Rightarrow> Q (Val v) s' | Val (Inl e) \<Rightarrow> Q (Return (Some e)) s'
       | Return e \<Rightarrow> Q (Return e) s' | Panic p \<Rightarrow> Q (Panic p) s') s"
  by (auto simp: try_val_def wpo_def seq_def ret_def stop_def split: prod.splits outcome.splits sum.splits)

lemma wpo_r_op: "wpo (r_op f) Q s \<longleftrightarrow> Q (Val (snd (f (rs_r s)))) (s\<lparr>rs_r := fst (f (rs_r s))\<rparr>)"
  by (simp add: wpo_def r_op_def split: prod.splits)

lemma wpo_w_op: "wpo (w_op f) Q s \<longleftrightarrow> Q (Val (snd (f (rs_w s)))) (s\<lparr>rs_w := fst (f (rs_w s))\<rparr>)"
  by (simp add: wpo_def w_op_def split: prod.splits)

lemma wpo_call:
  "wpo (call m) Q s \<longleftrightarrow> wpo m (\<lambda>r s'. case r of Val _ \<Rightarrow> Q (Val None) s' | Return e \<Rightarrow> Q (Val e) s'
     | Panic p \<Rightarrow> Q (Panic p) s') s"
  by (auto simp: wpo_def call_def split: prod.splits outcome.splits)

lemma wpo_deferred:
  "wpo (deferred d m) Q s \<longleftrightarrow> wpo m (\<lambda>r s'. case r of Val x \<Rightarrow> Q (Val x) s'
     | Return e \<Rightarrow> wpo d (\<lambda>r' s''. case r' of Val e' \<Rightarrow> Q (Return (join_errs [e, e'])) s''
         | Return e' \<Rightarrow> Q (Return e') s'' | Panic p \<Rightarrow> Q (Panic p) s'') s'
     | Panic p \<Rightarrow> Q (Panic p) s') s"
  by (auto simp: wpo_def deferred_def split: prod.splits outcome.splits)

text \<open>A loop over rows: the first row, then the others.\<close>

lemma wpo_foreach_Cons:
  "wpo (foreach f (x # xs)) Q s \<longleftrightarrow> wpo (f x) (\<lambda>r s'. case r of Val _ \<Rightarrow> wpo (foreach f xs) Q s'
     | Return e \<Rightarrow> Q (Return e) s' | Panic p \<Rightarrow> Q (Panic p) s') s"
  by (simp add: wpo_seq cong: outcome.case_cong)

lemma wpo_foreach_Nil [simp]: "wpo (foreach f []) Q s \<longleftrightarrow> Q (Val ()) s"
  by simp

section \<open>Reading a sound stream\<close>

text \<open>What the reader is after consuming input: the same but for the bytes to come and the counter.\<close>

definition r_now :: "Reader \<Rightarrow> bytes \<Rightarrow> Reader \<Rightarrow> bool" where
  "r_now r rest r' \<longleftrightarrow> r_live r' \<and> r_avail r' = rest \<and> r_end r' = r_end r \<and>
     bytesRead r' + of_nat (length rest) = bytesRead r + of_nat (length (r_avail r))"

lemma r_now_trans: "r_now r rest r1 \<Longrightarrow> r_now r1 rest' r' \<Longrightarrow> r_now r rest' r'"
  by (simp add: r_now_def)

lemma r_nowD: "r_now r rest r' \<Longrightarrow> r_live r' \<and> r_avail r' = rest"
  by (simp add: r_now_def)

lemma wpo_rd_byte:
  assumes "r_live (rs_r s)" and "r_avail (rs_r s) = x # rest"
    and "\<And>r'. r_now (rs_r s) rest r' \<Longrightarrow> Q (Val x) (s\<lparr>rs_r := r'\<rparr>)"
  shows "wpo rd_byte Q s"
proof -
  from ReadByte_live [OF assms(1,2)] obtain r' where r': "ReadByte (rs_r s) = (r', Inr x)"
    "r_live r'" "took (rs_r s) [x] r'" "r_avail r' = rest" by blast
  with assms(3) [of r'] show ?thesis by (simp add: rd_byte_def wpo_try_val wpo_r_op r_now_def took_def)
qed

lemma wpo_rd_u32:
  assumes "r_live (rs_r s)" and "r_avail (rs_r s) = put_u32 x @ rest"
    and "\<And>r'. r_now (rs_r s) rest r' \<Longrightarrow> Q (Val x) (s\<lparr>rs_r := r'\<rparr>)"
  shows "wpo rd_u32 Q s"
proof -
  from ReadUint32_live [OF assms(1,2)] obtain r' where r': "ReadUint32 (rs_r s) = (r', Inr x)"
    "r_live r'" "took (rs_r s) (put_u32 x) r'" "r_avail r' = rest" by blast
  with assms(3) [of r'] show ?thesis by (simp add: rd_u32_def wpo_try_val wpo_r_op r_now_def took_def)
qed

lemma wpo_rd_pow2:
  assumes "r_live (rs_r s)" and "r_avail (rs_r s) = b # rest" and "b \<le> 16"
    and "\<And>r'. r_now (rs_r s) rest r' \<Longrightarrow> Q (Val (push_bit (unat b) 1)) (s\<lparr>rs_r := r'\<rparr>)"
  shows "wpo rd_pow2 Q s"
proof -
  from ReadPow2_live [OF assms(1-3)] obtain r' where r': "ReadPow2 (rs_r s) = (r', Inr (push_bit (unat b) 1))"
    "r_live r'" "took (rs_r s) [b] r'" "r_avail r' = rest" by blast
  with assms(4) [of r'] show ?thesis by (simp add: rd_pow2_def wpo_try_val wpo_r_op r_now_def took_def)
qed

lemma wpo_rd_bytes:
  assumes "r_live (rs_r s)" and "r_avail (rs_r s) = d @ rest" and "n = int (length d)"
    and "\<And>r'. r_now (rs_r s) rest r' \<Longrightarrow> Q (Val d) (s\<lparr>rs_r := r'\<rparr>)"
  shows "wpo (rd_bytes n) Q s"
proof -
  from ReadBytes_live [OF assms(1-3)] obtain r' where r': "ReadBytes (rs_r s) n = (r', Inr d)"
    "r_live r'" "took (rs_r s) d r'" "r_avail r' = rest" by blast
  with assms(4) [of r'] show ?thesis by (simp add: rd_bytes_def wpo_try_val wpo_r_op r_now_def took_def)
qed

lemma wpo_next_message:
  assumes "r_live (rs_r s)" and "r_avail (rs_r s) = x # rest"
    and "\<And>r'. r_now (rs_r s) rest r' \<Longrightarrow> Q (Val x) (s\<lparr>rs_r := r'\<rparr>)"
  shows "wpo next_message Q s"
proof -
  from ReadByte_live [OF assms(1,2)] obtain r' where r': "ReadByte (rs_r s) = (r', Inr x)"
    "r_live r'" "took (rs_r s) [x] r'" "r_avail r' = rest" by blast
  with assms(3) [of r'] show ?thesis by (simp add: next_message_def wpo_seq wpo_r_op r_now_def took_def)
qed

text \<open>A stream that has not delivered enough yet: the read does not return.\<close>

definition r_wait :: "Reader \<Rightarrow> bool" where
  "r_wait r \<longleftrightarrow> r_live r \<and> r_end r = Blocked"

lemma io_ReadFull_short:
  assumes "r_wait r" and "length (r_avail r) < n"
  shows "\<exists>b d. io_ReadFull (rd r) n = (b, d, Some Blocked)"
proof -
  obtain b d e where f: "io_ReadFull (rd r) n = (b, d, e)" by (metis prod_cases3)
  with io_ReadFull_live [of "rd r" n b d e] assms show ?thesis
    by (auto simp: r_wait_def r_live_def r_end_def r_avail_def short_read_err_def)
qed

lemma short_next_message:
  assumes "r_wait (rs_r s)" and "r_avail (rs_r s) = []" and "\<And>s'. Q (Return (Some Blocked)) s'"
  shows "wpo next_message Q s"
  using io_ReadFull_short [OF assms(1), of 1] assms(2,3) by (auto simp: next_message_def wpo_seq wpo_r_op ReadByte_def)

lemma short_rd_byte:
  assumes "r_wait (rs_r s)" and "r_avail (rs_r s) = []" and "\<And>s'. Q (Return (Some Blocked)) s'"
  shows "wpo rd_byte Q s"
  using io_ReadFull_short [OF assms(1), of 1] assms(2,3) by (auto simp: rd_byte_def wpo_try_val wpo_r_op ReadByte_def)

lemma short_rd_pow2:
  assumes "r_wait (rs_r s)" and "r_avail (rs_r s) = []" and "\<And>s'. Q (Return (Some Blocked)) s'"
  shows "wpo rd_pow2 Q s"
  using io_ReadFull_short [OF assms(1), of 1] assms(2,3) by (auto simp: rd_pow2_def wpo_try_val wpo_r_op ReadByte_def ReadPow2_def)

lemma short_rd_u32:
  assumes "r_wait (rs_r s)" and "length (r_avail (rs_r s)) < 4" and "\<And>s'. Q (Return (Some Blocked)) s'"
  shows "wpo rd_u32 Q s"
  using io_ReadFull_short [OF assms(1), of 4] assms(2,3) by (auto simp: rd_u32_def wpo_try_val wpo_r_op ReadUint32_def)

lemma short_rd_bytes:
  assumes "r_wait (rs_r s)" and "0 \<le> n" "length (r_avail (rs_r s)) < nat n"
    and "\<And>s'. Q (Return (Some Blocked)) s'"
  shows "wpo (rd_bytes n) Q s"
  using io_ReadFull_short [OF assms(1,3)] assms(2,4) by (auto simp: rd_bytes_def wpo_try_val wpo_r_op ReadBytes_def)

section \<open>Writing a sound stream\<close>

text \<open>The writer after accepting the bytes \<open>d\<close>.\<close>

definition w_now :: "Writer \<Rightarrow> bytes \<Rightarrow> Writer \<Rightarrow> bool" where
  "w_now w d w' \<longleftrightarrow> w_live w' \<and> w_queued w' = w_queued w @ d \<and>
     bytesWritten w' = bytesWritten w + of_nat (length d)"

lemma w_now_trans: "w_now w d w1 \<Longrightarrow> w_now w1 d' w' \<Longrightarrow> w_now w (d @ d') w'"
  by (simp add: w_now_def)

lemma w_now_live: "w_now w d w' \<Longrightarrow> w_live w'"
  by (simp add: w_now_def)

lemma wpo_wr_byte:
  assumes "w_live (rs_w s)" and "\<And>w'. w_now (rs_w s) [b] w' \<Longrightarrow> Q (Val ()) (s\<lparr>rs_w := w'\<rparr>)"
  shows "wpo (wr_byte b) Q s"
proof -
  from WriteByte_live [OF assms(1)] obtain w' where "WriteByte (rs_w s) b = (w', None)" "w_live w'"
    "gave (rs_w s) [b] w'" "bytesWritten w' = bytesWritten (rs_w s) + 1" by blast
  with assms(2) [of w'] show ?thesis by (simp add: wr_byte_def wpo_try_err wpo_w_op w_now_def gave_def)
qed

lemma wpo_wr_u32:
  assumes "w_live (rs_w s)" and "\<And>w'. w_now (rs_w s) (put_u32 x) w' \<Longrightarrow> Q (Val ()) (s\<lparr>rs_w := w'\<rparr>)"
  shows "wpo (wr_u32 x) Q s"
proof -
  from WriteUint32_live [OF assms(1)] obtain w' where "WriteUint32 (rs_w s) x = (w', None)" "w_live w'"
    "gave (rs_w s) (put_u32 x) w'" "bytesWritten w' = bytesWritten (rs_w s) + 4" by blast
  with assms(2) [of w'] show ?thesis by (simp add: wr_u32_def wpo_try_err wpo_w_op w_now_def gave_def)
qed

lemma wpo_wr_bytes:
  assumes "w_live (rs_w s)" and "\<And>w'. w_now (rs_w s) d w' \<Longrightarrow> Q (Val ()) (s\<lparr>rs_w := w'\<rparr>)"
  shows "wpo (wr_bytes d) Q s"
proof -
  from WriteBytes_live [OF assms(1)] obtain w' where "WriteBytes (rs_w s) d = (w', None)" "w_live w'"
    "gave (rs_w s) d w'" "bytesWritten w' = bytesWritten (rs_w s) + of_nat (length d)" by blast
  with assms(2) [of w'] show ?thesis by (simp add: wr_bytes_def wpo_try_err wpo_w_op w_now_def gave_def)
qed

lemma WritePow2_pow2: "k \<le> 16 \<Longrightarrow> WritePow2 w (2 ^ k) = WriteByte w (of_nat (log2_loop (2 ^ k) 0))"
  by (rule WritePow2_valid) auto

lemma wpo_wr_pow2:
  assumes "w_live (rs_w s)" and "v = 2 ^ j" "j \<le> 16"
    and "\<And>w'. w_now (rs_w s) [pow2_byte v] w' \<Longrightarrow> Q (Val ()) (s\<lparr>rs_w := w'\<rparr>)"
  shows "wpo (wr_pow2 v) Q s"
proof -
  from WriteByte_live [OF assms(1)] obtain w' where w': "WriteByte (rs_w s) (pow2_byte v) = (w', None)" "w_live w'"
    "gave (rs_w s) [pow2_byte v] w'" "bytesWritten w' = bytesWritten (rs_w s) + 1" by blast
  have "WritePow2 (rs_w s) v = WriteByte (rs_w s) (pow2_byte v)"
    using WritePow2_pow2 [OF assms(3), of "rs_w s"] assms(2) by (simp add: pow2_byte_def)
  with w' assms(4) [of w'] show ?thesis by (simp add: wr_pow2_def wpo_try_err wpo_w_op w_now_def gave_def)
qed

text \<open>After a flush everything accepted has been handed to the stream.\<close>

lemma wpo_wr_flush:
  assumes "w_live (rs_w s)"
    and "\<And>w'. w_now (rs_w s) [] w' \<Longrightarrow> w_buf w' = [] \<Longrightarrow> w_sent w' = w_queued (rs_w s) \<Longrightarrow>
      Q (Val ()) (s\<lparr>rs_w := w'\<rparr>)"
  shows "wpo wr_flush Q s"
proof -
  from Flush_live [OF assms(1)] obtain w' where "Flush (rs_w s) = (w', None)" "w_live w'"
    "gave (rs_w s) [] w'" "w_buf w' = []" "w_sent w' = w_queued (rs_w s)"
    "bytesWritten w' = bytesWritten (rs_w s)" by blast
  with assms(2) [of w'] show ?thesis by (simp add: wr_flush_def wpo_try_err wpo_w_op w_now_def gave_def)
qed

section \<open>The rules in sequence\<close>

lemma wpo_seqI:
  "wpo m (\<lambda>r s'. case r of Val x \<Rightarrow> wpo (k x) Q s' | Return e \<Rightarrow> Q (Return e) s' | Panic p \<Rightarrow> Q (Panic p) s') s \<Longrightarrow>
     wpo (seq m k) Q s"
  by (simp only: wpo_seq)

lemma seq_simps [simp]:
  "wpo (seq (gets f) g) Q s \<longleftrightarrow> wpo (g (f s)) Q s"
  "wpo (seq (modify h) k) Q s \<longleftrightarrow> wpo (k ()) Q (h s)"
  "wpo (seq (push_defer d) k) Q s \<longleftrightarrow> wpo (k ()) Q (s\<lparr>defers := d # defers s\<rparr>)"
  by (simp_all add: wpo_seq)

lemmas seq_rd_byte = wpo_seqI [OF wpo_rd_byte, unfolded outcome.case]
lemmas seq_rd_u32 = wpo_seqI [OF wpo_rd_u32, unfolded outcome.case]
lemmas seq_rd_pow2 = wpo_seqI [OF wpo_rd_pow2, unfolded outcome.case]
lemmas seq_rd_bytes = wpo_seqI [OF wpo_rd_bytes, unfolded outcome.case]
lemmas seq_next_message = wpo_seqI [OF wpo_next_message, unfolded outcome.case]
lemmas seq_wr_byte = wpo_seqI [OF wpo_wr_byte, unfolded outcome.case]
lemmas seq_wr_u32 = wpo_seqI [OF wpo_wr_u32, unfolded outcome.case]
lemmas seq_wr_bytes = wpo_seqI [OF wpo_wr_bytes, unfolded outcome.case]
lemmas seq_wr_pow2 = wpo_seqI [OF wpo_wr_pow2, unfolded outcome.case]
lemmas seq_wr_flush = wpo_seqI [OF wpo_wr_flush, unfolded outcome.case]

text \<open>
  A message that has arrived only in part: each read takes what is there, until one finds too little
  and does not return.
\<close>

lemma r_now_wait: "r_now r rest r' \<Longrightarrow> r_wait r \<Longrightarrow> r_wait r'"
  by (simp add: r_wait_def r_now_def)

lemma r_waitD: "r_wait r \<Longrightarrow> r_live r"
  by (simp add: r_wait_def)

lemma wait_next:
  assumes "r_wait (rs_r s)" and "strict_prefix (r_avail (rs_r s)) (x # Y)" and "\<And>s'. Q (Return (Some Blocked)) s'"
    and "\<And>r'. r_wait r' \<Longrightarrow> strict_prefix (r_avail r') Y \<Longrightarrow> wpo (k x) Q (s\<lparr>rs_r := r'\<rparr>)"
  shows "wpo (seq next_message k) Q s"
proof (cases "r_avail (rs_r s)")
  case Nil
  then show ?thesis by (intro wpo_seqI short_next_message [OF assms(1)]) (simp_all add: assms(3))
next
  case (Cons y av)
  with assms(2) have av: "y = x" "strict_prefix av Y" by (simp_all add: strict_prefix_def)
  show ?thesis
    by (rule seq_next_message [OF r_waitD [OF assms(1)], where rest = av and x = x])
      (use Cons av assms r_now_wait r_nowD in auto)
qed

lemma wait_byte:
  assumes "r_wait (rs_r s)" and "strict_prefix (r_avail (rs_r s)) (x # Y)" and "\<And>s'. Q (Return (Some Blocked)) s'"
    and "\<And>r'. r_wait r' \<Longrightarrow> strict_prefix (r_avail r') Y \<Longrightarrow> wpo (k x) Q (s\<lparr>rs_r := r'\<rparr>)"
  shows "wpo (seq rd_byte k) Q s"
proof (cases "r_avail (rs_r s)")
  case Nil
  then show ?thesis by (intro wpo_seqI short_rd_byte [OF assms(1)]) (simp_all add: assms(3))
next
  case (Cons y av)
  with assms(2) have av: "y = x" "strict_prefix av Y" by (simp_all add: strict_prefix_def)
  show ?thesis
    by (rule seq_rd_byte [OF r_waitD [OF assms(1)], where rest = av and x = x])
      (use Cons av assms r_now_wait r_nowD in auto)
qed

lemma wait_pow2:
  assumes "r_wait (rs_r s)" and "strict_prefix (r_avail (rs_r s)) (x # Y)" and "x \<le> 16"
    and "\<And>s'. Q (Return (Some Blocked)) s'"
    and "\<And>r' v. r_wait r' \<Longrightarrow> strict_prefix (r_avail r') Y \<Longrightarrow> wpo (k v) Q (s\<lparr>rs_r := r'\<rparr>)"
  shows "wpo (seq rd_pow2 k) Q s"
proof (cases "r_avail (rs_r s)")
  case Nil
  then show ?thesis by (intro wpo_seqI short_rd_pow2 [OF assms(1)]) (simp_all add: assms(4))
next
  case (Cons y av)
  with assms(2) have av: "y = x" "strict_prefix av Y" by (simp_all add: strict_prefix_def)
  show ?thesis
    by (rule seq_rd_pow2 [OF r_waitD [OF assms(1)], where rest = av and b = x])
      (use Cons av assms r_now_wait r_nowD in auto)
qed

lemma wait_u32:
  assumes "r_wait (rs_r s)" and "strict_prefix (r_avail (rs_r s)) (put_u32 x @ Y)"
    and "\<And>s'. Q (Return (Some Blocked)) s'"
    and "\<And>r'. r_wait r' \<Longrightarrow> strict_prefix (r_avail r') Y \<Longrightarrow> wpo (k x) Q (s\<lparr>rs_r := r'\<rparr>)"
  shows "wpo (seq rd_u32 k) Q s"
proof (cases "length (r_avail (rs_r s)) < 4")
  case True
  then show ?thesis by (intro wpo_seqI short_rd_u32 [OF assms(1)]) (simp_all add: assms(3))
next
  case False
  have "prefix (put_u32 x) (r_avail (rs_r s))"
    by (rule prefix_length_prefix [of _ "put_u32 x @ Y"]) (use assms(2) False in \<open>auto simp: strict_prefix_def\<close>)
  then obtain av where av: "r_avail (rs_r s) = put_u32 x @ av" by (auto simp: prefix_def)
  with assms(2) have "strict_prefix av Y" by (simp add: strict_prefix_def)
  with av show ?thesis
    by (intro seq_rd_u32 [OF r_waitD [OF assms(1)], where rest = av and x = x])
      (use assms r_now_wait r_nowD in auto)
qed

lemma wait_bytes:
  assumes "r_wait (rs_r s)" and "strict_prefix (r_avail (rs_r s)) d" and "n = int (length d)"
    and "\<And>s'. Q (Return (Some Blocked)) s'"
  shows "wpo (seq (rd_bytes n) k) Q s"
proof -
  have "length (r_avail (rs_r s)) < length d" using prefix_length_less [OF assms(2)] .
  then show ?thesis
    by (intro wpo_seqI short_rd_bytes [OF assms(1)]) (simp_all add: assms(3,4))
qed

section \<open>Statements over a sound engine\<close>

lemma wpo_rows_closed: "openRows s \<noteq> Some i \<Longrightarrow> wpo (rows_Close E i) Q s \<longleftrightarrow> Q (Val None) s"
  by (simp add: rows_Close_def wpo_def)

text \<open>
  What the handlers need of the connection, whatever the role: statements that have a meaning in the
  database it shows succeed with it. \<open>exact\<close> says whether the order of rows is fixed.
\<close>

locale sql_engine =
  fixes E :: "'w env" and db_of :: "'w \<Rightarrow> 'd" and sql_of :: "'q \<Rightarrow> string" and args_of :: "'q \<Rightarrow> sqlval list"
    and exec_of :: "'q \<Rightarrow> 'd \<Rightarrow> 'd option" and rows_of :: "'q \<Rightarrow> 'd \<Rightarrow> sqlval list list option" and exact :: bool
  assumes exec_ok: "exec_of q (db_of w) = Some d \<Longrightarrow>
      \<exists>w'. e_exec E w (sql_of q) (args_of q) = (w', None) \<and> db_of w' = d"
    and query_ok: "rows_of q (db_of w) = Some rows \<Longrightarrow>
      \<exists>w' rs. e_query E w (sql_of q) (args_of q) = (w', Inr rs) \<and> db_of w' = db_of w \<and>
        mset (rs_rows rs) = mset rows \<and> (exact \<longrightarrow> rs_rows rs = rows) \<and> rs_err rs = None"
    and prepare_ok: "\<exists>w'. e_prepare E w sql = (w', None) \<and> db_of w' = db_of w"
    and rows_close_ok: "\<exists>w'. e_rows_close E w = (w', None) \<and> db_of w' = db_of w"
    and stmt_close_ok: "\<exists>w'. e_stmt_close E w sql = (w', None) \<and> db_of w' = db_of w"
    and scalar_ok: "\<exists>w'. e_scalar E w name n = (w', None) \<and> db_of w' = db_of w"
    and aggregate_ok: "\<exists>w'. e_aggregate E w name n det = (w', None) \<and> db_of w' = db_of w"
begin

lemma wpo_exec:
  assumes "db s" and "openRows s = None" and "exec_of q (db_of (world s)) = Some d"
    and "\<And>w'. db_of w' = d \<Longrightarrow> Q (Val None) (s\<lparr>world := w'\<rparr>)"
  shows "wpo (db_Exec E (sql_of q) (args_of q)) Q s"
  using exec_ok [OF assms(3)] assms(1,2,4) by (auto simp: db_Exec_def on_db_def wpo_def)

lemma wpo_run:
  assumes "db s" and "openRows s = None" and "exec_of q (db_of (world s)) = Some d"
    and "\<And>w'. db_of w' = d \<Longrightarrow> Q (Val ()) (s\<lparr>world := w'\<rparr>)"
  shows "wpo (try_err (run E (sql_of q) (args_of q))) Q s"
  unfolding run_def wpo_try_err wpo_seq
  by (rule wpo_exec [OF assms(1-3)]) (simp add: assms(4))

lemma wpo_stmt_exec:
  assumes "v = Some (Stmt i (sql_of q))" and "db s" and "openRows s = None" and "exec_of q (db_of (world s)) = Some d"
    and "\<And>w'. db_of w' = d \<Longrightarrow> Q (Val None) (s\<lparr>world := w'\<rparr>)"
  shows "wpo (stmt_Exec E v (args_of q)) Q s"
  using wpo_exec [where Q = Q, OF assms(2-5)] by (simp add: stmt_Exec_def assms(1))

lemma wpo_query:
  assumes "db s" and "openRows s = None" and "rows_of q (db_of (world s)) = Some rows"
    and "\<And>w' rs. db_of w' = db_of (world s) \<Longrightarrow> mset (rs_rows rs) = mset rows \<Longrightarrow> exact \<longrightarrow> rs_rows rs = rows \<Longrightarrow>
      rs_err rs = None \<Longrightarrow>
      Q (Val (Inr (nextId s, rs))) (s\<lparr>world := w', openRows := Some (nextId s), nextId := Suc (nextId s)\<rparr>)"
  shows "wpo (db_Query E (sql_of q) (args_of q)) Q s"
  using query_ok [OF assms(3)] assms(1,2,4) by (auto simp: db_Query_def on_db_def wpo_def seq_def)

lemma wpo_rows_close:
  assumes "openRows s = Some i" and "\<And>w'. db_of w' = db_of (world s) \<Longrightarrow> Q (Val None) (s\<lparr>world := w', openRows := None\<rparr>)"
  shows "wpo (rows_Close E i) Q s"
  using rows_close_ok [of "world s"] assms by (auto simp: rows_Close_def wpo_def)

lemma wpo_query_row:
  assumes "db s" and "openRows s = None" and "rows_of q (db_of (world s)) = Some [row]"
    and "\<And>w'. db_of w' = db_of (world s) \<Longrightarrow>
      Q (Val (scan row)) (s\<lparr>world := w', nextId := Suc (nextId s)\<rparr>)"
  shows "wpo (db_QueryRow E (sql_of q) (args_of q) scan) Q s"
  unfolding db_QueryRow_def wpo_seq
proof (rule wpo_query [OF assms(1-3)])
  fix w' rs
  assume w': "db_of w' = db_of (world s)" and rs: "mset (rs_rows rs) = mset [row]" "rs_err rs = None"
  let ?s = "s\<lparr>world := w', openRows := Some (nextId s), nextId := Suc (nextId s)\<rparr>"
  have r: "rs_rows rs = [row]" using rs(1) by simp
  have "wpo (rows_Close E (nextId s)) (\<lambda>r s'. \<exists>w''. r = Val None \<and> db_of w'' = db_of (world s) \<and>
      s' = s\<lparr>world := w'', nextId := Suc (nextId s)\<rparr>) ?s"
    by (rule wpo_rows_close) (use w' assms(2) in \<open>auto intro!: rsync.equality\<close>)
  then show "case Val (Inr (nextId s, rs)) of Val x \<Rightarrow> wpo (case x of
         Inl e \<Rightarrow> ret (Inl e)
       | Inr (i, rs) \<Rightarrow>
           (case rs_rows rs of
              [] \<Rightarrow>
                seq (modify (\<lambda>s. s\<lparr>openRows := None\<rparr>)) (\<lambda>_.
                ret (Inl (case rs_err rs of None \<Rightarrow> ErrNoRows | Some e \<Rightarrow> e)))
            | row # _ \<Rightarrow>
                seq (rows_Close E i) (\<lambda>closeErr.
                ret (case scan row of
                       Inl e \<Rightarrow> Inl e
                     | Inr v \<Rightarrow> (case closeErr of None \<Rightarrow> Inr v | Some e \<Rightarrow> Inl e))))) Q ?s
     | Return e \<Rightarrow> Q (Return e) ?s | Panic p \<Rightarrow> Q (Panic p) ?s"
    using assms(4) by (auto simp: r wpo_seq split: sum.splits elim!: wpo_mono)
qed

lemma wpo_query_no_row:
  assumes "db s" and "openRows s = None" and "rows_of q (db_of (world s)) = Some []"
    and "\<And>w'. db_of w' = db_of (world s) \<Longrightarrow>
      Q (Val (Inl ErrNoRows)) (s\<lparr>world := w', nextId := Suc (nextId s)\<rparr>)"
  shows "wpo (db_QueryRow E (sql_of q) (args_of q) scan) Q s"
  unfolding db_QueryRow_def wpo_seq
proof (rule wpo_query [OF assms(1-3)])
  fix w' rs
  assume w': "db_of w' = db_of (world s)" and rs: "mset (rs_rows rs) = mset []" "rs_err rs = None"
  let ?s = "s\<lparr>world := w', openRows := Some (nextId s), nextId := Suc (nextId s)\<rparr>"
  have eq: "s\<lparr>world := w', nextId := Suc (nextId s), openRows := None\<rparr> = s\<lparr>world := w', nextId := Suc (nextId s)\<rparr>"
    using assms(2) by (auto intro!: rsync.equality)
  from rs assms(4) [OF w'] show "case Val (Inr (nextId s, rs)) of Val x \<Rightarrow> wpo (case x of
         Inl e \<Rightarrow> ret (Inl e)
       | Inr (i, rs) \<Rightarrow>
           (case rs_rows rs of
              [] \<Rightarrow>
                seq (modify (\<lambda>s. s\<lparr>openRows := None\<rparr>)) (\<lambda>_.
                ret (Inl (case rs_err rs of None \<Rightarrow> ErrNoRows | Some e \<Rightarrow> e)))
            | row # _ \<Rightarrow>
                seq (rows_Close E i) (\<lambda>closeErr.
                ret (case scan row of
                       Inl e \<Rightarrow> Inl e
                     | Inr v \<Rightarrow> (case closeErr of None \<Rightarrow> Inr v | Some e \<Rightarrow> Inl e))))) Q ?s
     | Return e \<Rightarrow> Q (Return e) ?s | Panic p \<Rightarrow> Q (Panic p) ?s"
    by (simp add: wpo_seq eq)
qed

text \<open>A query for one number or one text.\<close>

lemma wpo_uint:
  assumes "db s" and "openRows s = None" and "args_of q = []" and "rows_of q (db_of (world s)) = Some [[SInt i]]"
    and "0 \<le> i" "i < 2 ^ 32"
    and "\<And>w'. db_of w' = db_of (world s) \<Longrightarrow> Q (Val (word_of_int i)) (s\<lparr>world := w', nextId := Suc (nextId s)\<rparr>)"
  shows "wpo (try_val (runReturnUInt E (sql_of q))) Q s"
  unfolding runReturnUInt_def wpo_try_val wpo_seq
  by (rule wpo_query_row [where q = q, unfolded assms(3), OF assms(1,2,4)])
    (use assms(5-7) in \<open>simp add: scan1_def scan_uint32_def\<close>)

lemma wpo_text:
  assumes "db s" and "openRows s = None" and "args_of q = []" and "rows_of q (db_of (world s)) = Some [[SText t]]"
    and "\<And>w'. db_of w' = db_of (world s) \<Longrightarrow> Q (Val t) (s\<lparr>world := w', nextId := Suc (nextId s)\<rparr>)"
  shows "wpo (try_val (runReturnText E (sql_of q))) Q s"
  unfolding runReturnText_def wpo_try_val wpo_seq
  by (rule wpo_query_row [where q = q, unfolded assms(3), OF assms(1,2,4)])
    (simp add: assms(5) scan1_def)

lemma wpo_register:
  assumes "registerOnce s \<longrightarrow> registerResult s = None"
    and "\<And>w'. db_of w' = db_of (world s) \<Longrightarrow>
      Q (Val ()) (s\<lparr>world := w', registerOnce := True, registerResult := None\<rparr>)"
  shows "wpo (try_err (hash_Register E)) Q s"
proof (cases "registerOnce s")
  case True
  with assms have "hash_Register E s = (Val None, s\<lparr>world := world s, registerOnce := True, registerResult := None\<rparr>)"
    by (simp add: hash_Register_def Register_def)
  with assms(2) [of "world s"] show ?thesis by (simp add: try_err_def wpo_seq) (simp add: wpo_def)
next
  case False
  obtain w1 where w1: "e_scalar E (world s) ''hash'' 1 = (w1, None)" "db_of w1 = db_of (world s)"
    using scalar_ok by blast
  obtain w2 where w2: "e_aggregate E w1 ''agghash'' 1 True = (w2, None)" "db_of w2 = db_of w1"
    using aggregate_ok by blast
  from False w1 w2 have "hash_Register E s = (Val None, s\<lparr>world := w2, registerOnce := True, registerResult := None\<rparr>)"
    by (simp add: hash_Register_def Register_def registerFunctions_def)
  with assms(2) [of w2] w1 w2 show ?thesis by (simp add: try_err_def wpo_seq) (simp add: wpo_def)
qed

lemmas seq_uint = wpo_seqI [OF wpo_uint, unfolded outcome.case]
lemmas seq_text = wpo_seqI [OF wpo_text, unfolded outcome.case]
lemmas seq_register = wpo_seqI [OF wpo_register, unfolded outcome.case]

lemma wpo_prepare:
  assumes "db s" and "openRows s = None"
    and "\<And>w'. db_of w' = db_of (world s) \<Longrightarrow>
      Q (Val (Stmt (nextId s) sql)) (s\<lparr>world := w', nextId := Suc (nextId s)\<rparr>)"
  shows "wpo (try_val (prepare E sql)) Q s"
  using prepare_ok [of "world s" sql] assms
  by (auto simp: prepare_def db_Prepare_def on_db_def wpo_def try_val_def seq_def)

lemmas seq_run = wpo_seqI [OF wpo_run, unfolded outcome.case]
lemmas seq_stmt_exec = wpo_seqI [OF wpo_stmt_exec, unfolded outcome.case]
lemmas seq_query = wpo_seqI [OF wpo_query, unfolded outcome.case]
lemmas seq_query_row = wpo_seqI [OF wpo_query_row, unfolded outcome.case]
lemmas seq_query_no_row = wpo_seqI [OF wpo_query_no_row, unfolded outcome.case]
lemmas seq_prepare = wpo_seqI [OF wpo_prepare, unfolded outcome.case]

lemma wpo_stmt_close:
  assumes "\<And>w' c. db_of w' = db_of (world s) \<Longrightarrow> Q (Val None) (s\<lparr>world := w', closedStmts := c\<rparr>)"
  shows "wpo (stmt_Close E st) Q s"
proof (cases st)
  case (Stmt i sql)
  with stmt_close_ok [of "world s" sql] assms(1) [of "world s" "closedStmts s"] assms(1)
  show ?thesis by (auto simp: wpo_def)
qed

end

sublocale sound_origin_engine \<subseteq> origin: sql_engine E odb_of osql oargs o_exec o_rows False
proof
  fix q w d
  assume d: "o_exec q (odb_of w) = Some d"
  obtain w' e where e: "e_exec E w (osql q) (oargs q) = (w', e)" by fastforce
  with o_exec_total [of q w] d have "e = None" by simp
  with o_exec_ok [of w q w'] e d show "\<exists>w'. e_exec E w (osql q) (oargs q) = (w', None) \<and> odb_of w' = d" by simp
next
  fix q w rows
  assume r: "o_rows q (odb_of w) = Some rows"
  with o_query_total [of q w] obtain rs where
    rs: "snd (e_query E w (osql q) (oargs q)) = Inr rs" "rs_err rs = None" by auto
  then obtain w' where q: "e_query E w (osql q) (oargs q) = (w', Inr rs)" by (metis prod.collapse)
  from o_query [OF q] o_query_rows [OF q] r rs q
  show "\<exists>w' rs. e_query E w (osql q) (oargs q) = (w', Inr rs) \<and> odb_of w' = odb_of w \<and>
      mset (rs_rows rs) = mset rows \<and> (False \<longrightarrow> rs_rows rs = rows) \<and> rs_err rs = None" by auto
next
  fix w sql
  show "\<exists>w'. e_prepare E w sql = (w', None) \<and> odb_of w' = odb_of w"
    using o_prepare [of w sql] o_prepare_total [of w sql] by (metis prod.collapse)
  show "\<exists>w'. e_rows_close E w = (w', None) \<and> odb_of w' = odb_of w"
    using o_rows_close [of w] o_rows_close_total [of w] by (metis prod.collapse)
  show "\<exists>w'. e_stmt_close E w sql = (w', None) \<and> odb_of w' = odb_of w"
    using o_stmt_close [of w sql] o_stmt_close_total [of w sql] by (metis prod.collapse)
next
  fix w name n det
  show "\<exists>w'. e_scalar E w name n = (w', None) \<and> odb_of w' = odb_of w"
    using o_scalar [of w name n] o_scalar_total [of w name n] by (metis prod.collapse)
  show "\<exists>w'. e_aggregate E w name n det = (w', None) \<and> odb_of w' = odb_of w"
    using o_aggregate [of w name n det] o_aggregate_total [of w name n det] by (metis prod.collapse)
qed

definition r_done :: "rstmt \<Rightarrow> rdb \<Rightarrow> rdb option" where
  "r_done st d = (case r_exec st d of Done d' \<Rightarrow> Some d' | _ \<Rightarrow> None)"

lemma r_done_Some: "r_done st d = Some d' \<longleftrightarrow> r_exec st d = Done d'"
  by (simp add: r_done_def split: exec_result.splits)

sublocale sound_replica_engine \<subseteq> replica: sql_engine E rdb_of rsql rargs r_done r_rows True
proof
  fix q w d
  assume d: "r_done q (rdb_of w) = Some d"
  then have q: "q \<noteq> RCommit" by (auto simp: r_done_def)
  obtain w' e where e: "e_exec E w (rsql q) (rargs q) = (w', e)" by fastforce
  with r_exec_total [of q w d] d q have "e = None" by (simp add: r_done_Some)
  with r_exec_ok [of w q w'] e d q show "\<exists>w'. e_exec E w (rsql q) (rargs q) = (w', None) \<and> rdb_of w' = d"
    by (simp add: r_done_Some)
next
  fix q w rows
  assume r: "r_rows q (rdb_of w) = Some rows"
  with r_query_total [of q w] obtain rs where
    rs: "snd (e_query E w (rsql q) (rargs q)) = Inr rs" "rs_err rs = None" by auto
  then obtain w' where q: "e_query E w (rsql q) (rargs q) = (w', Inr rs)" by (metis prod.collapse)
  from r_query [OF q] r_query_rows [OF q] r rs q
  show "\<exists>w' rs. e_query E w (rsql q) (rargs q) = (w', Inr rs) \<and> rdb_of w' = rdb_of w \<and>
      mset (rs_rows rs) = mset rows \<and> (True \<longrightarrow> rs_rows rs = rows) \<and> rs_err rs = None" by auto
next
  fix w sql
  show "\<exists>w'. e_prepare E w sql = (w', None) \<and> rdb_of w' = rdb_of w"
    using r_prepare [of w sql] r_prepare_total [of w sql] by (metis prod.collapse)
  show "\<exists>w'. e_rows_close E w = (w', None) \<and> rdb_of w' = rdb_of w"
    using r_rows_close [of w] r_rows_close_total [of w] by (metis prod.collapse)
  show "\<exists>w'. e_stmt_close E w sql = (w', None) \<and> rdb_of w' = rdb_of w"
    using r_stmt_close [of w sql] r_stmt_close_total [of w sql] by (metis prod.collapse)
next
  fix w name n det
  show "\<exists>w'. e_scalar E w name n = (w', None) \<and> rdb_of w' = rdb_of w"
    using r_scalar [of w name n] r_scalar_total [of w name n] by (metis prod.collapse)
  show "\<exists>w'. e_aggregate E w name n det = (w', None) \<and> rdb_of w' = rdb_of w"
    using r_aggregate [of w name n det] r_aggregate_total [of w name n det] by (metis prod.collapse)
qed

text \<open>COMMIT, which succeeds inside a transaction and leaves any stamp.\<close>

context sound_replica_engine
begin

lemma wpo_commit:
  assumes "db s" and "openRows s = None" and "r_txn (rdb_of (world s))"
    and "\<And>w'. commits (rdb_of (world s)) (rdb_of w') \<Longrightarrow> Q (Val ()) (s\<lparr>world := w'\<rparr>)"
  shows "wpo (try_err (run E commitSQL [])) Q s"
proof -
  obtain w' e where e: "e_exec E (world s) (rsql RCommit) (rargs RCommit) = (w', e)" by fastforce
  have "e = None" using r_exec_total [of RCommit "world s"] commitsI [OF assms(3) restamped_refl] e by simp
  with r_exec_ok [of "world s" RCommit w'] e have c: "commits (rdb_of (world s)) (rdb_of w')" by simp
  have x: "wpo (db_Exec E commitSQL []) R s" if "R (Val None) (s\<lparr>world := w'\<rparr>)" for R
    using e \<open>e = None\<close> assms(1,2) that by (simp add: wpo_def db_Exec_def on_db_def)
  show ?thesis
    unfolding run_def wpo_try_err wpo_seq by (rule x) (simp add: assms(4) c)
qed

end

end
