(* ===== verification/OriginRefine.thy ===== *)
theory OriginRefine
  imports Refine
begin

text \<open>
  The origin's handlers refine the abstract specification. \<open>o_abs\<close> is what a state of the role stands
  for, \<open>o_ok\<close> what holds of it between messages; over a sound engine and sound streams, taking one message
  the specification is ready for ends without an error in a state that a step of \<open>o_spec\<close> leads to, with the
  step's messages flushed.
\<close>

section \<open>The abstraction\<close>

definition o_abs :: "('w \<Rightarrow> odb) \<Rightarrow> 'w origin \<Rightarrow> ospec" where
  "o_abs odb_of s =
     \<lparr>sp_db = odb_of (world s), sp_proto = protocol s, sp_count = pageCount s, sp_i = iHash s,
      sp_n = nHash s, sp_mx = mxHash s, sp_rounds = hashRounds s, sp_hashes = hashMessages s,
      sp_sent = pageUpdates s\<rparr>"

text \<open>A variable that holds a statement prepared from the given SQL.\<close>

definition holds :: "stmt option \<Rightarrow> string \<Rightarrow> bool" where
  "holds v sql \<longleftrightarrow> (\<exists>i. v = Some (Stmt i sql))"

definition pow2_size :: "int \<Rightarrow> bool" where
  "pow2_size sz \<longleftrightarrow> (\<exists>j\<le>16. sz = 2 ^ j)"

definition o_ok :: "('w \<Rightarrow> odb) \<Rightarrow> 'w origin \<Rightarrow> bool" where
  "o_ok odb_of s \<longleftrightarrow>
     db s \<and> openRows s = None \<and> \<not> isReplica s \<and> pageSize s = o_psize (odb_of (world s)) \<and>
     pow2_size (o_psize (odb_of (world s))) \<and> lockBytePage s = lock_page (o_psize (odb_of (world s))) \<and>
     (if o_bad (odb_of (world s)) = None then pCkHash s = None
      else holds (pCkHash s) checkHashSQL \<and> holds (pInsHash s) insBadHashSQL) \<and>
     (pCkHashN s = None \<or> holds (pCkHashN s) checkHashNSQL) \<and> ClosePIns \<notin> set (defers s)"

text \<open>The streams between messages: sound, and nothing left in the write buffer.\<close>

definition io_ok :: "('w, 'x) rsync_scheme \<Rightarrow> bool" where
  "io_ok s \<longleftrightarrow> r_live (rs_r s) \<and> w_live (rs_w s) \<and> w_buf (rs_w s) = []"

text \<open>From \<open>s\<close> to \<open>s'\<close> a message was read, with \<open>rest\<close> still to come, and the bytes \<open>d\<close> were sent.\<close>

definition moved :: "('w, 'x) rsync_scheme \<Rightarrow> bytes \<Rightarrow> bytes \<Rightarrow> ('w, 'x) rsync_scheme \<Rightarrow> bool" where
  "moved s rest d s' \<longleftrightarrow> r_now (rs_r s) rest (rs_r s') \<and> w_now (rs_w s) d (rs_w s') \<and> w_buf (rs_w s') = []"

definition rows_u32 :: "(int \<times> int) list \<Rightarrow> bool" where
  "rows_u32 rows \<longleftrightarrow> (\<forall>(f, k) \<in> set rows. 0 \<le> f \<and> f < 2 ^ 32 \<and> 0 \<le> k \<and> k < 2 ^ 32)"

text \<open>The specification has a step for the message, on values that fit the columns.\<close>

fun o_ready :: "ospec \<Rightarrow> rmsg \<Rightarrow> bool" where
  "o_ready a (NPropose p) = (int (unat p) < sp_proto a)"
| "o_ready a (NConfig i n) = True"
| "o_ready a (NHash h) = (length h = 20 \<and>
     (hash_matches (o_pages (sp_db a)) (sp_i a) (sp_n a) h \<or>
      insert_rows [(uint (sp_i a), uint (sp_n a))] (bad_rows (sp_db a)) \<noteq> None))"
| "o_ready a NReady = (\<exists>bad. o_bad (sp_db a) = Some bad \<and> rows_u32 bad \<and>
     (filter (\<lambda>r. snd r > 1) bad = [] \<longrightarrow> insert_rows (tail_rows a) bad \<noteq> None))"

text \<open>A state after a message was taken.\<close>

definition o_taken :: "('w \<Rightarrow> odb) \<Rightarrow> 'w origin \<Rightarrow> rmsg \<Rightarrow> bytes \<Rightarrow> unit outcome \<Rightarrow> 'w origin \<Rightarrow> bool" where
  "o_taken odb_of s m rest r s' \<longleftrightarrow> r = Val () \<and> o_ok odb_of s' \<and>
     (\<exists>out. o_spec (o_abs odb_of s) m (o_abs odb_of s') out \<and>
       moved s rest (concat (map enc_omsg out)) s')"

lemma o_takenI:
  "o_spec (o_abs odb_of s) m (o_abs odb_of s') out \<Longrightarrow> o_ok odb_of s' \<Longrightarrow>
     moved s rest (concat (map enc_omsg out)) s' \<Longrightarrow> o_taken odb_of s m rest (Val ()) s'"
  by (auto simp: o_taken_def)

lemma o_ok_pow2: "o_ok odb_of s \<Longrightarrow> \<exists>j\<le>16. pageSize s = 2 ^ j"
  unfolding o_ok_def pow2_size_def by metis

lemma io_okD: "io_ok s \<Longrightarrow> r_live (rs_r s) \<and> w_live (rs_w s) \<and> w_buf (rs_w s) = []"
  by (simp add: io_ok_def)

lemma w_now_refl [simp]: "w_now w [] w \<longleftrightarrow> w_live w"
  by (simp add: w_now_def)

section \<open>Message by message\<close>

lemma wpo_send_begin:
  assumes "w_live (rs_w s)" and "pageSize s = 2 ^ k" "k \<le> 16"
    and "\<And>w'. w_now (rs_w s) (enc_omsg (MBegin (word_of_int (protocol s)) (pageSize s) (pageCount s))) w' \<Longrightarrow>
      w_buf w' = [] \<Longrightarrow> Q (Val ()) (s\<lparr>rs_w := w'\<rparr>)"
  shows "wpo send_begin Q s"
  unfolding send_begin_def
  apply (rule seq_wr_byte [OF assms(1)])
  apply (simp only: seq_simps)
  apply (rule seq_wr_byte, simp add: w_now_live)
  apply (simp only: seq_simps)
  apply (rule seq_wr_pow2 [where j = k], simp add: w_now_live, simp add: assms(2), rule assms(3))
  apply (simp only: seq_simps)
  apply (rule seq_wr_u32, simp add: w_now_live)
  apply (rule wpo_wr_flush, simp add: w_now_live)
  apply (simp add: assms(4) w_now_def)
  done

lemma origin_handle_simps [simp]:
  "origin_handle E ReplicaBegin = on_replica_begin"
  "origin_handle E ReplicaConfig = on_replica_config"
  "origin_handle E ReplicaHash = on_replica_hash E"
  "origin_handle E ReplicaReady = on_replica_ready E"
  by (simp_all add: origin_handle_def ReplicaMsg_def ReplicaError_def ReplicaEnd_def ReplicaBegin_def
      ReplicaConfig_def ReplicaHash_def ReplicaReady_def)

lemma step_propose:
  assumes ok: "o_ok odb_of s" and io: "io_ok s" and rd: "o_ready (o_abs odb_of s) (NPropose p)"
    and av: "r_avail (rs_r s) = enc_rmsg (NPropose p) @ rest"
  shows "wpo (origin_step E) (o_taken odb_of s (NPropose p) rest) s"
proof -
  from o_ok_pow2 [OF ok] obtain j where j: "pageSize s = 2 ^ j" "j \<le> 16" by blast
  from rd have p: "uint p < protocol s" by (simp add: o_abs_def)
  show ?thesis
    unfolding origin_step_def
    apply (rule seq_next_message [where rest = "p # rest"], use io in \<open>simp add: io_ok_def\<close>, simp add: av)
    apply (simp only: origin_handle_simps on_replica_begin_def)
    apply (rule seq_rd_byte [where x = p and rest = rest], simp add: r_nowD, simp add: r_nowD)
    apply (simp add: p)
    apply (rule wpo_send_begin [where k = j], use io in \<open>simp add: io_ok_def\<close>, simp add: j, rule j(2))
    apply (rule o_takenI [where out = "[MBegin p (pageSize s) (pageCount s)]"])
    using ok o_spec.propose [of p "o_abs odb_of s"] p
      apply (simp add: o_ok_def o_abs_def)
    using ok apply (simp add: o_ok_def)
    apply (auto simp: moved_def intro: r_now_trans)
    done
qed

lemma step_config:
  assumes ok: "o_ok odb_of s" and io: "io_ok s"
    and av: "r_avail (rs_r s) = enc_rmsg (NConfig i n) @ rest"
  shows "wpo (origin_step E) (o_taken odb_of s (NConfig i n) rest) s"
  unfolding origin_step_def
  apply (rule seq_next_message [where rest = "put_u32 i @ put_u32 n @ rest"], use io in \<open>simp add: io_ok_def\<close>, simp add: av)
  apply (simp only: origin_handle_simps on_replica_config_def)
  apply (rule seq_rd_u32 [where rest = "put_u32 n @ rest"], simp add: r_nowD, simp add: r_nowD)
  apply (simp only: seq_simps)
  apply (rule seq_rd_u32 [where rest = rest], simp add: r_nowD, simp add: r_nowD)
  apply simp
  apply (rule o_takenI [where out = "[]"])
  using o_spec.config [of "o_abs odb_of s" i n] apply (simp add: o_abs_def)
  using ok apply (simp add: o_ok_def)
  using io apply (auto simp: moved_def io_okD intro: r_now_trans)
  done

section \<open>Hashes\<close>

lemma set_bad_same: "o_bad d = Some b \<Longrightarrow> d\<lparr>o_bad := Some (bad_rows d)\<rparr> = d"
  by (cases d) (simp add: bad_rows_def)

lemma holdsE: "holds v sql \<Longrightarrow> (\<And>i. v = Some (Stmt i sql) \<Longrightarrow> P) \<Longrightarrow> P"
  by (auto simp: holds_def)

lemma holds_Some [simp]: "holds (Some (Stmt i sql)) sql"
  by (simp add: holds_def)

lemma scan_sql_bool [simp]: "scan1 (scan_int64 E 0) [sql_bool b] = Inr (if b then 1 else 0)"
  by (simp add: scan1_def sql_bool_def scan_int64_def)

context sound_origin_engine
begin

lemmas seq_create_bad = origin.seq_run [where q = OCreateBad, simplified]

lemma wpo_first_hash:
  assumes ok: "o_ok odb_of s"
    and Q: "\<And>w v1 v2 n ds. odb_of w = (odb_of (world s))\<lparr>o_bad := Some (bad_rows (odb_of (world s)))\<rparr> \<Longrightarrow>
      holds v1 checkHashSQL \<Longrightarrow> holds v2 insBadHashSQL \<Longrightarrow> ClosePIns \<notin> set ds \<Longrightarrow>
      Q (Val ()) (s\<lparr>pCkHash := v1, world := w, nextId := n, pInsHash := v2, defers := ds\<rparr>)"
  shows "wpo (first_hash E) Q s"
proof (cases "o_bad (odb_of (world s))")
  case (Some b)
  with ok Q [where w = "world s" and ?v1.0 = "pCkHash s" and ?v2.0 = "pInsHash s" and n = "nextId s" and ds = "defers s"] set_bad_same [OF Some]
  show ?thesis by (auto simp: first_hash_def o_ok_def elim!: holdsE)
next
  case None
  with ok have s: "db s" "openRows s = None" "pCkHash s = None" "ClosePIns \<notin> set (defers s)" by (auto simp: o_ok_def)
  have b: "bad_rows (odb_of (world s)) = []" by (simp add: bad_rows_def None)
  show ?thesis
    unfolding first_hash_def
    apply (simp add: s)
    apply (rule origin.seq_run [where q = OCreateBad, simplified], simp add: s, simp add: s, simp add: None)
    apply (rule origin.seq_prepare, simp add: s, simp add: s)
    apply simp
    apply (rule origin.seq_prepare, simp add: s, simp add: s)
    apply simp
    using Q b s apply simp
    done
qed

lemma wpo_match_single:
  assumes "db s" "openRows s = None" and st: "holds (pCkHash s) checkHashSQL"
    and Q: "\<And>w n. odb_of w = odb_of (world s) \<Longrightarrow>
      Q (Val (range_hash (o_pages (odb_of (world s))) (uint (iHash s)) 1 = Some h)) (s\<lparr>world := w, nextId := n\<rparr>)"
  shows "wpo (match_single E h) Q s"
proof -
  let ?ps = "o_pages (odb_of (world s))" and ?i = "uint (iHash s)"
  from st obtain i where i: "pCkHash s = Some (Stmt i checkHashSQL)" by (auto simp: holds_def)
  show ?thesis
  proof (cases "page_at ?ps ?i")
    case None
    with Q have "wpo (db_QueryRow E checkHashSQL [SInt ?i, SBlob h] (scan1 (scan_int64 E 0)))
      (\<lambda>r s'. r = Val (Inl ErrNoRows) \<and> Q (Val False) s') s"
      by (intro origin.wpo_query_no_row [where q = "OCheckHash ?i h", simplified]) (use assms in \<open>auto simp: range_hash_def\<close>)
    then show ?thesis
      by (auto simp: match_single_def i stmt_QueryRow_def wpo_seq ErrNoRows_def elim!: wpo_mono)
  next
    case (Some d)
    with Q have "wpo (db_QueryRow E checkHashSQL [SInt ?i, SBlob h] (scan1 (scan_int64 E 0)))
      (\<lambda>r s'. r = Val (Inr (if sql_hash d = h then 1 else 0)) \<and> Q (Val (sql_hash d = h)) s') s"
      by (intro origin.wpo_query_row [where q = "OCheckHash ?i h" and row = "[sql_bool (sql_hash d = h)]", simplified])
        (use assms in \<open>auto simp: range_hash_def\<close>)
    then show ?thesis
      by (auto simp: match_single_def i stmt_QueryRow_def wpo_seq elim!: wpo_mono)
  qed
qed

lemma wpo_match_multi:
  assumes s: "db s" "openRows s = None" and st: "pCkHashN s = None \<or> holds (pCkHashN s) checkHashNSQL"
    and n: "1 < uint (nHash s)" and d: "ClosePIns \<notin> set (defers s)"
    and Q: "\<And>w k v ds. odb_of w = odb_of (world s) \<Longrightarrow> holds v checkHashNSQL \<Longrightarrow> ClosePIns \<notin> set ds \<Longrightarrow>
      Q (Val (range_hash (o_pages (odb_of (world s))) (uint (iHash s)) (uint (nHash s)) = Some h))
        (s\<lparr>pCkHashN := v, defers := ds, world := w, nextId := k\<rparr>)"
  shows "wpo (match_multi E h) Q s"
proof -
  let ?ps = "o_pages (odb_of (world s))" and ?i = "uint (iHash s)" and ?n = "uint (nHash s)"
  let ?row = "[case sql_agghash (map sql_hash (pages_in ?ps ?i (?i + ?n - 1))) of None \<Rightarrow> SNull | Some h' \<Rightarrow> sql_bool (h' = h)]"
  let ?Q = "\<lambda>s r s'. r = Val (scan1 (scan_null_int64 E 0) ?row) \<and>
    (\<exists>w. odb_of w = odb_of (world s) \<and> s' = s\<lparr>world := w, nextId := Suc (nextId s)\<rparr>)"
  have q: "wpo (db_QueryRow E checkHashNSQL [SInt ?i, SInt (?i + ?n - 1), SBlob h] (scan1 (scan_null_int64 E 0))) (?Q s') s'"
    if "db s'" "openRows s' = None" "odb_of (world s') = odb_of (world s)" for s' :: "'a origin"
    by (rule origin.wpo_query_row [where q = "OCheckHashN ?i (?i + ?n - 1) h" and row = ?row, simplified]) (use that in auto)
  have m: "(case scan1 (scan_null_int64 E 0) ?row of Inl e \<Rightarrow> False | Inr m \<Rightarrow> m \<noteq> None \<and> m \<noteq> Some 0) =
      (range_hash ?ps ?i ?n = Some h)" "\<exists>m. scan1 (scan_null_int64 E 0) ?row = Inr m"
    using n by (auto simp: range_hash_def scan1_def scan_null_int64_def sql_bool_def scan_int64_def split: option.splits)
  show ?thesis
  proof (cases "pCkHashN s = None")
    case True
    show ?thesis
      unfolding match_multi_def
      apply (simp add: True seq_assoc)
      apply (rule origin.seq_prepare, simp add: s, simp add: s)
      apply (simp add: stmt_QueryRow_def)
      apply (rule wpo_seqI, rule wpo_mono, rule q)
      using s m Q d apply (auto split: sum.splits)
      done
  next
    case False
    with st obtain i where i: "pCkHashN s = Some (Stmt i checkHashNSQL)" by (auto simp: holds_def)
    have Q': "Q (Val (range_hash ?ps ?i ?n = Some h)) (s\<lparr>world := w, nextId := k\<rparr>)"
      if "odb_of w = odb_of (world s)" for w k
      using Q [OF that, where v = "pCkHashN s" and ds = "defers s"] st False d by simp
    show ?thesis
      unfolding match_multi_def
      apply (simp add: i stmt_QueryRow_def)
      apply (rule wpo_seqI, rule wpo_mono, rule q)
      using s m Q' apply (auto split: sum.splits)
      done
  qed
qed

lemma wpo_record_mismatch:
  assumes "db s" "openRows s = None" and st: "holds (pInsHash s) insBadHashSQL"
    and b: "o_bad (odb_of (world s)) = Some bad"
      "insert_rows [(uint (iHash s), uint (nHash s))] bad = Some bad'"
    and Q: "\<And>w. odb_of w = (odb_of (world s))\<lparr>o_bad := Some bad'\<rparr> \<Longrightarrow> Q (Val ()) (s\<lparr>world := w\<rparr>)"
  shows "wpo (record_mismatch E) Q s"
proof -
  from st obtain i where i: "pInsHash s = Some (Stmt i insBadHashSQL)" by (auto simp: holds_def)
  show ?thesis
    unfolding record_mismatch_def
    apply simp
    apply (rule origin.seq_stmt_exec [where q = "OInsBad (uint (iHash s)) (uint (nHash s))", simplified])
    using assms i by auto
qed

lemma wpo_match:
  assumes s: "db s" "openRows s = None" and st: "holds (pCkHash s) checkHashSQL"
    "pCkHashN s = None \<or> holds (pCkHashN s) checkHashNSQL" and d: "ClosePIns \<notin> set (defers s)"
    and Q: "\<And>w k v ds. odb_of w = odb_of (world s) \<Longrightarrow> v = None \<or> holds v checkHashNSQL \<Longrightarrow> ClosePIns \<notin> set ds \<Longrightarrow>
      Q (Val (hash_matches (o_pages (odb_of (world s))) (iHash s) (nHash s) h))
        (s\<lparr>pCkHashN := v, defers := ds, world := w, nextId := k\<rparr>)"
  shows "wpo (if nHash s > 1 then match_multi E h else match_single E h) Q s"
proof (cases "nHash s > 1")
  case True
  then have n: "1 < uint (nHash s)" by (simp add: word_less_def)
  then have m: "hash_matches (o_pages (odb_of (world s))) (iHash s) (nHash s) h =
      (range_hash (o_pages (odb_of (world s))) (uint (iHash s)) (uint (nHash s)) = Some h)"
    by (simp add: hash_matches_def)
  show ?thesis
    using True by (simp, intro wpo_match_multi [OF s st(2) n d]) (use Q m in auto)
next
  case False
  then have n: "max 1 (uint (nHash s)) = 1" by (simp add: word_less_def)
  have Q': "Q (Val (hash_matches (o_pages (odb_of (world s))) (iHash s) (nHash s) h)) (s\<lparr>world := w, nextId := k\<rparr>)"
    if "odb_of w = odb_of (world s)" for w k
    using Q [OF that, where v = "pCkHashN s" and ds = "defers s"] st(2) d by simp
  show ?thesis
    using False by (simp, intro wpo_match_single [OF s st(1)]) (use Q' n in \<open>auto simp: hash_matches_def\<close>)
qed

lemma step_hash:
  assumes ok: "o_ok odb_of s" and io: "io_ok s" and rd: "o_ready (o_abs odb_of s) (NHash h)"
    and av: "r_avail (rs_r s) = enc_rmsg (NHash h) @ rest"
  shows "wpo (origin_step E) (o_taken odb_of s (NHash h) rest) s"
proof -
  let ?db = "odb_of (world s)"
  let ?m = "hash_matches (o_pages ?db) (iHash s) (nHash s) h"
  from rd have h: "length h = 20" and nx: "\<not> ?m \<Longrightarrow> insert_rows [(uint (iHash s), uint (nHash s))] (bad_rows ?db) \<noteq> None"
    by (auto simp: o_abs_def)
  from ok have s: "db s" "openRows s = None" and n: "pCkHashN s = None \<or> holds (pCkHashN s) checkHashNSQL"
    by (simp_all add: o_ok_def)
  define bad where "bad = (if ?m then bad_rows ?db else the (insert_rows [(uint (iHash s), uint (nHash s))] (bad_rows ?db)))"
  have spec: "o_spec (o_abs odb_of s) (NHash h) (next_expected (set_bad bad (o_abs odb_of s))) []"
  proof (cases ?m)
    case True
    then show ?thesis unfolding bad_def using o_spec.hash_match [of h "o_abs odb_of s"] h by (simp add: o_abs_def)
  next
    case False
    with nx obtain b where "insert_rows [(uint (iHash s), uint (nHash s))] (bad_rows ?db) = Some b" by auto
    with False show ?thesis
      unfolding bad_def using o_spec.hash_differs [of h "o_abs odb_of s" b] h by (simp add: o_abs_def)
  qed
  have rec: "wpo (cond (\<not> ?m) (record_mismatch E)) Q s'"
    if "db s'" "openRows s' = None" "holds (pInsHash s') insBadHashSQL" "iHash s' = iHash s" "nHash s' = nHash s"
      "odb_of (world s') = ?db\<lparr>o_bad := Some (bad_rows ?db)\<rparr>"
      "\<And>w. odb_of w = ?db\<lparr>o_bad := Some bad\<rparr> \<Longrightarrow> Q (Val ()) (s'\<lparr>world := w\<rparr>)" for Q and s' :: "'a origin"
  proof (cases ?m)
    case True
    with that(7) [of "world s'"] that(6) show ?thesis by (simp add: bad_def)
  next
    case False
    with nx have "insert_rows [(uint (iHash s), uint (nHash s))] (bad_rows ?db) = Some bad"
      by (auto simp: bad_def)
    with wpo_record_mismatch [OF that(1-3), of "bad_rows ?db" bad Q] that False show ?thesis by simp
  qed
  show ?thesis
    unfolding origin_step_def
    apply (rule seq_next_message [where rest = "h @ rest"], use io in \<open>simp add: io_ok_def\<close>, simp add: av)
    apply (simp only: origin_handle_simps on_replica_hash_def)
    apply (rule wpo_seqI, rule wpo_first_hash, use ok in \<open>simp add: o_ok_def\<close>)
    apply simp
    apply (rule seq_rd_bytes [where rest = rest and d = h], simp add: r_nowD, simp add: r_nowD, simp add: h)
    apply (simp only: seq_simps)
    apply (rule wpo_seqI, rule wpo_match, simp add: s, simp add: s, simp, simp add: n, simp)
    apply simp
    apply (rule wpo_seqI, rule rec, simp add: s, simp add: s, simp, simp, simp, simp)
    apply simp
    apply (rule o_takenI [where out = "[]"])
    subgoal using spec by (cases "iHash s + nHash s > mxHash s")
      (simp_all add: o_abs_def next_range_def next_expected_def set_bad_def Let_def)
    subgoal using ok by (auto simp: o_ok_def next_range_def Let_def)
    subgoal using io by (auto simp: moved_def io_okD next_range_def Let_def intro: r_now_trans)
    done
qed

end

section \<open>The end of a round\<close>

lemma scan_u32_SInt: "0 \<le> i \<Longrightarrow> i < 2 ^ 32 \<Longrightarrow> scan_uint32 E k (SInt i) = Inr (word_of_int i)"
  by (simp add: scan_uint32_def)

lemma rows_u32_simps [simp]:
  "rows_u32 []" "rows_u32 ((f, k) # rows) \<longleftrightarrow> 0 \<le> f \<and> f < 2 ^ 32 \<and> 0 \<le> k \<and> k < 2 ^ 32 \<and> rows_u32 rows"
  by (auto simp: rows_u32_def)

definition detail_row :: "int \<times> int \<Rightarrow> sqlval list" where
  "detail_row r = [SInt (fst r), SInt (snd r)]"

definition page_row :: "int \<times> bytes \<Rightarrow> sqlval list" where
  "page_row r = [SInt (fst r), SBlob (snd r)]"

abbreviation enc_omsgs :: "omsg list \<Rightarrow> bytes" where
  "enc_omsgs ms \<equiv> concat (map enc_omsg ms)"

lemma wpo_send_details_loop:
  assumes "rows_u32 rows" and "w_live (rs_w s)"
    and "\<And>w'. w_now (rs_w s) (enc_omsgs (detail_msgs rows)) w' \<Longrightarrow> Q (Val ()) (s\<lparr>rs_w := w'\<rparr>)"
  shows "wpo (foreach (send_detail E) (map detail_row rows)) Q s"
  using assms
proof (induction rows arbitrary: s Q)
  case Nil
  from Nil(3) [of "rs_w s"] Nil(2) show ?case by (simp add: detail_msgs_def)
next
  case (Cons r rows)
  obtain f k where r: "r = (f, k)" by fastforce
  with Cons.prems(1) have fk: "0 \<le> f" "f < 2 ^ 32" "0 \<le> k" "k < 2 ^ 32" and rows: "rows_u32 rows" by simp_all
  have row: "send_detail E (detail_row r) = seq (wr_byte OriginDetail) (\<lambda>_.
      seq (wr_u32 (word_of_int f)) (\<lambda>_. wr_u32 (word_of_int k)))"
    using fk by (simp add: send_detail_def detail_row_def r scan2_def scan_u32_SInt)
  show ?case
    apply (simp add: row seq_assoc)
    apply (rule seq_wr_byte [OF Cons.prems(2)])
    apply (rule seq_wr_u32, simp add: w_now_live)
    apply (rule seq_wr_u32, simp add: w_now_live)
    apply (rule Cons.IH [OF rows], simp add: w_now_live)
    apply simp
    apply (rule Cons.prems(3))
    apply (simp add: detail_msgs_def r w_now_def)
    done
qed

lemma wpo_send_pages_loop:
  assumes "\<forall>r \<in> set rows. 0 \<le> fst r \<and> fst r < 2 ^ 32" and "w_live (rs_w s)"
    and "\<And>w'. w_now (rs_w s) (enc_omsgs (page_queue rows)) w' \<Longrightarrow>
      Q (Val ()) (s\<lparr>pageUpdates := pageUpdates s + of_nat (length rows), rs_w := w'\<rparr>)"
  shows "wpo (foreach (send_page E) (map page_row rows)) Q s"
  using assms
proof (induction rows arbitrary: s Q)
  case Nil
  from Nil(3) [of "rs_w s"] Nil(2) show ?case by (simp add: page_queue_def)
next
  case (Cons r rows)
  obtain p d where r: "r = (p, d)" by fastforce
  with Cons.prems(1) have p: "0 \<le> p" "p < 2 ^ 32" and rows: "\<forall>r \<in> set rows. 0 \<le> fst r \<and> fst r < 2 ^ 32" by simp_all
  have row: "send_page E (page_row r) = seq (modify (\<lambda>s. s\<lparr>pageUpdates := pageUpdates s + 1\<rparr>)) (\<lambda>_.
      seq (wr_byte OriginPage) (\<lambda>_. seq (wr_u32 (word_of_int p)) (\<lambda>_. wr_bytes d)))"
    using p by (simp add: send_page_def page_row_def r scan2_def scan_u32_SInt)
  show ?case
    apply (simp add: row seq_assoc)
    apply (rule seq_wr_byte, simp add: Cons.prems(2))
    apply (rule seq_wr_u32, simp add: w_now_live)
    apply (rule seq_wr_bytes, simp add: w_now_live)
    apply (rule Cons.IH [OF rows], simp add: w_now_live)
    apply (simp add: add.assoc)
    apply (rule Cons.prems(3) [simplified])
    apply (simp add: page_queue_def r w_now_def add.assoc)
    done
qed

lemma rows_u32_filter: "rows_u32 rows \<Longrightarrow> rows_u32 (filter P rows)"
  by (auto simp: rows_u32_def)

lemma rows_u32_perm: "mset a = mset b \<Longrightarrow> rows_u32 a = rows_u32 b"
  by (drule mset_eq_setD) (simp add: rows_u32_def)

lemma map_page_rows:
  "List.map_filter (\<lambda>r. map_option (\<lambda>data. [SInt (fst r), SBlob data]) (page_at ps (fst r))) rows =
     map page_row (rows_data ps rows)"
  by (induction rows) (auto simp: rows_data_def page_row_def List.map_filter_simps split: option.splits)

lemma rows_u32_tail: "rows_u32 (tail_rows a)"
  unfolding rows_u32_def
proof safe
  fix f k
  assume "(f, k) \<in> set (tail_rows a)"
  then have k: "k = 1" and f: "uint (sp_mx a) \<le> f" "f \<le> uint (sp_count a)"
    by (auto simp: tail_rows_def split: if_splits)
  have "0 \<le> uint (sp_mx a)" "uint (sp_count a) < 2 ^ 32"
    using uint_lt2p [of "sp_count a"] by simp_all
  with f have "0 \<le> f" "f < 2 ^ 32" by linarith+
  with k show "0 \<le> f" "f < 2 ^ 32" "0 \<le> k" "k < 2 ^ 32" by simp_all
qed

lemma rows_u32_insert: "insert_rows new old = Some b \<Longrightarrow> rows_u32 new \<Longrightarrow> rows_u32 old \<Longrightarrow> rows_u32 b"
  by (auto simp: insert_rows_def rows_u32_def split: if_splits)

context sound_origin_engine
begin

lemma wpo_send_details:
  assumes s: "db s" "openRows s = None" "w_live (rs_w s)" and b: "o_bad (odb_of (world s)) = Some bad" "rows_u32 bad"
    and d: "ClosePIns \<notin> set (defers s)"
    and Q: "\<And>rows w n ds w'. ClosePIns \<notin> set ds \<Longrightarrow> mset rows = mset (filter (\<lambda>r. snd r > 1) bad) \<Longrightarrow> odb_of w = odb_of (world s) \<Longrightarrow>
      w_now (rs_w s) (enc_omsgs (detail_msgs rows)) w' \<Longrightarrow>
      Q (Val (length rows)) (s\<lparr>world := w, nextId := n, defers := ds, rs_w := w', openRows := None\<rparr>)"
  shows "wpo (send_details E) Q s"
proof -
  have rows: "o_rows OMultiBad (odb_of (world s)) = Some (map detail_row (filter (\<lambda>r. snd r > 1) bad))"
    by (simp add: b detail_row_def)
  have u: "rows_u32 (filter (\<lambda>r. snd r > 1) bad)" by (rule rows_u32_filter [OF b(2)])
  show ?thesis
    unfolding send_details_def
    apply (rule origin.seq_query [where q = OMultiBad, unfolded osql.simps oargs.simps], simp add: s, simp add: s, rule rows)
    subgoal premises p for w rs
    proof -
      from mset_map_split [OF p(2)] obtain rs' where
        rs': "rs_rows rs = map detail_row rs'" "mset rs' = mset (filter (\<lambda>r. snd r > 1) bad)" by blast
      from u rows_u32_perm [OF rs'(2)] have u': "rows_u32 rs'" by simp
      show ?thesis
        apply (simp add: rows_loop_def seq_assoc rs' p(4))
        apply (rule wpo_seqI, rule wpo_send_details_loop [OF u'])
         apply (simp add: s)
        apply (simp add: try_err_def rows_Close_def wpo_def seq_def)
        apply (rule Q [OF _ rs'(2)])
          apply (simp_all add: p d)
        done
    qed
    done
qed

lemma wpo_fill_tail:
  assumes s: "db s" "openRows s = None" and b: "o_bad (odb_of (world s)) = Some bad"
    "insert_rows (tail_rows (o_abs odb_of s)) bad = Some bad1"
    and Q: "\<And>w. odb_of w = (odb_of (world s))\<lparr>o_bad := Some bad1\<rparr> \<Longrightarrow> Q (Val ()) (s\<lparr>world := w\<rparr>)"
  shows "wpo (fill_tail E) Q s"
proof (cases "mxHash s \<le> pageCount s")
  case True
  then have "uint (mxHash s) \<le> uint (pageCount s)" by (simp add: word_le_def)
  with True b(2) have i: "insert_rows (map (\<lambda>n. (n, 1)) [uint (mxHash s)..max (uint (mxHash s)) (uint (pageCount s))]) bad =
      Some bad1"
    by (simp add: tail_rows_def o_abs_def max_def)
  show ?thesis
    unfolding fill_tail_def
    apply (simp add: True)
    apply (rule origin.wpo_run [where q = "OFillTail (uint (mxHash s)) (uint (pageCount s))", unfolded osql.simps oargs.simps])
       apply (simp_all add: s b(1) i)
    apply (rule Q, simp)
    done
next
  case False
  with b(2) have "bad1 = bad" by (simp add: tail_rows_def o_abs_def insert_rows_def)
  with Q [of "world s"] b(1) False show ?thesis
    by (cases "odb_of (world s)") (simp add: fill_tail_def)
qed

lemma wpo_send_pages:
  assumes s: "db s" "openRows s = None" "w_live (rs_w s)"
    and b: "o_bad (odb_of (world s)) = Some bad" "insert_rows (tail_rows (o_abs odb_of s)) bad = Some bad1"
    and d: "ClosePIns \<notin> set (defers s)" and u: "rows_u32 bad" and bad2: "bad2 = filter (\<lambda>r. fst r \<noteq> lockBytePage s) bad1"
    and Q: "\<And>rows w n ds w'. ClosePIns \<notin> set ds \<Longrightarrow> mset rows = mset (rows_data (o_pages (odb_of (world s))) bad2) \<Longrightarrow>
      odb_of w = (odb_of (world s))\<lparr>o_bad := Some bad2\<rparr> \<Longrightarrow>
      w_now (rs_w s) (enc_omsgs (page_queue rows @ [MTxn (pageCount s), MEnd])) w' \<Longrightarrow>
      Q (Val ()) (s\<lparr>world := w, nextId := n, defers := ds,
        pageUpdates := pageUpdates s + of_nat (length rows), openRows := None, rs_w := w'\<rparr>)"
  shows "wpo (send_pages E) Q s"
proof -
  let ?ps = "o_pages (odb_of (world s))"
  have u1: "rows_u32 bad1" by (rule rows_u32_insert [OF b(2) rows_u32_tail u])
  have ud: "\<forall>r \<in> set (rows_data ?ps bad2). 0 \<le> fst r \<and> fst r < 2 ^ 32"
    using u1 by (force simp: set_rows_data bad2 rows_u32_def)
  have rows: "o_rows OPageData ((odb_of (world s))\<lparr>o_bad := Some bad2\<rparr>) = Some (map page_row (rows_data ?ps bad2))"
    by (simp add: map_page_rows)
  show ?thesis
    unfolding send_pages_def
    apply (rule wpo_seqI, rule wpo_fill_tail [OF s(1,2) b])
    apply simp
    apply (rule origin.seq_run [where q = "ODeleteLock (lockBytePage s)", unfolded osql.simps oargs.simps], simp add: s, simp add: s, simp)
    apply (simp add: bad2 [symmetric])
    apply (rule origin.seq_query [where q = OPageData and rows = "map page_row (rows_data ?ps bad2)", unfolded osql.simps oargs.simps],
        simp add: s, simp add: s)
    subgoal for w w2 using rows by simp
    subgoal premises p for w w2 w3 rs
    proof -
      from mset_map_split [OF p(4)] obtain rs' where
        rs': "rs_rows rs = map page_row rs'" "mset rs' = mset (rows_data ?ps bad2)" by blast
      from ud rs'(2) have u': "\<forall>r \<in> set rs'. 0 \<le> fst r \<and> fst r < 2 ^ 32" by (metis mset_eq_setD)
      show ?thesis
        apply (simp add: rows_loop_def seq_assoc rs' p(6))
        apply (rule wpo_seqI, rule wpo_send_pages_loop [OF u'])
         apply (simp add: s)
        apply (simp add: try_err_def seq_assoc)
        apply (rule wpo_seqI)
        apply (simp add: wpo_rows_closed)
        apply (rule seq_wr_byte, simp add: w_now_live)
        apply simp
        apply (rule seq_wr_u32, simp add: w_now_live)
        apply (rule wpo_wr_byte, simp add: w_now_live)
        apply simp
        apply (rule Q [OF _ rs'(2)])
          apply (simp_all add: p d w_now_def)
        done
    qed
    done
qed

lemma step_ready:
  assumes ok: "o_ok odb_of s" and io: "io_ok s" and rd: "o_ready (o_abs odb_of s) NReady"
    and av: "r_avail (rs_r s) = enc_rmsg NReady @ rest"
  shows "wpo (origin_step E) (o_taken odb_of s NReady rest) s"
proof -
  let ?a = "o_abs odb_of s" and ?db = "odb_of (world s)"
  from rd obtain bad where bad: "o_bad ?db = Some bad" "rows_u32 bad"
    "filter (\<lambda>r. snd r > 1) bad = [] \<longrightarrow> insert_rows (tail_rows ?a) bad \<noteq> None"
    by (auto simp: o_abs_def)
  from ok have s: "db s" "openRows s = None" by (simp_all add: o_ok_def)
  have lock: "lockBytePage s = lock_page (o_psize ?db)" using ok by (simp add: o_ok_def)
  have tail: "tail_rows (o_abs odb_of s') = tail_rows ?a"
    if "mxHash s' = mxHash s" "pageCount s' = pageCount s" for s' :: "'a origin"
    using that by (simp add: tail_rows_def o_abs_def)
  have detail: "o_spec ?a NReady (set_bad (filter (\<lambda>r. snd r \<le> 1) bad) (?a\<lparr>sp_rounds := sp_rounds ?a + 1\<rparr>))
      (detail_msgs rows @ [MReady])"
    if "mset rows = mset (filter (\<lambda>r. snd r > 1) bad)" "rows \<noteq> []" for rows
    by (rule o_spec.ready_detail) (use that bad in \<open>auto simp: o_abs_def\<close>)
  show ?thesis
    unfolding origin_step_def
    apply (rule seq_next_message [where rest = rest], use io in \<open>simp add: io_ok_def\<close>, simp add: av)
    apply (simp only: origin_handle_simps on_replica_ready_def seq_simps)
    apply (rule wpo_seqI, rule wpo_send_details [where bad = bad], simp add: s, simp add: s,
        use io in \<open>simp add: io_ok_def\<close>, simp add: bad, rule bad(2), use ok in \<open>simp add: o_ok_def\<close>)
    apply (simp only: outcome.case)
    subgoal premises p for r' rows w n ds w'
    proof (cases "rows = []")
      case False
      show ?thesis
        apply (simp add: False seq_assoc)
        apply (rule origin.seq_run [where q = ODeleteMulti, unfolded osql.simps oargs.simps], simp add: s, simp, simp add: p bad)
        apply (rule seq_wr_byte, use p in \<open>simp add: w_now_live\<close>)
        apply (rule wpo_wr_flush, simp add: w_now_live)
        apply (rule o_takenI [where out = "detail_msgs rows @ [MReady]"])
        subgoal using detail [OF p(3) False] by (simp add: o_abs_def set_bad_def bad)
        subgoal using ok p by (simp add: o_ok_def bad)
        subgoal using p by (auto simp: moved_def w_now_def intro: r_now_trans)
        done
    next
      case True
      with p(3) have none: "filter (\<lambda>r. snd r > 1) bad = []" by (metis mset_zero_iff)
      with bad(3) obtain bad1 where bad1: "insert_rows (tail_rows ?a) bad = Some bad1" by auto
      let ?bad2 = "filter (\<lambda>r. fst r \<noteq> lock_page (o_psize ?db)) bad1"
      have pages: "o_spec ?a NReady (set_bad ?bad2 (?a\<lparr>sp_rounds := sp_rounds ?a + 1, sp_sent := sp_sent ?a + of_nat (length out)\<rparr>))
          (out @ [MTxn (sp_count ?a), MEnd])"
        if "mset out = mset (page_msgs (o_pages ?db) ?bad2)" for out
        by (rule o_spec.ready_pages [where bad = bad and ?bad1.0 = bad1])
          (use that bad none bad1 in \<open>auto simp: o_abs_def\<close>)
      show ?thesis
        apply (simp add: True)
        apply (rule wpo_seqI, rule wpo_send_pages [where bad = bad and ?bad1.0 = bad1 and ?bad2.0 = ?bad2])
               apply (simp add: s)
              apply simp
             apply (use p in \<open>simp add: w_now_live\<close>)
            apply (simp add: p bad)
           apply (subst tail, simp, simp, rule bad1)
          apply (simp add: p)
          apply (rule bad(2))
         apply (simp add: lock)
        apply (simp only: outcome.case)
        subgoal premises p2 for ps
          apply (rule wpo_wr_flush, use p2 in \<open>simp add: w_now_live\<close>)
          apply (rule o_takenI [where out = "page_queue ps @ [MTxn (pageCount s), MEnd]"])
          subgoal
            using pages [of "page_queue ps"] p2 p True
            by (simp add: o_abs_def set_bad_def page_msgs_rows page_queue_def)
          subgoal using ok p p2 by (simp add: o_ok_def bad)
          subgoal using p p2 True by (auto simp: moved_def w_now_def detail_msgs_def intro: r_now_trans)
          done
        done
    qed
    done
qed

text \<open>One iteration of the loop, whatever the message.\<close>

lemma origin_step_refines:
  assumes "o_ok odb_of s" and "io_ok s" and "o_ready (o_abs odb_of s) m"
    and "r_avail (rs_r s) = enc_rmsg m @ rest"
  shows "wpo (origin_step E) (o_taken odb_of s m rest) s"
  using assms by (cases m) (auto intro: step_propose step_config step_hash step_ready)

text \<open>While the message is incomplete the read does not return, and the role only waits.\<close>

lemma origin_step_waits:
  assumes ok: "o_ok odb_of s" and w: "r_wait (rs_r s)" and len: "\<And>h. m = NHash h \<Longrightarrow> length h = 20"
    and pre: "strict_prefix (r_avail (rs_r s)) (enc_rmsg m)"
  shows "wpo (origin_step E) (\<lambda>r s'. r = Return (Some Blocked)) s"
  unfolding origin_step_def
proof (cases m)
  case (NPropose p)
  show "wpo (seq next_message (origin_handle E)) (\<lambda>r s'. r = Return (Some Blocked)) s"
    apply (rule wait_next [OF w, where x = ReplicaBegin and Y = "[p]"], use pre NPropose in simp, simp)
    apply (simp only: origin_handle_simps on_replica_begin_def)
    apply (rule wait_byte [where x = p and Y = "[]"]; simp)
    done
next
  case (NConfig i n)
  show "wpo (seq next_message (origin_handle E)) (\<lambda>r s'. r = Return (Some Blocked)) s"
    apply (rule wait_next [OF w, where x = ReplicaConfig and Y = "put_u32 i @ put_u32 n"], use pre NConfig in simp, simp)
    apply (simp only: origin_handle_simps on_replica_config_def)
    apply (rule wait_u32 [where x = i and Y = "put_u32 n"], simp, simp, simp)
    apply (simp only: seq_simps)
    apply (rule wait_u32 [where x = n and Y = "[]"]; simp)
    done
next
  case (NHash h)
  show "wpo (seq next_message (origin_handle E)) (\<lambda>r s'. r = Return (Some Blocked)) s"
    apply (rule wait_next [OF w, where x = ReplicaHash and Y = h], use pre NHash in simp, simp)
    apply (simp only: origin_handle_simps on_replica_hash_def)
    apply (rule wpo_seqI, rule wpo_first_hash, use ok in \<open>simp add: o_ok_def\<close>)
    apply (simp only: outcome.case seq_simps)
    apply (rule wait_bytes [where d = h]; simp add: len NHash)
    done
next
  case NReady
  show "wpo (seq next_message (origin_handle E)) (\<lambda>r s'. r = Return (Some Blocked)) s"
    by (rule wait_next [OF w, where x = ReplicaReady and Y = "[]"]) (use pre NReady in simp_all)
qed

text \<open>The end of the stream ends the run without an error.\<close>

lemma origin_step_ends:
  assumes "r_live (rs_r s)" and "r_avail (rs_r s) = []" and "r_end (rs_r s) = EOF"
  shows "\<exists>r'. origin_step E s = (Return None, s\<lparr>rs_r := r'\<rparr>) \<and> bytesRead r' = bytesRead (rs_r s)"
  using ReadByte_end [OF assms(1,2)] assms(3)
  by (auto simp: origin_step_def next_message_def r_op_def seq_def)

end

section \<open>The beginning\<close>

text \<open>Everything \<open>originSide\<close> does before its loop; the loop follows unless it returned.\<close>

definition origin_prologue :: "'w env \<Rightarrow> ('w, unit) o_gom" where
  "origin_prologue E =
     seq (try_err (hash_Register E)) (\<lambda>_.
     seq (modify (\<lambda>s. s\<lparr>isReplica := False\<rparr>)) (\<lambda>_.
     seq (gets commCheck) (\<lambda>cc.
     if cc then origin_commCheck E else origin_setup E)))"

lemma origin_body_prologue:
  "origin_body E = seq (origin_prologue E) (\<lambda>_.
     seq (gets (\<lambda>s. Suc (length (r_avail (rs_r s))))) (\<lambda>n. origin_loop E n))"
  unfolding origin_body_def origin_prologue_def seq_assoc
  by (intro arg_cong2 [where f = seq] ext refl) (simp add: origin_commCheck_def seq_assoc)

definition o_start :: "odb \<Rightarrow> int \<Rightarrow> ospec" where
  "o_start d p = \<lparr>sp_db = d\<lparr>o_bad := None\<rparr>, sp_proto = p, sp_count = of_nat (length (o_pages d)),
     sp_i = 1, sp_n = 1, sp_mx = 0, sp_rounds = 0, sp_hashes = 0, sp_sent = 0\<rparr>"

text \<open>A run that has not begun, as the constructor leaves it.\<close>

definition fresh_run :: "('w, 'x) rsync_scheme \<Rightarrow> bool" where
  "fresh_run s \<longleftrightarrow> \<not> db s \<and> openRows s = None \<and> defers s = [] \<and> \<not> wrongEnc s \<and> hashRounds s = 0 \<and>
     hashMessages s = 0 \<and> pageUpdates s = 0 \<and> 0 < protocol s \<and> protocol s < 256 \<and>
     (registerOnce s \<longrightarrow> registerResult s = None)"

lemma pow2_size_bounds: "pow2_size sz \<Longrightarrow> 0 < sz \<and> sz \<le> 65536"
proof -
  assume "pow2_size sz"
  then obtain j where j: "sz = 2 ^ j" "j \<le> 16" by (auto simp: pow2_size_def)
  then have "(2::int) ^ j \<le> 2 ^ 16" by (intro power_increasing) simp_all
  with j show ?thesis by simp
qed

context sound_origin_engine
begin

lemma seq_stat:
  assumes "\<And>w'. odb_of w' = odb_of (world s) \<Longrightarrow> wpo (k None) Q (s\<lparr>world := w'\<rparr>)"
  shows "wpo (seq (\<lambda>s. case e_stat E (world s) path of (w, e) \<Rightarrow> (Val e, s\<lparr>world := w\<rparr>)) k) Q s"
proof -
  obtain w' where "e_stat E (world s) path = (w', None)" "odb_of w' = odb_of (world s)"
    using o_stat o_stat_total by (metis prod.collapse)
  with assms show ?thesis by (simp add: wpo_seq) (simp add: wpo_def)
qed

lemma seq_open:
  assumes "\<And>w'. odb_of w' = (odb_of (world s))\<lparr>o_bad := None\<rparr> \<Longrightarrow> wpo (k None) Q (s\<lparr>world := w', db := True\<rparr>)"
  shows "wpo (seq (openDb E path) k) Q s"
proof -
  obtain w' where w': "e_open E (world s) path = (w', None)" "odb_of w' = (odb_of (world s))\<lparr>o_bad := None\<rparr>"
    using o_open o_open_total by (metis prod.collapse)
  then have "openDb E path s = (Val None, s\<lparr>world := w', db := True\<rparr>)" by (simp add: openDb_def)
  with w' assms show ?thesis by (simp add: wpo_seq) (simp add: wpo_def)
qed

lemma wpo_check_wal:
  assumes "db s" "openRows s = None" "o_mode (odb_of (world s)) = ''wal''"
    and "\<And>w'. odb_of w' = odb_of (world s) \<Longrightarrow> Q (Val ()) (s\<lparr>world := w', nextId := Suc (nextId s)\<rparr>)"
  shows "wpo (check_wal E) Q s"
  unfolding check_wal_def
  by (rule origin.seq_text [where q = OJournalMode, unfolded osql.simps, OF assms(1,2), where t = "''wal''"])
    (simp_all add: assms(3,4))

lemma wpo_origin_prologue:
  assumes f: "fresh_run s" and io: "io_ok s" and cc: "\<not> commCheck s"
    and d: "d = odb_of (world s)" "pow2_size (o_psize d)" "length (o_pages d) < 2 ^ 32"
    and wal: "walOnly s \<longrightarrow> o_mode d = ''wal''"
  shows "wpo (origin_prologue E) (\<lambda>r s'. r = Val () \<and> o_ok odb_of s' \<and> io_ok s' \<and>
    o_abs odb_of s' = o_start d (protocol s) \<and> rs_r s' = rs_r s \<and>
    w_now (rs_w s) (enc_omsg (MBegin (word_of_int (protocol s)) (o_psize d) (of_nat (length (o_pages d))))) (rs_w s')) s"
proof -
  note s = f [unfolded fresh_run_def]
  from d(2) obtain j where j: "o_psize d = 2 ^ j" "j \<le> 16" by (auto simp: pow2_size_def)
  note p = pow2_size_bounds [OF d(2)]
  note enc_omsg.simps [simp del]
  have np: "\<not> protocol s \<le> 0" using s by simp
  have u: "uint (word_of_int (o_psize d) :: u32) = o_psize d"
    using p by (simp add: unsigned_of_int take_bit_int_eq_self)
  have rest: "wpo (seq (try_val (runReturnUInt E pageCountSQL)) (\<lambda>nPage.
     seq (try_val (runReturnUInt E pageSizeSQL)) (\<lambda>szPg.
     seq (modify (\<lambda>s. s\<lparr>pageCount := nPage, pageSize := uint szPg\<rparr>)) (\<lambda>_.
     seq send_begin (\<lambda>_.
     seq (gets pageSize) (\<lambda>sz.
     if sz = 0 then panic ''integer divide by zero''
     else modify (\<lambda>s. s\<lparr>lockBytePage := 2 ^ 30 div sz + 1,
            iHash := 1, nHash := 1, mxHash := 0,
            pCkHash := None, pCkHashN := None, pInsHash := None\<rparr>)))))))
     (\<lambda>r s'. r = Val () \<and> o_ok odb_of s' \<and> io_ok s' \<and> o_abs odb_of s' = o_start d (protocol s) \<and> rs_r s' = rs_r s \<and>
        w_now (rs_w s) (enc_omsg (MBegin (word_of_int (protocol s)) (o_psize d) (of_nat (length (o_pages d))))) (rs_w s')) s'"
    if "db s'" "openRows s' = None" "odb_of (world s') = d\<lparr>o_bad := None\<rparr>" "protocol s' = protocol s" "rs_r s' = rs_r s"
      "rs_w s' = rs_w s" "hashRounds s' = 0" "hashMessages s' = 0" "pageUpdates s' = 0" "defers s' = [CloseDb]" "\<not> isReplica s'"
    for s' :: "'a origin"
    apply (rule origin.seq_uint [where q = OPageCount and i = "int (length (o_pages d))", unfolded osql.simps], simp add: that, simp add: that,
        simp, simp add: that, simp, use d(3) in simp)
    apply (rule origin.seq_uint [where q = OPageSize and i = "o_psize d", unfolded osql.simps], simp add: that, simp add: that,
        simp, simp add: that, use p in simp, use p in simp)
    apply simp
    apply (rule wpo_seqI, rule wpo_send_begin [where k = j], use io in \<open>simp add: that io_ok_def\<close>, use u j in simp, rule j(2))
    using p u io d(2) that
    apply (auto simp: o_ok_def io_ok_def o_abs_def o_start_def lock_page_def w_now_live)
    done
  show ?thesis
    unfolding origin_prologue_def
    apply (rule origin.seq_register, use s in simp)
    apply (simp add: cc)
    apply (simp only: origin_setup_def seq_simps)
    apply (rule seq_stat)
    apply (simp only: option.case seq_ret)
    apply (rule seq_open)
    apply (simp only: option.case seq_ret)
    apply (rule origin.seq_run [where q = OBegin, unfolded osql.simps oargs.simps], simp add: np, simp add: s np, simp)
    apply (simp add: np)
    apply (rule wpo_seqI)
    apply (cases "walOnly s")
    subgoal
      apply simp
      apply (rule wpo_check_wal, simp, simp add: s, use wal d(1) in simp)
      apply simp
      apply (rule rest; simp add: s d(1))
      done
    subgoal
      apply simp
      apply (rule rest; simp add: s d(1))
      done
    done
qed

end

end
