(* ===== verification/ReplicaRefine.thy ===== *)
theory ReplicaRefine
  imports OriginRefine
begin

text \<open>
  The replica's handlers refine the abstract specification, as \<open>OriginRefine\<close> shows for the origin:
  \<open>r_abs\<close> is what a state of the role stands for, \<open>r_ok\<close> what holds of it between messages.
\<close>

section \<open>The abstraction\<close>

definition r_abs :: "('w \<Rightarrow> rdb) \<Rightarrow> 'w replica \<Rightarrow> rspec" where
  "r_abs rdb_of s =
     \<lparr>rq_db = rdb_of (world s), rq_proto = protocol s, rq_wal = walOnly s, rq_size = pageSize s,
      rq_count = pageCount s, rq_jm = jMode s, rq_ins = (pIns s \<noteq> None), rq_rounds = hashRounds s,
      rq_hashes = hashMessages s, rq_pages = pageUpdates s\<rparr>"

definition r_ok :: "('w \<Rightarrow> rdb) \<Rightarrow> 'w replica \<Rightarrow> bool" where
  "r_ok rdb_of s \<longleftrightarrow>
     openRows s = None \<and> isReplica s \<and> \<not> wrongEnc s \<and> replicaPath s = r_path (rdb_of (world s)) \<and>
     (pIns s = None \<or> holds (pIns s) insertPageSQL) \<and>
     (\<not> db s \<longrightarrow> r_close (rdb_of (world s)) = rdb_of (world s)) \<and>
     (r_send (rdb_of (world s)) \<noteq> None \<longrightarrow> r_attached (rdb_of (world s))) \<and>
     set (defers s) \<subseteq> {CloseDb, ClosePIns} \<and> (ClosePIns \<in> set (defers s) \<longrightarrow> pIns s \<noteq> None)"

text \<open>The specification has a step for the message, on values that fit.\<close>

fun r_ready :: "rspec \<Rightarrow> omsg \<Rightarrow> bool" where
  "r_ready r (MBegin p sz n) = (\<not> rq_ins r \<and> pow2_size sz \<and> 0 \<le> rq_proto r \<and> rq_proto r < 256 \<and>
     on_begin r p sz n \<noteq> None \<and>
     (int (unat p) \<le> rq_proto r \<longrightarrow> length (r_work (opened sz (rq_db r))) < 2 ^ 32 \<and>
        rows_u32 (first_rows (int (unat p)) (length (r_work (opened sz (rq_db r)))))))"
| "r_ready r (MDetail f k) = (r_send (rq_db r) \<noteq> None)"
| "r_ready r MReady = (\<exists>q. r_send (rq_db r) = Some q \<and> rows_u32 q)"
| "r_ready r (MPage p d) = (on_page r p d \<noteq> None \<and> int (length d) = rq_size r \<and> 20 \<le> length d)"
| "r_ready r (MTxn n) = (on_txn r n \<noteq> None)"
| "r_ready r MEnd = False"

definition r_taken :: "('w \<Rightarrow> rdb) \<Rightarrow> 'w replica \<Rightarrow> omsg \<Rightarrow> bytes \<Rightarrow> unit outcome \<Rightarrow> 'w replica \<Rightarrow> bool" where
  "r_taken rdb_of s m rest r s' \<longleftrightarrow> r = Val () \<and> r_ok rdb_of s' \<and>
     (\<exists>out. r_spec (r_abs rdb_of s) m (r_abs rdb_of s') out \<and>
       moved s rest (concat (map enc_rmsg out)) s')"

lemma r_takenI:
  "r_spec (r_abs rdb_of s) m (r_abs rdb_of s') out \<Longrightarrow> r_ok rdb_of s' \<Longrightarrow>
     moved s rest (concat (map enc_rmsg out)) s' \<Longrightarrow> r_taken rdb_of s m rest (Val ()) s'"
  by (auto simp: r_taken_def)

lemma r_ok_open: "r_ok rdb_of s \<Longrightarrow> r_send (rdb_of (world s)) \<noteq> None \<or> r_txn (rdb_of (world s)) \<Longrightarrow> db s"
proof (rule ccontr)
  assume r: "r_ok rdb_of s" "r_send (rdb_of (world s)) \<noteq> None \<or> r_txn (rdb_of (world s))" "\<not> db s"
  have "r_send (r_close (rdb_of (world s))) = None" "\<not> r_txn (r_close (rdb_of (world s)))" by (simp_all add: r_close_def)
  with r show False by (simp add: r_ok_def)
qed

lemma replica_handle_simps [simp]:
  "replica_handle E OriginBegin = on_origin_begin E"
  "replica_handle E OriginDetail = on_origin_detail E"
  "replica_handle E OriginReady = on_origin_ready E"
  "replica_handle E OriginTxn = on_origin_txn E"
  "replica_handle E OriginPage = on_origin_page E"
  "replica_handle E OriginEnd = stop None"
  by (simp_all add: replica_handle_def OriginMsg_def OriginError_def OriginEnd_def OriginBegin_def
      OriginDetail_def OriginReady_def OriginTxn_def OriginPage_def)

lemma r_close_closed [simp]:
  "r_send (r_close d) = None" "\<not> r_txn (r_close d)" "\<not> r_attached (r_close d)" "r_work (r_close d) = []"
  "r_mem (r_close d) = UTF8"
  by (simp_all add: r_close_def)

lemma opened_path [simp]: "r_path (opened sz d) = r_path d"
  by (simp add: opened_def Let_def)

section \<open>A round of hashes\<close>

abbreviation enc_rmsgs :: "rmsg list \<Rightarrow> bytes" where
  "enc_rmsgs ms \<equiv> concat (map enc_rmsg ms)"

definition entry_row :: "pages \<Rightarrow> int \<times> int \<Rightarrow> sqlval list" where
  "entry_row ps r = [case range_hash ps (fst r) (snd r) of None \<Rightarrow> SNull | Some h \<Rightarrow> SBlob h,
     SInt (fst r), SInt (snd r)]"

lemma batch_not_Nil [simp]: "batch ps es ex \<noteq> []"
  by (induction ps es ex rule: batch.induct) auto

lemma batch_ready: "enc_rmsgs (batch ps es ex) = enc_rmsgs (butlast (batch ps es ex)) @ enc_rmsg NReady"
proof -
  have "last (batch ps es ex) = NReady" by (induction ps es ex rule: batch.induct) auto
  then have "batch ps es ex = butlast (batch ps es ex) @ [NReady]"
    using append_butlast_last_id [OF batch_not_Nil, of ps es ex] by simp
  then show ?thesis by (metis concat_append map_append concat.simps list.simps(8,9) append_Nil2)
qed

lemma wpo_send_entry:
  assumes "0 \<le> f" "f < 2 ^ 32" "0 \<le> k" "k < 2 ^ 32" and "w_live (rs_w s)"
    and Q: "\<And>w'. w_now (rs_w s) (enc_rmsgs
        ((if word_of_int f \<noteq> fst ex \<or> word_of_int k \<noteq> snd ex then [NConfig (word_of_int f) (word_of_int k)] else []) @
         (case range_hash ps f k of None \<Rightarrow> [] | Some h \<Rightarrow> [NHash h]))) w' \<Longrightarrow>
      Q (Val (word_of_int f + word_of_int k, word_of_int k)) (s\<lparr>hashMessages := hashMessages s + 1, rs_w := w'\<rparr>)"
  shows "wpo (send_entry E (entry_row ps (f, k)) ex) Q s"
proof -
  have scan: "scan3 (\<lambda>v. Inr (scan_bytes v)) (scan_uint32 E 1) (scan_uint32 E 2) (entry_row ps (f, k)) =
      Inr (range_hash ps f k, word_of_int f, word_of_int k)"
    using assms(1-4) by (simp add: scan3_def entry_row_def scan_u32_SInt split: option.splits)
  have config: "wpo (cond b (seq (wr_byte ReplicaConfig) (\<lambda>_. seq (wr_u32 (word_of_int f)) (\<lambda>_. wr_u32 (word_of_int k))))) Q' s'"
    if "w_live (rs_w s')" "\<And>w'. w_now (rs_w s') (enc_rmsgs (if b then [NConfig (word_of_int f) (word_of_int k)] else [])) w' \<Longrightarrow>
      Q' (Val ()) (s'\<lparr>rs_w := w'\<rparr>)" for b Q' and s' :: "('a, 'b) rsync_scheme"
  proof (cases b)
    case True
    show ?thesis
      apply (simp add: True)
      apply (rule seq_wr_byte [OF that(1)])
      apply (rule seq_wr_u32, simp add: w_now_live)
      apply (rule wpo_wr_u32, simp add: w_now_live)
      apply simp
      apply (rule that(2))
      apply (simp add: True w_now_def)
      done
  next
    case False
    with that(1) that(2) [of "rs_w s'"] show ?thesis by simp
  qed
  show ?thesis
    unfolding send_entry_def
    apply (simp only: scan sum.case prod.case seq_simps)
    apply (rule wpo_seqI, rule config, simp add: assms(5))
    apply simp
    apply (cases "range_hash ps f k")
    subgoal for w'
      using Q by (simp add: seq_def wpo_def)
    subgoal for w' h
      apply (simp add: seq_assoc)
      apply (rule seq_wr_byte, simp add: w_now_live)
      apply (rule seq_wr_bytes, simp add: w_now_live)
      apply simp
      apply (rule Q)
      apply (simp add: w_now_def)
      done
    done
qed

lemma wpo_send_entries:
  assumes "rows_u32 es" and "w_live (rs_w s)"
    and "\<And>ex' w'. w_now (rs_w s) (enc_rmsgs (butlast (batch ps es ex))) w' \<Longrightarrow>
      Q (Val ex') (s\<lparr>hashMessages := hashMessages s + of_nat (length es), rs_w := w'\<rparr>)"
  shows "wpo (send_entries E (map (entry_row ps) es) ex) Q s"
  using assms
proof (induction es arbitrary: s Q ex)
  case Nil
  from Nil(3) [of "rs_w s"] Nil(2) show ?case by simp
next
  case (Cons r es)
  obtain f k where r: "r = (f, k)" by fastforce
  with Cons.prems(1) have fk: "0 \<le> f" "f < 2 ^ 32" "0 \<le> k" "k < 2 ^ 32" and es: "rows_u32 es" by simp_all
  show ?case
    apply (simp add: r)
    apply (rule wpo_seqI, rule wpo_send_entry [OF fk Cons.prems(2)])
    apply (simp only: outcome.case)
    apply (rule Cons.IH [OF es], simp add: w_now_live)
    apply (simp add: add.assoc)
    apply (rule Cons.prems(3) [simplified])
    apply (simp add: r w_now_def butlast_append add.assoc)
    done
qed

lemma wpo_w_byte:
  assumes "w_live (rs_w s)" and "\<And>w'. w_now (rs_w s) [b] w' \<Longrightarrow> Q (Val None) (s\<lparr>rs_w := w'\<rparr>)"
  shows "wpo (w_op (\<lambda>w. WriteByte w b)) Q s"
proof -
  from WriteByte_live [OF assms(1)] obtain w' where "WriteByte (rs_w s) b = (w', None)" "w_live w'"
    "gave (rs_w s) [b] w'" "bytesWritten w' = bytesWritten (rs_w s) + 1" by blast
  with assms(2) [of w'] show ?thesis by (simp add: wpo_w_op w_now_def gave_def)
qed

lemma wpo_w_flush:
  assumes "w_live (rs_w s)"
    and "\<And>w'. w_now (rs_w s) [] w' \<Longrightarrow> w_buf w' = [] \<Longrightarrow> Q (Val None) (s\<lparr>rs_w := w'\<rparr>)"
  shows "wpo (w_op Flush) Q s"
proof -
  from Flush_live [OF assms(1)] obtain w' where "Flush (rs_w s) = (w', None)" "w_live w'"
    "gave (rs_w s) [] w'" "w_buf w' = []" "bytesWritten w' = bytesWritten (rs_w s)" by blast
  with assms(2) [of w'] show ?thesis by (simp add: wpo_w_op w_now_def gave_def)
qed

lemmas seq_w_byte = wpo_seqI [OF wpo_w_byte, unfolded outcome.case]
lemmas seq_w_flush = wpo_seqI [OF wpo_w_flush, unfolded outcome.case]

lemma join_errs_nones [simp]: "join_errs [None, None] = None"
  by (simp add: join_errs_def List.map_filter_def)

section \<open>Message by message\<close>

context sound_replica_engine
begin

lemma wpo_sendHash:
  assumes s: "db s" "openRows s = None" and w: "w_live (rs_w s)"
    and d: "rdb_of (world s) = d" "r_attached d" "r_send d = Some q" and u: "rows_u32 q"
    and Q: "\<And>w n c w'. rdb_of w = d\<lparr>r_send := Some []\<rparr> \<Longrightarrow>
      w_now (rs_w s) (enc_rmsgs (batch (r_work d) (sort_key fst q) (i, n0))) w' \<Longrightarrow> w_buf w' = [] \<Longrightarrow>
      Q (Val ()) (s\<lparr>nextId := n, openRows := None, hashMessages := hashMessages s + of_nat (length q),
         rs_w := w', hashRounds := hashRounds s + 1, world := w, closedStmts := c\<rparr>)"
  shows "wpo (try_err (sendHashMessages E i n0)) Q s"
proof -
  let ?es = "sort_key fst q"
  have u': "rows_u32 ?es" using u rows_u32_perm [of ?es q] by simp
  have rows: "r_rows RSendHash d = Some (map (entry_row (r_work d)) ?es)"
    by (simp add: d entry_row_def)
  define P where "P s' \<longleftrightarrow> (\<exists>w n w'. rdb_of w = d\<lparr>r_send := Some []\<rparr> \<and>
      w_now (rs_w s) (enc_rmsgs (batch (r_work d) (sort_key fst q) (i, n0))) w' \<and> w_buf w' = [] \<and>
      s' = s\<lparr>world := w, nextId := n, openRows := None,
         hashMessages := hashMessages s + of_nat (length q), rs_w := w', hashRounds := hashRounds s + 1\<rparr>)"
    for s' :: "('a, 'b) rsync_scheme"
  have PI: "P (s\<lparr>nextId := n, hashMessages := hashMessages s + of_nat (length q), openRows := None, world := w,
      hashRounds := hashRounds s + 1, rs_w := w'\<rparr>)"
    if "rdb_of w = d\<lparr>r_send := Some []\<rparr>"
      "w_now (rs_w s) (enc_rmsgs (batch (r_work d) (sort_key fst q) (i, n0))) w'" "w_buf w' = []" for n w w'
    unfolding P_def by (rule exI [of _ w], rule exI [of _ n], rule exI [of _ w']) (simp add: that)
  have round: "wpo (seq (send_entries E (map (entry_row (r_work d)) ?es) (i, n0)) (\<lambda>_.
               seq (modify (\<lambda>s. s\<lparr>openRows := None\<rparr>)) (\<lambda>_.
               seq (try_err (run E deleteSendHashSQL [])) (\<lambda>_.
               seq (w_op (\<lambda>w. WriteByte w ReplicaReady)) (\<lambda>err.
               seq (modify (\<lambda>s. s\<lparr>hashRounds := hashRounds s + 1\<rparr>)) (\<lambda>_.
               seq (w_op Flush) (\<lambda>ferr.
               stop (join_errs [err, ferr])))))))) (\<lambda>r s'. r = Return None \<and> P s') s'"
    if "db s'" "rdb_of (world s') = d" "\<exists>w n r. s' = s\<lparr>world := w, openRows := r, nextId := n\<rparr>"
    for s' :: "('a, 'b) rsync_scheme"
  proof -
    from that obtain w0 k r where s': "s' = s\<lparr>world := w0, openRows := r, nextId := k\<rparr>" "rdb_of w0 = d" by auto
    show ?thesis
      unfolding s'(1)
      apply (rule wpo_seqI, rule wpo_send_entries [OF u'], simp add: w)
      apply (simp only: outcome.case seq_simps)
      apply (rule replica.seq_run [where q = RDeleteSend, unfolded rsql.simps rargs.simps], simp add: s, simp, simp add: d s' r_done_def)
      apply (rule seq_w_byte, simp add: w_now_live)
      apply (simp only: seq_simps)
      apply (rule seq_w_flush, simp add: w_now_live)
      apply simp
      apply (rule PI)
        apply (simp_all add: w_now_def batch_ready)
      done
  qed
  show ?thesis
    unfolding sendHashMessages_def wpo_try_err wpo_call
    apply (rule replica.seq_prepare, rule s(1), rule s(2))
    apply (simp only: wpo_deferred stmt_Query_def option.case stmt.case)
    apply (rule replica.seq_query [where q = RSendHash and rows = "map (entry_row (r_work d)) ?es", unfolded rsql.simps rargs.simps],
        simp add: s, simp add: s)
    subgoal using rows by (simp add: d)
    apply (simp add: wpo_deferred)
    apply (rule wpo_mono, rule round)
       apply (simp_all add: s d)
     apply (intro exI, rule refl)
    subgoal
      apply (clarsimp simp: P_def)
      apply (simp add: wpo_rows_closed)
      apply (rule replica.wpo_stmt_close)
      apply simp
      apply (rule Q)
        apply (simp_all add: d)
      done
    done
qed

lemma wpo_subdivide:
  assumes s: "db s" "openRows s = None" and d: "r_send (rdb_of (world s)) = Some q"
    and Q: "\<And>w. rdb_of w = (rdb_of (world s))\<lparr>r_send := Some (replace_rows (chunks f k) q)\<rparr> \<Longrightarrow>
      Q (Val ()) (s\<lparr>world := w\<rparr>)"
  shows "wpo (try_err (subdivideHashRange E f k)) Q s"
proof -
  let ?c = "uint (chunkSize k)" and ?e = "uint f + uint k"
  have c: "\<not> ?c \<le> 0" by (simp add: chunkSize_def)
  show ?thesis
    unfolding subdivideHashRange_def Let_def
    apply (rule replica.wpo_run [where q = "RSubdivide (uint f) ?c (?e - ?c) ?e ?c", unfolded rsql.simps rargs.simps])
    using s Q d c by (auto simp: r_done_def chunks_def Let_def)
qed

lemma seq_attach:
  assumes s: "db s" "openRows s = None" and p: "path = r_path (rdb_of (world s))" "\<not> r_attached (rdb_of (world s))"
    and ok: "\<And>w. \<not> (r_file (rdb_of (world s)) \<noteq> [] \<and> r_enc (rdb_of (world s)) \<noteq> r_mem (rdb_of (world s))) \<Longrightarrow>
      rdb_of w = (rdb_of (world s))\<lparr>r_attached := True, r_work := r_file (rdb_of (world s))\<rparr> \<Longrightarrow>
      wpo (k ()) Q (s\<lparr>world := w\<rparr>)"
    and enc: "\<And>w. r_file (rdb_of (world s)) \<noteq> [] \<Longrightarrow> r_enc (rdb_of (world s)) \<noteq> r_mem (rdb_of (world s)) \<Longrightarrow>
      rdb_of w = rdb_of (world s) \<Longrightarrow> wpo (k ()) Q (s\<lparr>world := w, wrongEnc := True\<rparr>)"
  shows "wpo (seq (try_err (run E (attachSQL path) [])) k) Q s"
proof (cases "r_file (rdb_of (world s)) \<noteq> [] \<and> r_enc (rdb_of (world s)) \<noteq> r_mem (rdb_of (world s))")
  case False
  then have d: "r_done (RAttach path) (rdb_of (world s)) =
      Some ((rdb_of (world s))\<lparr>r_attached := True, r_work := r_file (rdb_of (world s))\<rparr>)"
    using p by (auto simp: r_done_def attach_file_def)
  show ?thesis
    by (rule replica.seq_run [where q = "RAttach path", unfolded rsql.simps rargs.simps, OF s d]) (rule ok [OF False])
next
  case True
  then have x: "r_exec (RAttach path) (rdb_of (world s)) = WrongEncoding" using p by (simp add: attach_file_def)
  obtain w e where e: "e_exec E (world s) (attachSQL path) [] = (w, Some e)"
    "rdb_of w = rdb_of (world s)" "contains (err_text e) ''must use the same text encoding''"
    using r_exec_encoding [OF x] by (cases "e_exec E (world s) (attachSQL path) []") auto
  have "prefix ''ATTACH '' (attachSQL path)" by (simp add: attachSQL_def)
  then have "run E (attachSQL path) [] s = (Val None, s\<lparr>world := w, wrongEnc := True\<rparr>)"
    using e s by (simp add: run_def db_Exec_def on_db_def seq_def)
  with enc [OF _ _ e(2)] True show ?thesis
    by (simp add: wpo_seq wpo_try_err) (simp add: wpo_def)
qed

lemma wpo_attach:
  assumes s: "db s" "openRows s = None" "\<not> wrongEnc s" "replicaPath s = r_path (rdb_of (world s))"
    and d: "d = rdb_of (world s)" "\<not> r_attached d" "r_mem d = UTF8"
    and Q: "\<And>w. rdb_of w = d\<lparr>r_mem := (if r_file d = [] then UTF8 else r_enc d), r_attached := True, r_work := r_file d\<rparr> \<Longrightarrow>
      Q (Val ()) (s\<lparr>wrongEnc := False, world := w\<rparr>)"
  shows "wpo (attach_replica E) Q s"
proof -
  have eq: "d\<lparr>r_attached := True, r_work := r_file d\<rparr> =
      d\<lparr>r_mem := (if r_file d = [] then UTF8 else r_enc d), r_attached := True, r_work := r_file d\<rparr>"
    if "r_file d = [] \<or> r_enc d = r_mem d"
    using that d(3) by (cases d) auto
  show ?thesis
    unfolding attach_replica_def
    apply (simp only: seq_simps)
    apply (rule seq_attach, simp add: s, simp add: s, simp add: s, use d in simp)
    subgoal for w
      using Q [of w] eq s(3) d by (cases s) auto
    apply simp
    apply (rule replica.seq_run [where q = REncodingLE, unfolded rsql.simps rargs.simps], simp add: s, simp add: s,
        use d in \<open>simp add: r_done_def\<close>)
    apply (rule seq_attach, simp add: s, simp add: s, use s d in simp, use d in simp)
    subgoal for w w2 w3
      using Q [of w3] d s by (cases s) auto
    apply simp
    apply (rule replica.seq_run [where q = REncodingBE, unfolded rsql.simps rargs.simps], simp add: s, simp add: s,
        use d in \<open>simp add: r_done_def\<close>)
    apply (rule seq_attach, simp add: s, simp add: s, use s d in simp, use d in simp)
    subgoal for w w2 w3 w4 w5
      using Q [of w5] d s by (cases s) auto
    subgoal for w w2 w3 w4 w5
      by (cases "r_enc d") (use d in auto)
    done
qed

lemma seq_open_memory:
  assumes "\<And>w. rdb_of w = r_close (rdb_of (world s)) \<Longrightarrow> wpo (k None) Q (s\<lparr>world := w, db := True\<rparr>)"
  shows "wpo (seq (openDb E dsn) k) Q s"
proof -
  obtain w where w: "e_open E (world s) dsn = (w, None)" using r_open_total by (metis prod.collapse)
  then have "openDb E dsn s = (Val None, s\<lparr>world := w, db := True\<rparr>)" by (simp add: openDb_def)
  with assms [OF r_open [OF w]] show ?thesis by (simp add: wpo_seq) (simp add: wpo_def)
qed

lemma wpo_init_empty:
  assumes s: "db s" "openRows s = None" and d: "r_attached (rdb_of (world s))" "r_work (rdb_of (world s)) = []" "\<not> r_txn (rdb_of (world s))"
    and Q: "\<And>w. rdb_of w = (rdb_of (world s))\<lparr>r_psize := (if valid_page_size (pageSize s) then pageSize s else r_psize (rdb_of (world s)))\<rparr> \<Longrightarrow>
      Q (Val ()) (s\<lparr>world := w\<rparr>)"
  shows "wpo (init_empty_replica E) Q s"
proof -
  let ?d = "rdb_of (world s)"
  have e: "r_done (RSetPageSize (pageSize s)) ?d =
      Some (?d\<lparr>r_psize := (if valid_page_size (pageSize s) then pageSize s else r_psize ?d)\<rparr>)"
    using d by (simp add: r_done_def)
  show ?thesis
    unfolding init_empty_replica_def
    apply (simp only: seq_simps)
    apply (rule replica.seq_run [where q = "RSetPageSize (pageSize s)", unfolded rsql.simps rargs.simps, OF s e])
    apply (rule replica.wpo_run [where q = RReadSchema, unfolded rsql.simps rargs.simps], simp add: s, simp add: s,
        use d in \<open>simp add: r_done_def\<close>)
    using Q apply simp
    done
qed

lemma wpo_check_replica_wal:
  assumes s: "db s" "openRows s = None" and d: "r_attached (rdb_of (world s))"
    and m: "r_mode (rdb_of (world s)) \<noteq> ''wal'' \<longrightarrow> \<not> (walOnly s \<and> n > 0)"
    and Q: "\<And>w k. rdb_of w = rdb_of (world s) \<Longrightarrow>
      Q (Val ()) (s\<lparr>world := w, nextId := k, jMode := start_mode (rdb_of (world s))\<rparr>)"
  shows "wpo (check_replica_wal E n) Q s"
  unfolding check_replica_wal_def
  apply (rule replica.seq_text [where q = RJournalMode, unfolded rsql.simps], rule s(1), rule s(2), simp)
   apply (use d in simp)
  subgoal for w
    apply (cases "r_mode (rdb_of (world s)) = ''wal''")
    subgoal using Q [of w "Suc (nextId s)"] by (simp add: start_mode_def)
    subgoal using Q [of w "Suc (nextId s)"] m unfolding start_mode_def by (cases "walOnly s"; simp; simp add: wpo_def)
    done
  done

lemma wpo_first_entries:
  assumes s: "db s" "openRows s = None" and d: "r_send (rdb_of (world s)) = Some []" and n: "n < 2 ^ 32"
    and Q: "\<And>w. rdb_of w = (rdb_of (world s))\<lparr>r_send := Some (first_rows (protocol s) n)\<rparr> \<Longrightarrow>
      Q (Val ()) (s\<lparr>world := w\<rparr>)"
  shows "wpo (first_entries E (of_nat n)) Q s"
proof -
  have u: "uint (of_nat n :: u32) = int n" using n by (simp add: unsigned_of_nat take_bit_nat_eq_self)
  then have le: "(of_nat n :: u32) \<le> 100 \<longleftrightarrow> n \<le> 100" by (simp add: word_le_def)
  have w: "(of_nat n - 1 :: u32) = word_of_int (int n - 1)" by simp
  show ?thesis
  proof (cases "protocol s < 2 \<or> n \<le> 100")
    case True
    have i: "insert_rows (map (\<lambda>n. (n, 1)) [1..max 1 (int n)]) [] = Some (map (\<lambda>n. (n, 1)) [1..max 1 (int n)])"
      by (simp add: insert_rows_def distinct_map inj_on_def)
    show ?thesis
      unfolding first_entries_def
      apply (simp only: seq_simps le True if_True u)
      apply (rule replica.wpo_run [where q = "RAllPages (int n)", unfolded rsql.simps rargs.simps], rule s(1), rule s(2))
       apply (simp add: r_done_def d i)
      apply (rule Q)
      apply (use True in \<open>simp add: first_rows_def\<close>)
      done
  next
    case False
    have i: "insert_rows [(1, 1)] [] = Some [(1, 1)]" by (simp add: insert_rows_def)
    show ?thesis
      unfolding first_entries_def
      apply (simp only: seq_simps le False if_False w)
      apply (rule replica.seq_run [where q = RFirstPage, unfolded rsql.simps rargs.simps], rule s(1), rule s(2))
       apply (simp add: r_done_def d i)
      apply (rule wpo_subdivide [where q = "[(1, 1)]"], simp add: s, simp add: s, simp)
      apply (use Q False in \<open>simp add: first_rows_def\<close>)
      done
  qed
qed

text \<open>What follows the BEGIN IMMEDIATE: the checks, the entries of the first round and their hashes.\<close>

lemma wpo_open_begun:
  assumes s: "openRows s = None" "\<not> wrongEnc s" "replicaPath s = r_path (rdb_of (world s))"
    and d: "d = opened (pageSize s) (rdb_of (world s))" and fl: "length (r_file d) < 2 ^ 32"
    and Q: "\<And>w i. rdb_of w = d \<Longrightarrow> wpo (
       seq (check_replica_wal E (of_nat (length (r_file d)))) (\<lambda>_.
       seq (try_val (runReturnUInt E replicaPageCountSQL)) (\<lambda>nRPage2.
       seq (try_val (runReturnUInt E replicaPageSizeSQL)) (\<lambda>szRPage.
       seq (gets pageSize) (\<lambda>sz.
       seq (cond (int (unat szRPage) \<noteq> sz) (fail ReplicaError (size_mismatch sz szRPage))) (\<lambda>_.
       seq (first_entries E nRPage2) (\<lambda>_.
       try_err (sendHashMessages E 1 1))))))))
      Q (s\<lparr>db := True, wrongEnc := False, nextId := i, world := w\<rparr>)"
  shows "wpo (open_replica E) Q s"
proof -
  let ?D = "rdb_of (world s)"
  define mem where "mem = (if r_file ?D = [] then UTF8 else r_enc ?D)"
  have fD: "r_file d = r_file ?D" by (simp add: d)
  then have n0: "of_nat (length (r_file ?D)) = (0 :: u32) \<longleftrightarrow> r_file ?D = []"
    using fl by (auto simp: unat_eq_0 [symmetric] unat_of_nat take_bit_nat_eq_self)
  have fl': "int (length (r_file ?D)) < 2 ^ 32" using fl by (simp add: fD)
  have psz: "r_psize d = (if r_file ?D = [] \<and> valid_page_size (pageSize s) then pageSize s else r_psize ?D)"
    by (simp add: d opened_def r_close_def Let_def)
  have init: "wpo (seq (cond (of_nat (length (r_file ?D)) = (0 :: u32)) (init_empty_replica E)) k) Q' s'"
    if "db s'" "openRows s' = None" "pageSize s' = pageSize s" "r_attached (rdb_of (world s'))" "\<not> r_txn (rdb_of (world s'))"
      "r_work (rdb_of (world s')) = r_file ?D" "r_psize (rdb_of (world s')) = r_psize ?D"
      "\<And>w. rdb_of w = (rdb_of (world s'))\<lparr>r_psize := r_psize d\<rparr> \<Longrightarrow> wpo (k ()) Q' (s'\<lparr>world := w\<rparr>)"
    for k :: "unit \<Rightarrow> ('a, 'b) r_gom" and Q' s'
  proof (cases "r_file ?D = []")
    case True
    then have z: "(of_nat (length (r_file ?D)) = (0 :: u32)) = True" using n0 by simp
    show ?thesis
      apply (simp only: z cond_simps)
      apply (rule wpo_seqI, rule wpo_init_empty, rule that, rule that, rule that, simp add: that True, rule that)
      apply (use psz True that in simp)
      done
  next
    case False
    have "(rdb_of (world s'))\<lparr>r_psize := r_psize d\<rparr> = rdb_of (world s')"
      using psz False that(7) by (cases "rdb_of (world s')") simp
    moreover have z: "(of_nat (length (r_file ?D)) = (0 :: u32)) = False" using n0 False by simp
    ultimately show ?thesis using that(8) [of "world s'"] by (simp only: z cond_simps seq_ret) simp
  qed
  show ?thesis
    unfolding open_replica_def
    apply (rule seq_open_memory)
    apply (simp only: option.case seq_ret)
    apply (rule replica.seq_run [where q = RWritable, unfolded rsql.simps rargs.simps], simp, simp add: s, simp add: r_done_def)
    apply (rule wpo_seqI, rule wpo_attach, simp, simp add: s, simp add: s, simp add: s r_close_def, rule refl,
        simp add: r_close_def, simp add: r_close_def)
    apply (simp add: mem_def [symmetric])
    apply (rule replica.seq_run [where q = RCreateSend, unfolded rsql.simps rargs.simps], simp, simp add: s, simp add: r_done_def r_close_def)
    apply (rule replica.seq_uint [where q = RPageCount and i = "int (length (r_file ?D))", unfolded rsql.simps], simp, simp add: s, simp,
        simp, simp, use fl' in simp)
    apply (simp only: of_int_of_nat_eq)
    apply (rule init, simp, simp add: s, simp, simp, simp add: r_close_def, simp, simp add: r_close_def)
    apply (rule replica.seq_run [where q = RBeginImm and d = d, unfolded rsql.simps rargs.simps], simp, simp add: s)
    subgoal
      apply (simp add: r_done_def r_close_def)
      apply (simp add: d opened_def r_close_def Let_def mem_def)
      done
    subgoal premises p for w1 w2 w3 w4 w5 w6 w7
      using Q [OF p(7)] fD s by simp
    done
qed

lemma wpo_open_replica:
  assumes s: "openRows s = None" "\<not> wrongEnc s" "replicaPath s = r_path (rdb_of (world s))" "w_live (rs_w s)"
    and d: "d = opened (pageSize s) (rdb_of (world s))" and sz: "r_psize d = pageSize s" "pow2_size (pageSize s)"
    and wal: "r_mode d \<noteq> ''wal'' \<longrightarrow> \<not> (walOnly s \<and> r_file d \<noteq> [])"
    and len: "length (r_work d) < 2 ^ 32" and u: "rows_u32 (first_rows (protocol s) (length (r_work d)))"
    and Q: "\<And>s'. rdb_of (world s') = d \<Longrightarrow> db s' \<Longrightarrow> openRows s' = None \<Longrightarrow> \<not> wrongEnc s' \<Longrightarrow>
      jMode s' = start_mode d \<Longrightarrow>
      hashMessages s' = hashMessages s + of_nat (length (first_rows (protocol s) (length (r_work d)))) \<Longrightarrow>
      hashRounds s' = hashRounds s + 1 \<Longrightarrow>
      w_now (rs_w s) (enc_rmsgs (batch (r_work d) (sort_key fst (first_rows (protocol s) (length (r_work d)))) (1, 1))) (rs_w s') \<Longrightarrow>
      w_buf (rs_w s') = [] \<Longrightarrow> rs_r s' = rs_r s \<Longrightarrow> protocol s' = protocol s \<Longrightarrow> pageSize s' = pageSize s \<Longrightarrow>
      pageCount s' = pageCount s \<Longrightarrow> pageUpdates s' = pageUpdates s \<Longrightarrow> pIns s' = pIns s \<Longrightarrow> defers s' = defers s \<Longrightarrow>
      isReplica s' = isReplica s \<Longrightarrow> replicaPath s' = replicaPath s \<Longrightarrow> walOnly s' = walOnly s \<Longrightarrow> Q (Val ()) s'"
  shows "wpo (open_replica E) Q s"
proof -
  have fl: "length (r_file d) < 2 ^ 32" using len by (simp add: d opened_def Let_def r_close_def split: if_splits)
  then have n0: "of_nat (length (r_file d)) = (0 :: u32) \<longleftrightarrow> r_file d = []"
    by (auto simp: unat_eq_0 [symmetric] unat_of_nat take_bit_nat_eq_self)
  have szb: "0 \<le> pageSize s" "pageSize s < 2 ^ 32" using pow2_size_bounds [OF sz(2)] by simp_all
  then have us: "uint (word_of_int (pageSize s) :: u32) = pageSize s"
    by (simp add: unsigned_of_int take_bit_int_eq_self)
  have "r_send d = Some []" "r_attached d" by (simp_all add: d)
  then have ds: "d\<lparr>r_send := Some []\<rparr> = d" by (cases d) simp
  show ?thesis
    apply (rule wpo_open_begun [OF s(1-3) d fl])
    apply (rule wpo_seqI, rule wpo_check_replica_wal, simp, simp add: s, simp add: \<open>r_attached d\<close>, use wal n0 in \<open>simp add: word_neq_0_conv\<close>)
    apply simp
    apply (rule replica.seq_uint [where q = RPageCount and i = "int (length (r_work d))", unfolded rsql.simps], simp, simp add: s, simp,
        simp add: \<open>r_attached d\<close>, simp, use len in simp)
    apply (rule replica.seq_uint [where q = RPageSize and i = "pageSize s", unfolded rsql.simps], simp, simp add: s, simp,
        use sz \<open>r_attached d\<close> in simp, rule szb(1), rule szb(2))
    apply (simp add: us)
    apply (rule wpo_seqI, rule wpo_first_entries, simp, simp add: s, simp add: \<open>r_send d = _\<close>, rule len)
    apply (simp only: outcome.case)
    apply (rule wpo_sendHash [where q = "first_rows (protocol s) (length (r_work d))" and
          d = "d\<lparr>r_send := Some (first_rows (protocol s) (length (r_work d)))\<rparr>"],
        simp, simp add: s, simp add: s, simp, simp add: \<open>r_attached d\<close>, simp, rule u)
    apply (rule Q)
    apply (simp_all add: s ds)
    done
qed

lemma seq_closeDb:
  assumes "\<not> db s \<longrightarrow> r_close (rdb_of (world s)) = rdb_of (world s)"
    and "\<And>w. rdb_of w = r_close (rdb_of (world s)) \<Longrightarrow> wpo (k ()) Q (s\<lparr>world := w, db := False\<rparr>)"
  shows "wpo (seq (try_err (closeDb E)) k) Q s"
proof (cases "db s")
  case True
  obtain w where w: "e_close E (world s) = (w, None)" using r_close_total by (metis prod.collapse)
  then have "rdb_of w = r_close (rdb_of (world s))" using r_close [of "world s"] by simp
  with w True assms(2) show ?thesis by (simp add: wpo_seq wpo_try_err) (simp add: wpo_def closeDb_def)
next
  case False
  then have "s\<lparr>db := False\<rparr> = s" by (cases s) simp
  with False assms(2) [of "world s"] assms(1) show ?thesis
    by (simp add: wpo_seq wpo_try_err) (simp add: wpo_def closeDb_def)
qed

lemma step_begin:
  assumes ok: "r_ok rdb_of s" and io: "io_ok s" and rd: "r_ready (r_abs rdb_of s) (MBegin p sz n)"
    and av: "r_avail (rs_r s) = enc_omsg (MBegin p sz n) @ rest"
  shows "wpo (replica_step E) (r_taken rdb_of s (MBegin p sz n) rest) s"
proof -
  let ?D = "rdb_of (world s)"
  note s = ok [unfolded r_ok_def]
  from rd have ins: "pIns s = None" and pow: "pow2_size sz" and pr: "0 \<le> protocol s" "protocol s < 256"
    and ob: "on_begin (r_abs rdb_of s) p sz n \<noteq> None"
    and len: "int (unat p) \<le> protocol s \<Longrightarrow> length (r_work (opened sz ?D)) < 2 ^ 32 \<and>
        rows_u32 (first_rows (int (unat p)) (length (r_work (opened sz ?D))))"
    by (auto simp: r_abs_def)
  from pow obtain j where j: "sz = 2 ^ j" "j \<le> 16" by (auto simp: pow2_size_def)
  have ub: "unat (pow2_byte sz) = j"
    using j by (simp add: pow2_byte_def log2_loop_pow2 unsigned_of_nat take_bit_nat_eq_self)
  then have b16: "pow2_byte sz \<le> 16" and psz: "2 ^ unat (pow2_byte sz) = sz"
    using j by (simp_all add: word_le_nat_alt)
  show ?thesis
    unfolding replica_step_def
    apply (rule seq_next_message [where rest = "p # pow2_byte sz # put_u32 n @ rest"], use io in \<open>simp add: io_ok_def\<close>, simp add: av)
    apply (simp only: replica_handle_simps on_origin_begin_def)
    apply (rule seq_closeDb, use s in simp)
    apply (simp only: seq_simps)
    apply (rule seq_rd_byte [where rest = "pow2_byte sz # put_u32 n @ rest" and x = p], simp add: r_nowD, simp add: r_nowD)
    apply (rule seq_rd_pow2 [where rest = "put_u32 n @ rest" and b = "pow2_byte sz"], simp add: r_nowD, simp add: r_nowD, rule b16)
    apply (rule seq_rd_u32 [where rest = rest and x = n], simp add: r_nowD, simp add: r_nowD)
    apply (simp only: seq_simps)
    subgoal premises p for w r1 r2 r3
    proof (cases "int (unat p) > protocol s")
      case True
      then have gt: "protocol s < uint p" by simp
      show ?thesis
        apply (simp add: gt propose_protocol_def)
        apply (rule seq_wr_byte, use io in \<open>simp add: io_ok_def\<close>)
        apply simp
        apply (rule seq_wr_byte, simp add: w_now_live)
        apply (rule wpo_wr_flush, simp add: w_now_live)
        apply (rule r_takenI [where out = "[NPropose (word_of_int (protocol s))]"])
        subgoal using True p by (simp add: on_begin_def r_abs_def)
        subgoal using s ins p by (simp add: r_ok_def)
        subgoal using p by (auto simp: moved_def w_now_def intro: r_now_trans)
        done
    next
      case False
      let ?d = "opened sz ?D"
      from False len have l: "length (r_work ?d) < 2 ^ 32"
        and u: "rows_u32 (first_rows (int (unat p)) (length (r_work ?d)))" by simp_all
      have "r_send ?d = Some []" by simp
      then have ds: "?d\<lparr>r_send := Some []\<rparr> = ?d" by (cases ?d) simp
      from ob False have o: "r_psize ?d = sz" "r_mode ?d \<noteq> ''wal'' \<longrightarrow> \<not> (walOnly s \<and> r_file ?d \<noteq> [])"
        by (auto simp: on_begin_def Let_def r_abs_def split: if_splits)
      from False have gt: "\<not> protocol s < uint p" by simp
      show ?thesis
        apply (simp add: gt)
        apply (simp only: psz)
        apply (rule wpo_open_replica [where d = ?d], simp add: s, simp add: s, use s p in simp, use io in \<open>simp add: io_ok_def\<close>,
            simp add: p, simp add: o, simp add: pow, use o in simp, rule l, use u in simp)
        subgoal premises q for s'
          apply (rule r_takenI [where out = "batch (r_work ?d) (sort_key fst (first_rows (int (unat p)) (length (r_work ?d)))) (1, 1)"])
          subgoal using ob gt q ins ds by (auto simp: on_begin_def Let_def r_abs_def send_batch_def start_mode_def split: if_splits)
          subgoal using s ins q by (simp add: r_ok_def)
          subgoal using p q by (auto simp: moved_def w_now_def intro: r_now_trans)
          done
        done
    qed
    done
qed

lemma step_detail:
  assumes ok: "r_ok rdb_of s" and io: "io_ok s" and rd: "r_ready (r_abs rdb_of s) (MDetail f k)"
    and av: "r_avail (rs_r s) = enc_omsg (MDetail f k) @ rest"
  shows "wpo (replica_step E) (r_taken rdb_of s (MDetail f k) rest) s"
proof -
  note s = ok [unfolded r_ok_def]
  from rd obtain q where q: "r_send (rdb_of (world s)) = Some q" by (auto simp: r_abs_def)
  with r_ok_open [OF ok] have db: "db s" by simp
  show ?thesis
    unfolding replica_step_def
    apply (rule seq_next_message [where rest = "put_u32 f @ put_u32 k @ rest"], use io in \<open>simp add: io_ok_def\<close>, simp add: av)
    apply (simp only: replica_handle_simps on_origin_detail_def)
    apply (rule seq_rd_u32 [where rest = "put_u32 k @ rest" and x = f], simp add: r_nowD, simp add: r_nowD)
    apply (rule seq_rd_u32 [where rest = rest and x = k], simp add: r_nowD, simp add: r_nowD)
    apply (rule wpo_subdivide [where q = q], simp add: db, simp add: s, simp add: q)
    apply (rule r_takenI [where out = "[]"])
    subgoal by (simp add: r_abs_def q)
    subgoal using s db q by (simp add: r_ok_def)
    subgoal using io by (auto simp: moved_def io_okD intro: r_now_trans)
    done
qed

lemma step_round:
  assumes ok: "r_ok rdb_of s" and io: "io_ok s" and rd: "r_ready (r_abs rdb_of s) MReady"
    and av: "r_avail (rs_r s) = enc_omsg MReady @ rest"
  shows "wpo (replica_step E) (r_taken rdb_of s MReady rest) s"
proof -
  note s = ok [unfolded r_ok_def]
  from rd obtain q where q: "r_send (rdb_of (world s)) = Some q" "rows_u32 q" by (auto simp: r_abs_def)
  with r_ok_open [OF ok] have db: "db s" by simp
  have att: "r_attached (rdb_of (world s))" using s q by simp
  show ?thesis
    unfolding replica_step_def
    apply (rule seq_next_message [where rest = rest], use io in \<open>simp add: io_ok_def\<close>, simp add: av)
    apply (simp only: replica_handle_simps on_origin_ready_def)
    apply (rule wpo_sendHash [where q = q and d = "rdb_of (world s)"], simp add: db, simp add: s, use io in \<open>simp add: io_ok_def\<close>,
        simp, simp add: att, simp add: q, rule q(2))
    apply (rule r_takenI [where out = "batch (r_work (rdb_of (world s))) (sort_key fst q) (0, 0)"])
    subgoal by (simp add: r_abs_def q send_batch_def)
    subgoal using s db att by (simp add: r_ok_def)
    subgoal by (auto simp: moved_def w_now_def intro: r_now_trans)
    done
qed

lemma step_txn:
  assumes ok: "r_ok rdb_of s" and io: "io_ok s" and rd: "r_ready (r_abs rdb_of s) (MTxn n)"
    and av: "r_avail (rs_r s) = enc_omsg (MTxn n) @ rest"
  shows "wpo (replica_step E) (r_taken rdb_of s (MTxn n) rest) s"
proof -
  let ?D = "rdb_of (world s)"
  note s = ok [unfolded r_ok_def]
  from rd have t: "on_txn (r_abs rdb_of s) n \<noteq> None" by simp
  then have txn: "r_txn ?D"
    by (auto simp: on_txn_def r_abs_def split: if_splits)
  with r_ok_open [OF ok] have db: "db s" by simp
  have taken: "r_taken rdb_of s (MTxn n) rest (Val ()) t"
    if "on_txn (r_abs rdb_of s) n = Some ra" "commits (rq_db ra) (rdb_of w)" "r_abs rdb_of t = ra\<lparr>rq_db := rdb_of w\<rparr>"
      "t = s\<lparr>rs_r := r', world := w, pageCount := m\<rparr>" "r_now (rs_r s) rest r'" for ra w t r' m
  proof (rule r_takenI [where out = "[]"])
    show "r_spec (r_abs rdb_of s) (MTxn n) (r_abs rdb_of t) []" using that by auto
    have "r_send (rq_db ra) = r_send ?D \<and> r_attached (rq_db ra) = r_attached ?D \<and> r_path (rq_db ra) = r_path ?D"
      using that(1) by (auto simp: on_txn_def r_abs_def split: if_splits)
    then show "r_ok rdb_of t" using s db that(2,4) by (auto simp: r_ok_def elim!: commitsE)
    show "moved s rest (concat (map enc_rmsg [])) t" using io that(4,5) by (simp add: moved_def io_okD)
  qed
  show ?thesis
  proof (cases "pIns s")
    case None
    show ?thesis
      unfolding replica_step_def
      apply (rule seq_next_message [where rest = "put_u32 n @ rest"], use io in \<open>simp add: io_ok_def\<close>, simp add: av)
      apply (simp only: replica_handle_simps on_origin_txn_def)
      apply (rule seq_rd_u32 [where rest = rest and x = n], simp add: r_nowD, simp add: r_nowD)
      apply (simp add: None)
      apply (rule wpo_commit, simp add: db, simp add: s, simp add: txn)
      subgoal premises c for r1 r2 w
        by (rule taken [where w = w and ra = "r_abs rdb_of s" and m = "pageCount s"])
          (use c txn None r_now_trans in \<open>auto simp: on_txn_def r_abs_def\<close>)
      done
  next
    case (Some v)
    with s obtain i where v: "pIns s = Some (Stmt i insertPageSQL)" by (auto simp: holds_def)
    define D1 where "D1 = (if n < 0xffffffff then ?D\<lparr>r_work := take (nat (uint n)) (r_work ?D)\<rparr> else ?D)"
    have D1: "n < 0xffffffff \<Longrightarrow> r_exec (RTruncate (uint n + 1)) ?D = Done D1"
      using t v by (auto simp: on_txn_def r_abs_def D1_def txn split: if_splits)
    have spec: "on_txn (r_abs rdb_of s) n = Some ((r_abs rdb_of s)\<lparr>rq_db := D1, rq_count := n\<rparr>)"
    proof (cases "n < 0xffffffff")
      case True
      with D1 [OF True] v txn show ?thesis by (simp add: on_txn_def r_abs_def D1_def)
    next
      case False
      with v txn show ?thesis by (simp add: on_txn_def r_abs_def D1_def)
    qed
    have txn1: "r_txn D1" using txn by (simp add: D1_def)
    have trunc: "wpo (seq (truncate_replica E (pIns s) n) k) Q s'"
      if "db s'" "openRows s' = None" "rdb_of (world s') = ?D"
        "\<And>w. rdb_of w = D1 \<Longrightarrow> wpo (k ()) Q (s'\<lparr>world := w\<rparr>)" for k :: "unit \<Rightarrow> ('a, 'b) r_gom" and Q s'
    proof (cases "n < 0xffffffff")
      case True
      show ?thesis
        unfolding truncate_replica_def
        apply (simp only: True cond_simps seq_assoc)
        apply (rule replica.seq_stmt_exec [where q = "RTruncate (uint n + 1)" and d = D1, unfolded rsql.simps rargs.simps], rule v, rule that, rule that)
         apply (simp only: that r_done_def D1 [OF True] exec_result.case)
        apply (simp add: that)
        done
    next
      case False
      with that(4) [of "world s'"] that(3) show ?thesis by (simp add: D1_def truncate_replica_def)
    qed
    show ?thesis
      unfolding replica_step_def
      apply (rule seq_next_message [where rest = "put_u32 n @ rest"], use io in \<open>simp add: io_ok_def\<close>, simp add: av)
      apply (simp only: replica_handle_simps on_origin_txn_def)
      apply (rule seq_rd_u32 [where rest = rest and x = n], simp add: r_nowD, simp add: r_nowD)
      apply (simp add: Some)
      apply (simp only: Some [symmetric])
      apply (rule trunc, simp add: db, simp add: s, simp)
      apply simp
      apply (rule wpo_commit, simp add: db, simp add: s, simp add: txn1)
      subgoal premises c for r1 r2 w1 w
        by (rule taken [OF spec, where w = w and m = n]) (use c r_now_trans in \<open>auto simp: r_abs_def intro!: rsync.equality\<close>)
      done
  qed
qed

lemma seq_page_stmt:
  assumes s: "db s" "openRows s = None" "pIns s = None \<or> holds (pIns s) insertPageSQL" "ClosePIns \<in> set (defers s) \<longrightarrow> pIns s \<noteq> None"
      "set (defers s) \<subseteq> {CloseDb, ClosePIns}"
    and Q: "\<And>w i ds v. rdb_of w = rdb_of (world s) \<Longrightarrow> holds v insertPageSQL \<Longrightarrow> set ds \<subseteq> {CloseDb, ClosePIns} \<Longrightarrow>
      wpo (k ()) Q (s\<lparr>world := w, nextId := i, pIns := v, defers := ds\<rparr>)"
  shows "wpo (seq (cond (pIns s = None)
            (seq (try_val (prepare E insertPageSQL)) (\<lambda>st.
             seq (modify (\<lambda>s. s\<lparr>pIns := Some st\<rparr>)) (\<lambda>_.
             push_defer ClosePIns)))) k) Q s"
proof (cases "pIns s = None")
  case True
  show ?thesis
    apply (simp only: True simp_thms cond_simps seq_assoc)
    apply (rule replica.seq_prepare, rule s(1), rule s(2))
    apply (simp only: seq_simps)
    apply (use Q s(5) in simp)
    done
next
  case False
  with s(3,5) Q [where w = "world s" and i = "nextId s" and v = "pIns s" and ds = "defers s"]
  have "wpo (k ()) Q s" by simp
  then show ?thesis by (simp only: False cond_simps seq_ret)
qed

lemma step_page:
  assumes ok: "r_ok rdb_of s" and io: "io_ok s" and rd: "r_ready (r_abs rdb_of s) (MPage p d)"
    and av: "r_avail (rs_r s) = enc_omsg (MPage p d) @ rest"
  shows "wpo (replica_step E) (r_taken rdb_of s (MPage p d) rest) s"
proof -
  let ?D = "rdb_of (world s)"
  note s = ok [unfolded r_ok_def]
  from rd have o: "on_page (r_abs rdb_of s) p d \<noteq> None" and len: "int (length d) = pageSize s" "20 \<le> length d"
    by (simp_all add: r_abs_def)
  from o obtain D1 where D1: "r_exec (RInsertPage (uint p) (wal_header p (jMode s) d)) ?D = Done D1"
    by (auto simp: on_page_def r_abs_def wal_header_kept simp del: r_exec.simps cong: if_cong split: exec_result.splits)
  then have d1: "r_done (RInsertPage (uint p) (wal_header p (jMode s) d)) ?D = Some D1"
    by (simp only: r_done_def exec_result.case)
  have spec: "on_page (r_abs rdb_of s) p d =
      Some ((r_abs rdb_of s)\<lparr>rq_db := D1, rq_ins := True, rq_pages := pageUpdates s + 1\<rparr>)"
    using D1 by (cases "p = 1") (simp_all add: on_page_def r_abs_def wal_header_kept del: r_exec.simps)
  from D1 have D1': "D1 = ?D\<lparr>r_work := r_work D1\<rparr>" "r_txn ?D" by (auto split: if_splits)
  with r_ok_open [OF ok] have db: "db s" by simp
  have keep: "r_path D1 = r_path ?D" "r_send D1 = r_send ?D" "r_attached D1 = r_attached ?D"
    by (subst D1'(1), simp)+
  show ?thesis
    unfolding replica_step_def
    apply (rule seq_next_message [where rest = "put_u32 p @ d @ rest"], use io in \<open>simp add: io_ok_def\<close>, simp add: av)
    apply (simp only: replica_handle_simps on_origin_page_def)
    apply (rule seq_rd_u32 [where rest = "d @ rest" and x = p], simp add: r_nowD, simp add: r_nowD)
    apply (simp only: seq_simps)
    apply (rule seq_page_stmt, simp add: db, simp add: s, use s in simp, use s in simp, use s in simp)
    apply (simp only: seq_simps)
    apply (rule seq_rd_bytes [where rest = rest and d = d], simp add: r_nowD, simp add: r_nowD, simp add: len)
    apply (use len(2) in simp)
    subgoal premises q for r1 r2 w i ds v r3
    proof -
      from q obtain k where v: "v = Some (Stmt k insertPageSQL)" by (auto simp: holds_def)
      show ?thesis
        apply (rule replica.seq_stmt_exec [where q = "RInsertPage (uint p) (wal_header p (jMode s) d)" and d = D1, unfolded rsql.simps rargs.simps],
            rule v, simp add: db, simp add: s)
        subgoal using q d1 by (simp add: wal_header_kept)
        apply simp
        apply (rule r_takenI [where out = "[]"])
        subgoal using spec q by (simp add: r_abs_def v)
        subgoal using s db q keep by (simp add: r_ok_def v)
        subgoal using io q by (auto simp: moved_def io_okD intro: r_now_trans)
        done
    qed
    done
qed

text \<open>One iteration of the loop, whatever the message.\<close>

lemma replica_step_refines:
  assumes "r_ok rdb_of s" and "io_ok s" and "r_ready (r_abs rdb_of s) m"
    and "r_avail (rs_r s) = enc_omsg m @ rest"
  shows "wpo (replica_step E) (r_taken rdb_of s m rest) s"
  using assms by (cases m) (auto intro: step_begin step_detail step_round step_txn step_page simp del: enc_omsg.simps r_ready.simps(1-5))

lemma replica_step_end:
  assumes "io_ok s" and "r_avail (rs_r s) = enc_omsg MEnd @ rest"
  shows "wpo (replica_step E) (\<lambda>r s'. r = Return None \<and> (\<exists>r'. s' = s\<lparr>rs_r := r'\<rparr> \<and> r_now (rs_r s) rest r')) s"
  unfolding replica_step_def
  apply (rule seq_next_message [where rest = rest], use assms(1) in \<open>simp add: io_ok_def\<close>, simp add: assms(2))
  apply (simp only: replica_handle_simps wpo_stop)
  apply blast
  done

text \<open>While the message is incomplete the role only waits.\<close>

lemma replica_step_waits:
  assumes ok: "r_ok rdb_of s" and w: "r_wait (rs_r s)"
    and page: "\<And>p d. m = MPage p d \<Longrightarrow> int (length d) = pageSize s \<and> db s"
    and size: "\<And>p sz n. m = MBegin p sz n \<Longrightarrow> pow2_size sz"
    and pre: "strict_prefix (r_avail (rs_r s)) (enc_omsg m)"
  shows "wpo (replica_step E) (\<lambda>r s'. r = Return (Some Blocked)) s"
  unfolding replica_step_def
proof (cases m)
  case (MBegin p sz n)
  have "pow2_byte sz \<le> 16"
    using size [OF MBegin] by (auto simp: pow2_size_def pow2_byte_def log2_loop_pow2 word_le_nat_alt unsigned_of_nat take_bit_nat_eq_self)
  then show "wpo (seq next_message (replica_handle E)) (\<lambda>r s'. r = Return (Some Blocked)) s"
    apply -
    apply (rule wait_next [OF w, where x = OriginBegin and Y = "p # pow2_byte sz # put_u32 n"], use pre MBegin in simp, simp)
    apply (simp only: replica_handle_simps on_origin_begin_def)
    apply (rule seq_closeDb, use ok in \<open>simp add: r_ok_def\<close>)
    apply (simp only: seq_simps)
    apply (rule wait_byte [where x = p and Y = "pow2_byte sz # put_u32 n"], simp, simp, simp)
    apply (rule wait_pow2 [where x = "pow2_byte sz" and Y = "put_u32 n"], simp, simp, simp, simp)
    apply (rule wait_u32 [where x = n and Y = "[]"]; simp)
    done
next
  case (MDetail f k)
  show "wpo (seq next_message (replica_handle E)) (\<lambda>r s'. r = Return (Some Blocked)) s"
    apply (rule wait_next [OF w, where x = OriginDetail and Y = "put_u32 f @ put_u32 k"], use pre MDetail in simp, simp)
    apply (simp only: replica_handle_simps on_origin_detail_def)
    apply (rule wait_u32 [where x = f and Y = "put_u32 k"], simp, simp, simp)
    apply (rule wait_u32 [where x = k and Y = "[]"]; simp)
    done
next
  case MReady
  show "wpo (seq next_message (replica_handle E)) (\<lambda>r s'. r = Return (Some Blocked)) s"
    by (rule wait_next [OF w, where x = OriginReady and Y = "[]"]) (use pre MReady in simp_all)
next
  case (MPage p d)
  note s = ok [unfolded r_ok_def]
  have db: "db s" "pageSize s = int (length d)" using page [OF MPage] by simp_all
  show "wpo (seq next_message (replica_handle E)) (\<lambda>r s'. r = Return (Some Blocked)) s"
    apply (rule wait_next [OF w, where x = OriginPage and Y = "put_u32 p @ d"], use pre MPage in simp, simp)
    apply (simp only: replica_handle_simps on_origin_page_def)
    apply (rule wait_u32 [where x = p and Y = d], simp, simp, simp)
    apply (simp only: seq_simps)
    apply (rule seq_page_stmt, simp add: db, simp add: s, use s in simp, use s in simp, use s in simp)
    apply (simp only: seq_simps)
    apply (rule wait_bytes [where d = d]; simp add: db)
    done
next
  case (MTxn n)
  show "wpo (seq next_message (replica_handle E)) (\<lambda>r s'. r = Return (Some Blocked)) s"
    apply (rule wait_next [OF w, where x = OriginTxn and Y = "put_u32 n"], use pre MTxn in simp, simp)
    apply (simp only: replica_handle_simps on_origin_txn_def)
    apply (rule wait_u32 [where x = n and Y = "[]"]; simp)
    done
next
  case MEnd
  show "wpo (seq next_message (replica_handle E)) (\<lambda>r s'. r = Return (Some Blocked)) s"
    by (rule wait_next [OF w, where x = OriginEnd and Y = "[]"]) (use pre MEnd in simp_all)
qed

end

section \<open>The beginning and the end\<close>

definition replica_prologue :: "'w env \<Rightarrow> ('w, unit) r_gom" where
  "replica_prologue E =
     seq (try_err (hash_Register E)) (\<lambda>_.
     seq (modify (\<lambda>s. s\<lparr>isReplica := True\<rparr>)) (\<lambda>_.
     seq (gets commCheck) (\<lambda>cc.
     if cc then replica_commCheck E else replica_setup E)))"

lemma replica_body_prologue:
  "replica_body E = seq (replica_prologue E) (\<lambda>_.
     seq (gets (\<lambda>s. Suc (length (r_avail (rs_r s))))) (\<lambda>n. replica_loop E n))"
  unfolding replica_body_def replica_prologue_def seq_assoc
  by (intro arg_cong2 [where f = seq] ext refl) (simp add: replica_commCheck_def seq_assoc)

definition r_start :: "rdb \<Rightarrow> int \<Rightarrow> bool \<Rightarrow> int \<Rightarrow> u32 \<Rightarrow> byte \<Rightarrow> rspec" where
  "r_start d p wal sz n jm = \<lparr>rq_db = d, rq_proto = p, rq_wal = wal, rq_size = sz, rq_count = n, rq_jm = jm, rq_ins = False,
     rq_rounds = 0, rq_hashes = 0, rq_pages = 0\<rparr>"

context sound_replica_engine
begin

lemma wpo_replica_prologue:
  assumes f: "fresh_run s" and io: "io_ok s" and cc: "\<not> commCheck s" and ins: "pIns s = None"
    and d: "d = rdb_of (world s)" "r_close d = d" "replicaPath s = r_path d"
  shows "wpo (replica_prologue E) (\<lambda>r s'. r = Val () \<and> r_ok rdb_of s' \<and> io_ok s' \<and>
    r_abs rdb_of s' = r_start d (protocol s) (walOnly s) (pageSize s) (pageCount s) (jMode s) \<and>
    rs_r s' = rs_r s \<and> rs_w s' = rs_w s) s"
proof -
  note s = f [unfolded fresh_run_def]
  have np: "\<not> protocol s \<le> 0" using s by simp
  have sd: "r_send d = None" using d(2) by (metis r_close_closed(1))
  show ?thesis
    unfolding replica_prologue_def
    apply (rule replica.seq_register, use s in simp)
    apply (simp add: cc replica_setup_def np)
    using s io ins d sd apply (simp add: r_ok_def io_ok_def r_abs_def r_start_def)
    done
qed

text \<open>The calls a role deferred: all return nil, and the file behind the connection is not touched.\<close>

lemma replica_defer:
  assumes "x \<in> {CloseDb, ClosePIns}" and "x = ClosePIns \<longrightarrow> pIns s \<noteq> None"
  shows "wpo (do_defer E pIns x) (\<lambda>r s'. r = Val None \<and> stats s' = stats s \<and> pIns s' = pIns s \<and>
    openRows s' = openRows s \<and> r_file (rdb_of (world s')) = r_file (rdb_of (world s)) \<and> rs_w s' = rs_w s) s"
proof (cases x)
  case CloseDb
  obtain w where w: "e_close E (world s) = (w, None)" using r_close_total by (metis prod.collapse)
  then have "rdb_of w = r_close (rdb_of (world s))" using r_close [of "world s"] by simp
  with w CloseDb show ?thesis by (simp add: wpo_def closeDb_def stats_def)
next
  case ClosePIns
  then obtain st where st: "pIns s = Some st" using assms(2) by auto
  have "wpo (stmt_Close E st) (\<lambda>r s'. r = Val None \<and> stats s' = stats s \<and> pIns s' = pIns s \<and>
    openRows s' = openRows s \<and> r_file (rdb_of (world s')) = r_file (rdb_of (world s)) \<and> rs_w s' = rs_w s) s"
    by (rule replica.wpo_stmt_close) (simp add: stats_def)
  with st ClosePIns show ?thesis by (simp add: wpo_seq)
qed (use assms in auto)

lemma replica_defers:
  assumes "set ds \<subseteq> {CloseDb, ClosePIns}" and "ClosePIns \<in> set ds \<longrightarrow> pIns s \<noteq> None"
  shows "wpo (run_defers E pIns ds None) (\<lambda>r s'. r = Return None \<and> stats s' = stats s \<and>
    r_file (rdb_of (world s')) = r_file (rdb_of (world s)) \<and> rs_w s' = rs_w s) s"
  using assms
proof (induction ds arbitrary: s)
  case Nil
  then show ?case by simp
next
  case (Cons x ds)
  show ?case
    apply simp
    apply (rule wpo_seqI, rule wpo_mono, rule replica_defer)
      apply (use Cons.prems in simp)
     apply (use Cons.prems in auto)[1]
    apply clarsimp
    apply (rule wpo_mono, rule Cons.IH)
      apply (use Cons.prems in auto)
    done
qed

end

context sound_origin_engine
begin

lemma origin_defer:
  assumes "x \<noteq> ClosePIns" and "openRows s = None"
  shows "wpo (do_defer E (\<lambda>_. None) x) (\<lambda>r s'. r = Val None \<and> stats s' = stats s \<and> openRows s' = None \<and>
    rs_w s' = rs_w s) (s :: 'a origin)"
proof (cases x)
  case CloseDb
  obtain w where "e_close E (world s) = (w, None)" using o_close_total by (metis prod.collapse)
  with assms CloseDb show ?thesis by (simp add: wpo_def closeDb_def stats_def)
next
  case (CloseStmt st)
  have "wpo (stmt_Close E st) (\<lambda>r s'. r = Val None \<and> stats s' = stats s \<and> openRows s' = None \<and> rs_w s' = rs_w s) s"
    by (rule origin.wpo_stmt_close) (simp add: stats_def assms)
  with CloseStmt show ?thesis by simp
next
  case (CloseRows i)
  with assms show ?thesis by (simp add: wpo_rows_closed)
qed (use assms in auto)

lemma origin_defers:
  assumes "ClosePIns \<notin> set ds" and "openRows s = None"
  shows "wpo (run_defers E (\<lambda>_. None) ds None) (\<lambda>r s'. r = Return None \<and> stats s' = stats s \<and> rs_w s' = rs_w s) (s :: 'a origin)"
  using assms
proof (induction ds arbitrary: s)
  case Nil
  then show ?case by simp
next
  case (Cons x ds)
  have x: "x \<noteq> ClosePIns" and ds: "ClosePIns \<notin> set ds" using Cons.prems(1) by auto
  show ?case
    apply simp
    apply (rule wpo_seqI, rule wpo_mono, rule origin_defer [OF x Cons.prems(2)])
    apply clarsimp
    apply (rule wpo_mono, rule Cons.IH [OF ds])
     apply simp_all
    done
qed

end

end
