(* ===== verification/Progress.thy ===== *)
theory Progress
  imports ReplicaRefine
begin

text \<open>
  The protocol does not get stuck and ends. In every state the invariant allows, the next message of
  either queue is one its reader's specification has a step for, with values that fit the code's
  integers; some message is in flight until the run has ended; and every step decreases a measure.
\<close>

section \<open>What the replica's file must be to begin\<close>

text \<open>
  The replica can be opened for pages of \<open>sz\<close> bytes: its page size is the origin's, or it is empty and
  takes it; when only WAL mode is allowed the file is empty or in WAL mode.
\<close>

definition startable :: "rdb \<Rightarrow> int \<Rightarrow> bool \<Rightarrow> bool" where
  "startable d sz wal \<longleftrightarrow> pow2_size sz \<and> r_psize (opened sz d) = sz \<and>
     (wal \<longrightarrow> r_mode d = ''wal'' \<or> r_file d = [])"

text \<open>The option of the replica's run is never changed.\<close>

lemma r_spec_wal: "r_spec r m r' out \<Longrightarrow> rq_wal r' = rq_wal r"
  by (cases m) (auto simp: on_begin_def Let_def send_batch_def on_page_def on_txn_def
      split: if_splits option.splits exec_result.splits)

lemma psys_step_wal: "psys_step s s' \<Longrightarrow> rq_wal (p_r s') = rq_wal (p_r s)"
  by (erule psys_stepE) (auto dest: r_spec_wal)

section \<open>The next message can be taken\<close>

lemma track_head:
  assumes "phase_hash og file rp sz jm s" and "to_o s = NHash h # ms"
  obtains f k rows where "sp_i (p_o s) = word_of_int f" "sp_n (p_o s) = word_of_int k"
    "covering og rp (bad_rows (sp_db (p_o s)) @ (f, k) # rows)" "length h = 20"
proof -
  from assms obtain rows where
    tr: "((sp_i (p_o s), sp_n (p_o s)), h) # track (sp_i (p_o s) + sp_n (p_o s), sp_n (p_o s)) ms = tagged rp rows"
    and cov: "covering og rp (bad_rows (sp_db (p_o s)) @ rows)" and h: "length h = 20"
    unfolding phase_hash_def by auto
  from tr obtain f k rows' where "rows = (f, k) # rows'" by (cases rows) auto
  with tr cov h that show thesis by auto
qed

lemma insert_rows_new:
  assumes "distinct (map fst (old @ new))"
  shows "insert_rows new old = Some (old @ new)"
  using assms by (auto simp: insert_rows_def)

lemma ready_hash:
  assumes set: "setting og rp sz jm" and ph: "phase_hash og file rp sz jm s" and q: "to_o s = NHash h # ms"
  shows "o_ready (p_o s) (NHash h)"
proof -
  from track_head [OF ph q] obtain f k rows where
    i: "sp_i (p_o s) = word_of_int f" "sp_n (p_o s) = word_of_int k"
    and cov: "covering og rp (bad_rows (sp_db (p_o s)) @ (f, k) # rows)" and h: "length h = 20" .
  from covering_len [OF cov, of f k] have fk: "1 \<le> f" "1 \<le> k" "f + k \<le> int (length rp) + 1" by auto
  with setting_len [OF set] have u: "uint (sp_i (p_o s)) = f" "uint (sp_n (p_o s)) = k" by (simp_all add: i)
  have "distinct (map fst (bad_rows (sp_db (p_o s)) @ (f, k) # rows))"
    by (rule distinct_pages_keys) (use cov in \<open>auto simp: covering_def\<close>)
  then have "distinct (map fst (bad_rows (sp_db (p_o s)) @ [(f, k)]))" by auto
  from insert_rows_new [OF this] h show ?thesis by (simp add: u)
qed

lemma covering_u32:
  assumes "setting og rp sz jm" and "covering og rp rows"
  shows "rows_u32 rows"
  unfolding rows_u32_def
proof safe
  fix f k assume "(f, k) \<in> set rows"
  from covering_len [OF assms(2) this] setting_len [OF assms(1)]
  show "0 \<le> f" "f < 2 ^ 32" "0 \<le> k" "k < 2 ^ 32" by simp_all
qed

lemma distinct_fst_tail: "distinct (map fst (tail_rows a))"
  by (simp add: tail_rows_def comp_def)

lemma ready_ready:
  assumes set: "setting og rp sz jm" and ph: "phase_hash og file rp sz jm s" and q: "to_o s = NReady # ms"
  shows "o_ready (p_o s) NReady"
proof -
  from ph q have ms: "ms = []" by (simp add: phase_hash_def)
  with ph q have cov: "covering og rp (bad_rows (sp_db (p_o s)))" and bad: "o_bad (sp_db (p_o s)) \<noteq> None"
    and mk: "marked rp (sp_mx (p_o s)) []"
    unfolding phase_hash_def by auto
  from bad obtain b where b: "o_bad (sp_db (p_o s)) = Some b" by auto
  then have cb: "covering og rp b" using cov by (simp add: bad_rows_def)
  have mx: "uint (sp_mx (p_o s)) = int (length rp) + 1" using mk by (simp add: marked_def)
  have "fst r < int (length rp) + 1" if "r \<in> set b" for r
    using covering_len [OF cb, of "fst r" "snd r"] that by simp
  moreover have "int (length rp) + 1 \<le> fst r" if "r \<in> set (tail_rows (p_o s))" for r
    using set_tail_rows [OF mx refl] that by (metis atLeastAtMost_iff imageI)
  ultimately have "set (map fst b) \<inter> set (map fst (tail_rows (p_o s))) = {}" by force
  moreover have "distinct (map fst b)" by (rule distinct_pages_keys) (use cb in \<open>auto simp: covering_def\<close>)
  ultimately have "insert_rows (tail_rows (p_o s)) b \<noteq> None"
    using distinct_fst_tail by (subst insert_rows_new) auto
  with b covering_u32 [OF set cb] show ?thesis by simp
qed

lemma o_ready_head:
  assumes set: "setting og (start_pages sz d0) sz (start_mode d0)" and inv: "protocol_inv og d0 sz s"
    and q: "to_o s = m # ms"
  shows "o_ready (p_o s) m"
proof -
  from inv q consider "phase_propose og d0 sz s"
    | "phase_hash og (r_file d0) (start_pages sz d0) sz (start_mode d0) s"
    by (auto simp: protocol_inv_def phase_begin_def phase_detail_def detail_static_def phase_pages_def
        pages_static_def phase_committed_def)
  then show ?thesis
  proof cases
    case 1
    with q show ?thesis by (auto simp: phase_propose_def)
  next
    case 2
    show ?thesis
    proof (cases m)
      case (NPropose p)
      with 2 q show ?thesis by (simp add: phase_hash_def)
    next
      case (NConfig i n)
      then show ?thesis by simp
    next
      case (NHash h)
      with ready_hash [OF set 2] q show ?thesis by simp
    next
      case NReady
      with ready_ready [OF set 2] q show ?thesis by simp
    qed
  qed
qed

lemma o_ready_step:
  assumes "o_ready a m"
  shows "\<exists>a' out. o_spec a m a' out"
proof (cases m)
  case (NPropose p)
  with assms o_spec.propose [of p a] show ?thesis by auto
next
  case (NConfig i n)
  then show ?thesis by (auto intro: o_spec.config)
next
  case (NHash h)
  with assms have h: "length h = 20" and or: "hash_matches (o_pages (sp_db a)) (sp_i a) (sp_n a) h \<or>
      insert_rows [(uint (sp_i a), uint (sp_n a))] (bad_rows (sp_db a)) \<noteq> None" by auto
  show ?thesis
  proof (cases "hash_matches (o_pages (sp_db a)) (sp_i a) (sp_n a) h")
    case True
    from o_spec.hash_match [OF h True] NHash show ?thesis by blast
  next
    case False
    with or obtain b where b: "insert_rows [(uint (sp_i a), uint (sp_n a))] (bad_rows (sp_db a)) = Some b" by auto
    from o_spec.hash_differs [OF h False b] NHash show ?thesis by blast
  qed
next
  case NReady
  with assms obtain bad where bad: "o_bad (sp_db a) = Some bad"
    "filter (\<lambda>r. snd r > 1) bad = [] \<longrightarrow> insert_rows (tail_rows a) bad \<noteq> None" by auto
  show ?thesis
  proof (cases "filter (\<lambda>r. snd r > 1) bad = []")
    case False
    from o_spec.ready_detail [OF bad(1) refl False] NReady show ?thesis by blast
  next
    case True
    with bad(2) obtain b where "insert_rows (tail_rows a) bad = Some b" by auto
    from o_spec.ready_pages [OF bad(1) True this refl refl] NReady show ?thesis by blast
  qed
qed

lemma ready_begin:
  assumes set: "setting og (start_pages sz d0) sz (start_mode d0)" and st: "startable d0 sz (rq_wal (p_r s))"
    and ph: "phase_begin og d0 sz s" and q: "to_r s = m # ms"
  shows "r_ready (p_r s) m"
proof -
  from ph q obtain p where m: "m = MBegin p sz (sp_count (p_o s))" by (auto simp: phase_begin_def)
  from ph have b: "r_close (rq_db (p_r s)) = r_close d0" "\<not> rq_ins (p_r s)" "0 \<le> rq_proto (p_r s)" "rq_proto (p_r s) < 256"
    by (simp_all add: phase_begin_def begin_static_def)
  from b(1) have op: "opened sz (rq_db (p_r s)) = opened sz d0" and f: "r_file (rq_db (p_r s)) = r_file d0"
    "r_mode (rq_db (p_r s)) = r_mode d0" by (metis opened_close r_close_fields)+
  have "on_begin (p_r s) p sz (sp_count (p_o s)) \<noteq> None"
    using st by (auto simp: on_begin_def Let_def op f startable_def)
  moreover have len: "1 \<le> length (start_pages sz d0)" "length (start_pages sz d0) < 2 ^ 32 - 1"
    using set by (auto simp: setting_def wf_file_def Suc_le_eq)
  moreover have "rows_u32 (first_rows (int (unat p)) (length (start_pages sz d0)))"
    using first_rows_spec [OF len, of "int (unat p)"] len(2) by (fastforce simp: rows_u32_def inside_def)
  ultimately show ?thesis using st b by (simp add: m op start_pages_def startable_def)
qed

lemma ready_detail_head:
  assumes set: "setting og rp sz jm" and ph: "phase_detail og file rp sz jm s" and q: "to_r s = m # ms"
  shows "r_ready (p_r s) m"
proof -
  from ph obtain rows qs bad where dr: "detail_rows og rp s rows qs bad" by (auto simp: phase_detail_def)
  then have sq: "r_send (rq_db (p_r s)) = Some qs" and cov: "covering og rp (bad @ qs @ rows)"
    by (simp_all add: detail_rows_def)
  have "rows_u32 qs" using covering_u32 [OF set cov] by (auto simp: rows_u32_def)
  with dr q sq show ?thesis by (cases rows) (auto simp: detail_rows_def)
qed

lemma setting_origin_nonempty: "setting og rp sz jm \<Longrightarrow> og \<noteq> []"
  by (cases rp) (auto simp: setting_def header_count_def)

lemma ready_pages_head:
  assumes set: "setting og rp sz jm" and ph: "phase_pages og file rp sz jm s" and q: "to_r s = m # ms"
  shows "r_ready (p_r s) m"
proof -
  from ph have st: "pages_static og file rp sz jm s" by (simp add: phase_pages_def)
  from ph obtain rows where pr: "pages_rows og rp sz jm s rows" by (auto simp: phase_pages_def)
  have wf: "20 \<le> sz" "\<forall>d \<in> set og. int (length d) = sz" using set by (simp_all add: setting_def wf_file_def)
  show ?thesis
  proof (cases rows)
    case (Cons r rows')
    obtain p d where r: "r = (p, d)" by fastforce
    with pr Cons have og: "page_at og p = Some d" by (simp add: pages_rows_def)
    then have b: "1 \<le> p" "p \<le> int (length og)" "d \<in> set og" by (auto simp: page_at_Some)
    with setting_len [OF set] have u: "uint (word_of_int p :: u32) = p" by simp
    have m: "m = MPage (word_of_int p) d" using pr q Cons r by (simp add: pages_rows_def)
    with wf b u st show ?thesis by (auto simp: on_page_def pages_static_def)
  next
    case Nil
    then have m: "m = MTxn (sp_count (p_o s))" using pr q by (simp add: pages_rows_def page_queue_def)
    have "og \<noteq> []" by (rule setting_origin_nonempty [OF set])
    then have "2 \<le> uint (sp_count (p_o s)) + 1"
      using st by (cases og) (auto simp: pages_static_def origin_const_def)
    with m st show ?thesis by (auto simp: on_txn_def pages_static_def)
  qed
qed

lemma r_ready_head:
  assumes set: "setting og (start_pages sz d0) sz (start_mode d0)" and st: "startable d0 sz (rq_wal (p_r s))"
    and inv: "protocol_inv og d0 sz s" and q: "to_r s = m # ms" and e: "m \<noteq> MEnd"
  shows "r_ready (p_r s) m"
proof -
  let ?rp = "start_pages sz d0" and ?jm = "start_mode d0" and ?f = "r_file d0"
  from inv q e consider "phase_begin og d0 sz s" | "phase_detail og ?f ?rp sz ?jm s"
    | "phase_pages og ?f ?rp sz ?jm s"
    by (auto simp: protocol_inv_def phase_propose_def phase_hash_def phase_committed_def split: if_splits)
  then show ?thesis
    by cases (use ready_begin [OF set st _ q] ready_detail_head [OF set _ q] ready_pages_head [OF set _ q] in auto)
qed

lemma on_txn_open: "on_txn r n = Some r1 \<Longrightarrow> r_txn (rq_db r1)"
  by (auto simp: on_txn_def split: if_splits)

lemma r_ready_step: "r_ready r m \<Longrightarrow> \<exists>r' out. r_spec r m r' out"
proof (cases m)
  case (MTxn n)
  assume "r_ready r m"
  with MTxn obtain r1 where r1: "on_txn r n = Some r1" by auto
  with commitsI [OF on_txn_open [OF r1] restamped_refl] MTxn show ?thesis by auto
qed auto

section \<open>No deadlock\<close>

lemma in_flight:
  assumes "protocol_inv og d0 sz s" and "\<not> ended s"
  shows "to_o s \<noteq> [] \<or> to_r s \<noteq> []"
  using assms
  by (auto simp: protocol_inv_def phase_begin_def phase_propose_def phase_hash_def phase_detail_def
      detail_rows_def phase_pages_def pages_rows_def phase_committed_def)

lemma protocol_progress:
  assumes set: "setting og (start_pages sz d0) sz (start_mode d0)" and st: "startable d0 sz (rq_wal (p_r s))"
    and inv: "protocol_inv og d0 sz s" and e: "\<not> ended s"
  shows "\<exists>s'. psys_step s s'"
proof (cases "to_o s")
  case (Cons m ms)
  from o_ready_step [OF o_ready_head [OF set inv Cons]] obtain a out where "o_spec (p_o s) m a out" by blast
  with Cons show ?thesis by (blast intro: psys_step.origin)
next
  case Nil
  with in_flight [OF inv e] obtain m ms where q: "to_r s = m # ms" by (cases "to_r s") auto
  show ?thesis
  proof (cases "m = MEnd")
    case True
    with q e show ?thesis by (blast intro: psys_step.finish)
  next
    case False
    from r_ready_step [OF r_ready_head [OF set st inv q False]] obtain r out where "r_spec (p_r s) m r out" by blast
    with q e show ?thesis by (blast intro: psys_step.replica)
  qed
qed

section \<open>Every run ends\<close>

text \<open>
  The versions still to be proposed and the rounds still to come on either side, then the messages in
  flight, ORIGIN_BEGIN counted twice for the proposal that may answer it.
\<close>

fun weight :: "omsg \<Rightarrow> nat" where
  "weight (MBegin p sz n) = 2"
| "weight _ = 1"

definition rounds_left :: "psys \<Rightarrow> nat" where
  "rounds_left s = nat (sp_proto (p_o s)) + (3 - unat (sp_rounds (p_o s))) + (3 - unat (rq_rounds (p_r s)))"

definition queue_weight :: "psys \<Rightarrow> nat" where
  "queue_weight s = length (to_o s) + sum_list (map weight (to_r s))"

definition psys_order :: "(psys \<times> psys) set" where
  "psys_order = measures [rounds_left, queue_weight]"

lemma wf_psys_order: "wf psys_order"
  by (simp add: psys_order_def)

lemma psys_orderI:
  "rounds_left s' < rounds_left s \<or> rounds_left s' = rounds_left s \<and> queue_weight s' < queue_weight s \<Longrightarrow>
     (s', s) \<in> psys_order"
  by (auto simp: psys_order_def)

lemma next_round: "unat (x :: u32) \<le> 2 \<Longrightarrow> 3 - unat (x + 1) < 3 - unat x"
  by (simp add: unat_word_ariths)

lemma origin_order:
  assumes inv: "protocol_inv og d0 sz s" and q: "to_o s = m # ms" and o: "o_spec (p_o s) m a out"
  shows "(s\<lparr>p_o := a, to_o := ms, to_r := to_r s @ out\<rparr>, s) \<in> psys_order"
proof (cases m)
  case (NPropose p)
  from inv q have "phase_propose og d0 sz s \<or> phase_hash og (r_file d0) (start_pages sz d0) sz (start_mode d0) s"
    by (auto simp: protocol_inv_def phase_begin_def phase_detail_def detail_static_def phase_pages_def
        pages_static_def phase_committed_def)
  then have p: "int (unat p) < sp_proto (p_o s)"
    using NPropose q by (auto simp: phase_propose_def phase_hash_def)
  from o NPropose have "a = (p_o s)\<lparr>sp_proto := int (unat p)\<rparr>" by (auto elim: o_spec_propose)
  moreover have "nat (int (unat p)) < nat (sp_proto (p_o s))" using p by linarith
  ultimately show ?thesis by (intro psys_orderI) (simp add: rounds_left_def)
next
  case (NConfig i n)
  with o have "a = (p_o s)\<lparr>sp_i := i, sp_n := n\<rparr>" "out = []" by (auto elim: o_spec_config)
  with q show ?thesis by (intro psys_orderI) (simp add: rounds_left_def queue_weight_def)
next
  case (NHash h)
  with o have "sp_proto a = sp_proto (p_o s)" "sp_rounds a = sp_rounds (p_o s)" "out = []"
    by (auto elim!: o_spec_hash simp: next_expected_def set_bad_def)
  with q show ?thesis by (intro psys_orderI) (simp add: rounds_left_def queue_weight_def)
next
  case NReady
  with inv q have "unat (sp_rounds (p_o s)) \<le> 2"
    by (auto simp: protocol_inv_def phase_begin_def phase_propose_def phase_hash_def phase_detail_def
        detail_static_def phase_pages_def pages_static_def phase_committed_def)
  moreover from o NReady have "sp_proto a = sp_proto (p_o s)" "sp_rounds a = sp_rounds (p_o s) + 1"
    by (auto elim!: o_spec_ready simp: set_bad_def)
  ultimately show ?thesis using next_round [of "sp_rounds (p_o s)"] by (intro psys_orderI disjI1) (simp add: rounds_left_def)
qed

lemma replica_order:
  assumes inv: "protocol_inv og d0 sz s" and q: "to_r s = m # ms" and r: "r_spec (p_r s) m r' out"
  shows "(s\<lparr>p_r := r', to_r := ms, to_o := to_o s @ out\<rparr>, s) \<in> psys_order"
proof -
  have round: ?thesis if "unat (rq_rounds (p_r s)) \<le> 2" "rq_rounds r' = rq_rounds (p_r s) + 1"
    using that next_round [of "rq_rounds (p_r s)"] by (intro psys_orderI disjI1) (simp add: rounds_left_def)
  show ?thesis
  proof (cases m)
    case (MBegin p sz' n)
    with inv q have "rq_rounds (p_r s) = 0"
      by (auto simp: protocol_inv_def phase_begin_def phase_propose_def begin_static_def phase_hash_def
          phase_detail_def phase_pages_def phase_committed_def detail_rows_def pages_rows_def
          detail_msgs_def page_queue_def Cons_eq_append_conv Cons_eq_map_conv split: if_splits)
    then show ?thesis
      using MBegin r q round
      by (auto simp: on_begin_def Let_def send_batch_def rounds_left_def queue_weight_def intro: psys_orderI split: if_splits)
  next
    case MReady
    with inv q have "unat (rq_rounds (p_r s)) \<le> 2"
      by (auto simp: protocol_inv_def phase_begin_def phase_propose_def begin_static_def phase_hash_def
          phase_detail_def detail_static_def phase_pages_def phase_committed_def pages_rows_def
          page_queue_def Cons_eq_append_conv Cons_eq_map_conv split: if_splits)
    with MReady r round show ?thesis by (auto simp: send_batch_def split: option.splits)
  next
    case (MPage p d)
    with r q show ?thesis
      by (intro psys_orderI) (auto simp: on_page_def rounds_left_def queue_weight_def split: exec_result.splits)
  next
    case (MTxn n)
    with r q show ?thesis
      by (intro psys_orderI) (auto simp: on_txn_def rounds_left_def queue_weight_def split: exec_result.splits if_splits)
  qed (use r q in \<open>auto intro!: psys_orderI simp: rounds_left_def queue_weight_def split: option.splits\<close>)
qed

lemma psys_step_order:
  assumes inv: "protocol_inv og d0 sz s" and step: "psys_step s s'"
  shows "(s', s) \<in> psys_order"
  using step
proof (rule psys_stepE)
  fix m ms a out
  assume "s' = s\<lparr>p_o := a, to_o := ms, to_r := to_r s @ out, said := said s @ out\<rparr>" "to_o s = m # ms" "o_spec (p_o s) m a out"
  then show ?thesis using origin_order [OF inv] by (simp add: psys_order_def rounds_left_def queue_weight_def)
next
  fix m ms r out
  assume "s' = s\<lparr>p_r := r, to_r := ms, to_o := to_o s @ out\<rparr>" "to_r s = m # ms" "r_spec (p_r s) m r out"
  then show ?thesis using replica_order [OF inv] by simp
next
  fix ms
  assume "s' = s\<lparr>to_r := ms, ended := True\<rparr>" "to_r s = MEnd # ms"
  then show ?thesis by (intro psys_orderI) (simp add: rounds_left_def queue_weight_def)
qed

section \<open>Both sides count the same\<close>

fun is_hash :: "rmsg \<Rightarrow> bool" where
  "is_hash (NHash h) = True"
| "is_hash _ = False"

text \<open>
  Every entry the replica counted is a hash the origin has counted or will; once the first batch was
  sent both sides agree on the protocol and the page count.
\<close>

definition tally :: "psys \<Rightarrow> bool" where
  "tally s \<longleftrightarrow> rq_hashes (p_r s) = sp_hashes (p_o s) + of_nat (length (filter is_hash (to_o s))) \<and>
     (rq_rounds (p_r s) \<noteq> 0 \<longrightarrow> rq_proto (p_r s) = sp_proto (p_o s) \<and> rq_count (p_r s) = sp_count (p_o s))"

lemma batch_hashes: "inside (length ps) es \<Longrightarrow> length (filter is_hash (batch ps es ex)) = length es"
proof (induction es arbitrary: ex)
  case (Cons r es)
  obtain f k where r: "r = (f, k)" by fastforce
  with Cons.prems range_hash_inside [of ps f k] obtain h where "range_hash ps f k = Some h" by auto
  with Cons r show ?case by simp
qed simp

lemma send_batch_tally:
  assumes "send_batch r q ex = (r', out)" and "inside (length (r_work (rq_db r))) q"
  shows "rq_hashes r' = rq_hashes r + of_nat (length (filter is_hash out)) \<and> rq_rounds r' = rq_rounds r + 1 \<and>
    rq_proto r' = rq_proto r \<and> rq_count r' = rq_count r"
proof -
  have "inside (length (r_work (rq_db r))) (sort_key fst q)"
    using assms(2) inside_perm [of q "sort_key fst q"] by simp
  with assms(1) show ?thesis by (auto simp: send_batch_def batch_hashes)
qed

lemma tally_origin:
  assumes inv: "protocol_inv og d0 sz s" and t: "tally s" and q: "to_o s = m # ms" and o: "o_spec (p_o s) m a out"
  shows "tally (s\<lparr>p_o := a, to_o := ms, to_r := to_r s @ out\<rparr>)"
proof (cases m)
  case (NPropose p)
  with inv q have "rq_rounds (p_r s) = 0"
    by (auto simp: protocol_inv_def phase_begin_def phase_propose_def begin_static_def phase_hash_def
        phase_detail_def detail_static_def phase_pages_def pages_static_def phase_committed_def)
  moreover from o NPropose have "a = (p_o s)\<lparr>sp_proto := int (unat p)\<rparr>" by (auto elim: o_spec_propose)
  ultimately show ?thesis using t q NPropose by (simp add: tally_def)
next
  case (NConfig i n)
  with o have "a = (p_o s)\<lparr>sp_i := i, sp_n := n\<rparr>" by (auto elim: o_spec_config)
  with t q NConfig show ?thesis by (simp add: tally_def)
next
  case (NHash h)
  with o have "sp_proto a = sp_proto (p_o s)" "sp_count a = sp_count (p_o s)" "sp_hashes a = sp_hashes (p_o s) + 1"
    by (auto elim!: o_spec_hash simp: next_expected_def set_bad_def)
  with t q NHash show ?thesis by (simp add: tally_def)
next
  case NReady
  with o have "sp_proto a = sp_proto (p_o s)" "sp_count a = sp_count (p_o s)" "sp_hashes a = sp_hashes (p_o s)"
    by (auto elim!: o_spec_ready simp: set_bad_def)
  with t q NReady show ?thesis by (simp add: tally_def)
qed

lemma tally_replica:
  assumes set: "setting og (start_pages sz d0) sz (start_mode d0)"
    and inv: "protocol_inv og d0 sz s" and t: "tally s" and q: "to_r s = m # ms" and r: "r_spec (p_r s) m r' out"
  shows "tally (s\<lparr>p_r := r', to_r := ms, to_o := to_o s @ out\<rparr>)"
proof (cases m)
  case (MBegin p sz' n)
  from inv q MBegin have b: "begin_static og d0 sz s" "sz' = sz" "n = sp_count (p_o s)" "to_o s = []" "int (unat p) = sp_proto (p_o s)"
    by (auto simp: protocol_inv_def phase_begin_def phase_propose_def phase_hash_def
        phase_detail_def phase_pages_def phase_committed_def detail_rows_def pages_rows_def
        detail_msgs_def page_queue_def Cons_eq_append_conv Cons_eq_map_conv split: if_splits)
  then have rr: "rq_rounds (p_r s) = 0" "r_close (rq_db (p_r s)) = r_close d0" by (simp_all add: begin_static_def)
  then have op: "opened sz (rq_db (p_r s)) = opened sz d0" by (metis opened_close)
  show ?thesis
  proof (cases "int (unat p) > rq_proto (p_r s)")
    case True
    with r MBegin t b rr show ?thesis by (auto simp: on_begin_def tally_def)
  next
    case False
    have len: "1 \<le> length (start_pages sz d0)" "length (start_pages sz d0) < 2 ^ 32 - 1"
      using set by (auto simp: setting_def wf_file_def Suc_le_eq)
    from first_rows_spec [OF len, of "int (unat p)"]
    have ins: "inside (length (r_work (opened sz d0))) (first_rows (int (unat p)) (length (r_work (opened sz d0))))"
      by (simp add: start_pages_def)
    obtain r1 where sb: "send_batch r1 (first_rows (int (unat p)) (length (r_work (opened sz d0)))) (1, 1) = (r', out)"
      "rq_db r1 = opened sz d0" "rq_proto r1 = int (unat p)" "rq_count r1 = n" "rq_hashes r1 = rq_hashes (p_r s)"
      using r MBegin False b by (auto simp: on_begin_def Let_def op split: if_splits)
    from send_batch_tally [OF sb(1)] sb(2-) ins b t q MBegin show ?thesis
      by (simp add: tally_def)
  qed
next
  case (MDetail f k)
  with t q r show ?thesis by (auto simp: tally_def split: option.splits)
next
  case MReady
  from inv q MReady obtain rows qs bad where dr: "detail_rows og (start_pages sz d0) s rows qs bad"
    and st: "detail_static og (r_file d0) (start_pages sz d0) sz (start_mode d0) s"
    by (auto simp: protocol_inv_def phase_begin_def phase_propose_def phase_hash_def
        phase_detail_def phase_pages_def phase_committed_def pages_rows_def
        page_queue_def Cons_eq_append_conv Cons_eq_map_conv split: if_splits)
  from dr have sq: "r_send (rq_db (p_r s)) = Some qs" and cov: "covering og (start_pages sz d0) (bad @ qs @ rows)"
    by (simp_all add: detail_rows_def)
  from st have w: "r_work (rq_db (p_r s)) = start_pages sz d0" and nz: "rq_rounds (p_r s) \<noteq> 0"
    by (auto simp: detail_static_def replica_const_def)
  have "inside (length (r_work (rq_db (p_r s)))) qs" using cov w by (simp add: covering_def)
  from send_batch_tally [of "p_r s" qs "(0, 0)" r' out] this r MReady sq t q nz show ?thesis
    by (simp add: tally_def)
next
  case (MPage p d)
  with t q r show ?thesis by (auto simp: tally_def on_page_def split: exec_result.splits)
next
  case (MTxn n)
  from inv q MTxn have "n = sp_count (p_o s)"
    by (auto simp: protocol_inv_def phase_begin_def phase_propose_def phase_hash_def
        phase_detail_def phase_pages_def phase_committed_def detail_rows_def pages_rows_def
        detail_msgs_def page_queue_def Cons_eq_append_conv Cons_eq_map_conv split: if_splits)
  with MTxn t q r show ?thesis by (auto simp: tally_def on_txn_def split: exec_result.splits if_splits)
qed (use r in simp)

lemma tally_step:
  assumes set: "setting og (start_pages sz d0) sz (start_mode d0)"
    and inv: "protocol_inv og d0 sz s" and t: "tally s" and step: "psys_step s s'"
  shows "tally s'"
  using step
proof (rule psys_stepE)
  fix m ms a out
  assume "s' = s\<lparr>p_o := a, to_o := ms, to_r := to_r s @ out, said := said s @ out\<rparr>" "to_o s = m # ms" "o_spec (p_o s) m a out"
  then show ?thesis using tally_origin [OF inv t] by (simp add: tally_def)
next
  fix m ms r out
  assume "s' = s\<lparr>p_r := r, to_r := ms, to_o := to_o s @ out\<rparr>" "to_r s = m # ms" "r_spec (p_r s) m r out"
  then show ?thesis using tally_replica [OF set inv t] by simp
next
  fix ms
  assume "s' = s\<lparr>to_r := ms, ended := True\<rparr>"
  with t show ?thesis by (simp add: tally_def)
qed

end
