(* ===== verification/Sync.thy ===== *)
theory Sync
  imports Progress
begin

text \<open>
  The two roles running against each other. Each role is a process over its own run state: it first
  does what precedes its loop, then one iteration of the loop per turn, and on a return it runs its
  deferred calls. A turn whose read finds too few bytes is not taken: the process waits. The two byte
  streams between them deliver what was written in pieces of any size at any time, and a side's
  stream is closed once the peer has returned and everything it wrote was delivered.
\<close>

section \<open>The processes\<close>

datatype status = NotStarted | Looping | Finished "goerr option" | Crashed string

text \<open>
  The state after a turn: the role goes on with its loop, or returns, or panics; \<open>None\<close> when it waits.
\<close>

definition settle ::
  "'w env \<Rightarrow> (('w, 'x) rsync_scheme \<Rightarrow> stmt option) \<Rightarrow> unit outcome \<times> ('w, 'x) rsync_scheme \<Rightarrow>
   (status \<times> ('w, 'x) rsync_scheme) option" where
  "settle E pins t =
     (case t of
        (Val _, s) \<Rightarrow> Some (Looping, s)
      | (Panic p, s) \<Rightarrow> Some (Crashed p, s)
      | (Return e, s) \<Rightarrow>
          if e = Some Blocked then None
          else case run_defers E pins (defers s) e s of
            (Return e', s') \<Rightarrow> Some (Finished e', s')
          | (Val _, s') \<Rightarrow> Some (Finished None, s')
          | (Panic p, s') \<Rightarrow> Some (Crashed p, s'))"

definition origin_turn :: "'w env \<Rightarrow> status \<Rightarrow> 'w origin \<Rightarrow> (status \<times> 'w origin) option" where
  "origin_turn E a s =
     (case a of
        NotStarted \<Rightarrow> settle E (\<lambda>_. None) (origin_prologue E s)
      | Looping \<Rightarrow> settle E (\<lambda>_. None) (origin_step E s)
      | _ \<Rightarrow> None)"

definition replica_turn :: "'w env \<Rightarrow> status \<Rightarrow> 'w replica \<Rightarrow> (status \<times> 'w replica) option" where
  "replica_turn E a s =
     (case a of
        NotStarted \<Rightarrow> settle E pIns (replica_prologue E s)
      | Looping \<Rightarrow> settle E pIns (replica_step E s)
      | _ \<Rightarrow> None)"

section \<open>The streams\<close>

text \<open>A chunk arrives at a reader; its stream is closed.\<close>

definition arrive :: "bytes \<Rightarrow> Reader \<Rightarrow> Reader" where
  "arrive c r = r\<lparr>rd := (rd r)\<lparr>br_src := (br_src (rd r))\<lparr>in_chunks := in_chunks (br_src (rd r)) @ [c]\<rparr>\<rparr>\<rparr>"

definition hang_up :: "Reader \<Rightarrow> Reader" where
  "hang_up r = r\<lparr>rd := (rd r)\<lparr>br_src := (br_src (rd r))\<lparr>in_end := EOF\<rparr>\<rparr>\<rparr>"

lemma arrive_simps [simp]:
  "r_avail (arrive c r) = r_avail r @ c" "r_live (arrive c r) = r_live r" "r_end (arrive c r) = r_end r"
  "bytesRead (arrive c r) = bytesRead r"
  by (simp_all add: arrive_def r_avail_def avail_def r_live_def r_end_def)

lemma hang_up_simps [simp]:
  "r_avail (hang_up r) = r_avail r" "r_live (hang_up r) = r_live r" "r_end (hang_up r) = EOF"
  "bytesRead (hang_up r) = bytesRead r"
  by (simp_all add: hang_up_def r_avail_def avail_def r_live_def r_end_def)

section \<open>The system\<close>

text \<open>\<open>o_got\<close> and \<open>r_got\<close> count the bytes of the peer's output that have been delivered.\<close>

record ('w, 'v) sync =
  s_o :: "'w origin"
  s_r :: "'v replica"
  o_at :: status
  r_at :: status
  o_got :: nat
  r_got :: nat

definition to_origin :: "('w, 'v) sync \<Rightarrow> bytes" where
  "to_origin x = drop (o_got x) (w_sent (rs_w (s_r x)))"

definition to_replica :: "('w, 'v) sync \<Rightarrow> bytes" where
  "to_replica x = drop (r_got x) (w_sent (rs_w (s_o x)))"

definition returned :: "status \<Rightarrow> bool" where
  "returned a \<longleftrightarrow> (\<exists>e. a = Finished e)"

lemma returned_simps [simp]:
  "returned (Finished e)" "\<not> returned NotStarted" "\<not> returned Looping" "\<not> returned (Crashed p)"
  by (simp_all add: returned_def)

inductive sync_step :: "'w env \<Rightarrow> 'v env \<Rightarrow> ('w, 'v) sync \<Rightarrow> ('w, 'v) sync \<Rightarrow> bool" for E1 E2 where
  turn_o: "origin_turn E1 (o_at x) (s_o x) = Some (a, s) \<Longrightarrow> sync_step E1 E2 x (x\<lparr>s_o := s, o_at := a\<rparr>)"
| turn_r: "replica_turn E2 (r_at x) (s_r x) = Some (a, s) \<Longrightarrow> sync_step E1 E2 x (x\<lparr>s_r := s, r_at := a\<rparr>)"
| deliver_o: "0 < n \<Longrightarrow> n \<le> length (to_origin x) \<Longrightarrow>
    sync_step E1 E2 x (x\<lparr>s_o := (s_o x)\<lparr>rs_r := arrive (take n (to_origin x)) (rs_r (s_o x))\<rparr>, o_got := o_got x + n\<rparr>)"
| deliver_r: "0 < n \<Longrightarrow> n \<le> length (to_replica x) \<Longrightarrow>
    sync_step E1 E2 x (x\<lparr>s_r := (s_r x)\<lparr>rs_r := arrive (take n (to_replica x)) (rs_r (s_r x))\<rparr>, r_got := r_got x + n\<rparr>)"
| close_o: "returned (r_at x) \<Longrightarrow> to_origin x = [] \<Longrightarrow> r_end (rs_r (s_o x)) = Blocked \<Longrightarrow>
    sync_step E1 E2 x (x\<lparr>s_o := (s_o x)\<lparr>rs_r := hang_up (rs_r (s_o x))\<rparr>\<rparr>)"
| close_r: "returned (o_at x) \<Longrightarrow> to_replica x = [] \<Longrightarrow> r_end (rs_r (s_r x)) = Blocked \<Longrightarrow>
    sync_step E1 E2 x (x\<lparr>s_r := (s_r x)\<lparr>rs_r := hang_up (rs_r (s_r x))\<rparr>\<rparr>)"

inductive_cases sync_stepE: "sync_step E1 E2 x y"

text \<open>Both sides have been called and nothing has happened yet.\<close>

definition sync_start :: "'w origin \<Rightarrow> 'v replica \<Rightarrow> ('w, 'v) sync" where
  "sync_start so sr = \<lparr>s_o = so, s_r = sr, o_at = NotStarted, r_at = NotStarted, o_got = 0, r_got = 0\<rparr>"

end
