(* ===== verification/Replay.thy ===== *)
theory Replay
  imports Sync
begin

text \<open>
  The processes against the functions of the code. A turn that does not wait would have gone the same
  way had more input been there already (\<open>tame\<close>), and every turn of a loop consumes input. So the loop
  never runs out of its fuel, and what a process does turn by turn, while its input arrives in pieces, is
  what \<open>originSide\<close> or \<open>replicaSide\<close> does in one call on the same chunks.
\<close>

section \<open>Reading with more input to come\<close>

definition feed_in :: "bytes list \<Rightarrow> goerr \<Rightarrow> instream \<Rightarrow> instream" where
  "feed_in cs e i = i\<lparr>in_chunks := in_chunks i @ cs, in_end := e\<rparr>"

definition feed_b :: "bytes list \<Rightarrow> goerr \<Rightarrow> bufReader \<Rightarrow> bufReader" where
  "feed_b cs e b = b\<lparr>br_src := feed_in cs e (br_src b)\<rparr>"

definition feed_r :: "bytes list \<Rightarrow> goerr \<Rightarrow> Reader \<Rightarrow> Reader" where
  "feed_r cs e r = r\<lparr>rd := feed_b cs e (rd r)\<rparr>"

lemma rw_Read_feed:
  "in_end i = Blocked \<Longrightarrow> rw_Read i n = (i', d, x) \<Longrightarrow> x \<noteq> Some Blocked \<Longrightarrow>
     rw_Read (feed_in cs e i) n = (feed_in cs e i', d, x)"
  by (auto simp: rw_Read_def feed_in_def split: list.splits if_splits)

lemma ctxStream_Read_feed:
  assumes "in_end i = Blocked" and "ctxStream_Read i n = (i', d, x)" and "x \<noteq> Some Blocked"
  shows "ctxStream_Read (feed_in cs e i) n = (feed_in cs e i', d, x)"
proof -
  have f: "(feed_in cs e i)\<lparr>in_ctx := c\<rparr> = feed_in cs e (i\<lparr>in_ctx := c\<rparr>)" "in_ctx (feed_in cs e i) = in_ctx i" for c
    by (simp_all add: feed_in_def)
  show ?thesis
    using assms by (auto simp: ctxStream_Read_def f intro!: rw_Read_feed split: prod.splits option.splits)
qed

lemma bufReader_Read_feed:
  assumes "in_end (br_src b) = Blocked" and "bufReader_Read b n = (b', d, x)" and "x \<noteq> Some Blocked"
  shows "bufReader_Read (feed_b cs e b) n = (feed_b cs e b', d, x)"
proof -
  have f: "br_buf (feed_b cs e b) = br_buf b" "br_src (feed_b cs e b) = feed_in cs e (br_src b)"
    by (simp_all add: feed_b_def)
  consider "br_buf b \<noteq> []" | "br_buf b = []" "bufSize \<le> n" | "br_buf b = []" "\<not> bufSize \<le> n" by blast
  then show ?thesis
  proof cases
    case 1
    with assms show ?thesis by (auto simp: bufReader_Read_def f) (auto simp: feed_b_def)
  next
    case 2
    obtain i1 d1 x1 where r: "ctxStream_Read (br_src b) n = (i1, d1, x1)" by (metis prod_cases3)
    with 2 assms ctxStream_Read_feed [OF assms(1) r, of cs e] show ?thesis
      by (auto simp: bufReader_Read_def f) (auto simp: feed_b_def)
  next
    case 3
    obtain i1 d1 x1 where r: "ctxStream_Read (br_src b) bufSize = (i1, d1, x1)" by (metis prod_cases3)
    have x1: "x1 \<noteq> Some Blocked" using 3 assms(2,3) r by (auto simp: bufReader_Read_def)
    from ctxStream_Read_feed [OF assms(1) r x1, of cs e] 3 assms(2) r show ?thesis
      by (cases x1) (auto simp: bufReader_Read_def f feed_b_def)
  qed
qed

lemma bufReader_Read_end:
  assumes "bufReader_Read b n = (b', d, x)"
  shows "in_end (br_src b') = in_end (br_src b) \<and> length (avail b') + length d \<le> length (avail b)"
proof (cases x)
  case (Some e)
  with bufReader_Read_Some [of b n b' d e] assms show ?thesis by simp
next
  case None
  show ?thesis
  proof (cases n)
    case 0
    with assms None show ?thesis
      by (auto simp: bufReader_Read_def avail_def bufSize_def ctxStream_Read_def rw_Read_def ctx_Err_def
          split: if_splits prod.splits option.splits list.splits nat.splits)
  next
    case (Suc k)
    with bufReader_Read_None [of b n b' d] assms None show ?thesis by (simp add: br_step_def)
  qed
qed

lemma ReadFull_loop_feed:
  assumes "ReadFull_loop b n acc = (b', d, x)" and "in_end (br_src b) = Blocked" and "x \<noteq> Some Blocked"
  shows "ReadFull_loop (feed_b cs e b) n acc = (feed_b cs e b', d, x)"
  using assms
proof (induction b n acc rule: ReadFull_loop.induct)
  case (1 b n acc)
  show ?case
  proof (cases "n \<le> length acc")
    case True
    with 1 show ?thesis by (simp add: ReadFull_loop.simps)
  next
    case False
    obtain b1 d1 x1 where r: "bufReader_Read b (n - length acc) = (b1, d1, x1)" by (metis prod_cases3)
    show ?thesis
    proof (cases x1)
      case (Some err)
      have "err \<noteq> Blocked" using "1.prems" False r Some by (auto simp: ReadFull_loop.simps [of b])
      with bufReader_Read_feed [OF "1.prems"(2) r, of cs e] "1.prems"(1) False r Some show ?thesis
        by (auto simp: ReadFull_loop.simps [of "feed_b cs e b"] ReadFull_loop.simps [of b])
    next
      case None
      have "in_end (br_src b1) = Blocked" using bufReader_Read_end [OF r] "1.prems"(2) by simp
      with "1.IH" [OF False r [symmetric] refl None] "1.prems" False r None
        bufReader_Read_feed [OF "1.prems"(2) r, of cs e] show ?thesis
        by (auto simp: ReadFull_loop.simps [of "feed_b cs e b"] ReadFull_loop.simps [of b])
    qed
  qed
qed

lemma ReadFull_loop_end:
  assumes "ReadFull_loop b n acc = (b', d, x)"
  shows "in_end (br_src b') = in_end (br_src b) \<and> length (avail b') \<le> length (avail b)"
  using assms
proof (induction b n acc rule: ReadFull_loop.induct)
  case (1 b n acc)
  show ?case
  proof (cases "n \<le> length acc")
    case True
    with 1 show ?thesis by (simp add: ReadFull_loop.simps)
  next
    case False
    obtain b1 d1 x1 where r: "bufReader_Read b (n - length acc) = (b1, d1, x1)" by (metis prod_cases3)
    show ?thesis
    proof (cases x1)
      case (Some err)
      with bufReader_Read_end [OF r] "1.prems" False r show ?thesis
        by (auto simp: ReadFull_loop.simps [of b])
    next
      case None
      with "1.IH" [OF False r [symmetric] refl None] "1.prems" False r bufReader_Read_end [OF r] show ?thesis
        by (auto simp: ReadFull_loop.simps [of b])
    qed
  qed
qed

text \<open>What the methods of Reader have in common.\<close>

definition reads :: "(Reader \<Rightarrow> Reader \<times> (goerr + 'a)) \<Rightarrow> bool" where
  "reads f \<longleftrightarrow> (\<forall>r r' v. f r = (r', v) \<longrightarrow>
     r_end r' = r_end r \<and> length (r_avail r') \<le> length (r_avail r) \<and>
     (r_end r = Blocked \<and> v \<noteq> Inl Blocked \<longrightarrow> (\<forall>cs e. f (feed_r cs e r) = (feed_r cs e r', v))))"

lemma readsD:
  "reads f \<Longrightarrow> f r = (r', v) \<Longrightarrow> r_end r' = r_end r \<and> length (r_avail r') \<le> length (r_avail r) \<and>
     (r_end r = Blocked \<and> v \<noteq> Inl Blocked \<longrightarrow> f (feed_r cs e r) = (feed_r cs e r', v))"
  by (auto simp: reads_def)

lemma io_ReadFull_reads:
  assumes "io_ReadFull (rd r) n = (b, d, x)"
  shows "in_end (br_src b) = r_end r \<and> length (avail b) \<le> length (r_avail r) \<and>
    (r_end r = Blocked \<and> x \<noteq> Some Blocked \<longrightarrow> io_ReadFull (rd (feed_r cs e r)) n = (feed_b cs e b, d, x))"
  using ReadFull_loop_feed [of "rd r" n "[]" b d x cs e] ReadFull_loop_end [of "rd r" n "[]" b d x] assms
  by (auto simp: io_ReadFull_def r_end_def r_avail_def feed_r_def)

lemma feed_r_update: "feed_r cs e (r\<lparr>rd := b, bytesRead := n\<rparr>) = r\<lparr>rd := feed_b cs e b, bytesRead := n\<rparr>"
  "feed_r cs e (r\<lparr>rd := b\<rparr>) = r\<lparr>rd := feed_b cs e b\<rparr>" "bytesRead (feed_r cs e r) = bytesRead r"
  "(feed_r cs e r)\<lparr>rd := b\<rparr> = r\<lparr>rd := b\<rparr>"
  by (simp_all add: feed_r_def)

lemma reads_ReadFull:
  assumes f: "\<And>r. f r = (case io_ReadFull (rd r) n of
      (b, d, Some e) \<Rightarrow> (r\<lparr>rd := b\<rparr>, Inl e)
    | (b, d, None) \<Rightarrow> (r\<lparr>rd := b, bytesRead := bytesRead r + k\<rparr>, Inr (g d)))"
  shows "reads f"
  unfolding reads_def
proof (intro allI impI)
  fix r r' v assume fr: "f r = (r', v)"
  obtain b d x where io: "io_ReadFull (rd r) n = (b, d, x)" by (metis prod_cases3)
  note i = io_ReadFull_reads [OF io]
  have "f (feed_r cs e r) = (feed_r cs e r', v)" if "r_end r = Blocked" "v \<noteq> Inl Blocked" for cs e
  proof -
    have "x \<noteq> Some Blocked" using that(2) fr io by (auto simp: f)
    with i that(1) have "io_ReadFull (rd (feed_r cs e r)) n = (feed_b cs e b, d, x)" by blast
    with fr io show ?thesis by (cases x) (auto simp: f feed_r_update)
  qed
  with fr io i show "r_end r' = r_end r \<and> length (r_avail r') \<le> length (r_avail r) \<and>
     (r_end r = Blocked \<and> v \<noteq> Inl Blocked \<longrightarrow> (\<forall>cs e. f (feed_r cs e r) = (feed_r cs e r', v)))"
    by (cases x) (auto simp: f r_end_def r_avail_def)
qed

lemma reads_ReadByte: "reads ReadByte"
  by (rule reads_ReadFull) (rule ReadByte_def)

lemma ReadByte_eats: "ReadByte r = (r', Inr b) \<Longrightarrow> length (r_avail r') < length (r_avail r)"
  using io_ReadFull_ok [of "rd r" 1]
  by (auto simp: ReadByte_def r_avail_def split: prod.splits option.splits)

lemma reads_ReadUint32: "reads ReadUint32"
  by (rule reads_ReadFull) (rule ReadUint32_def)

text \<open>A method that goes on after another one has read.\<close>

lemma reads_bind:
  assumes m: "reads m" and k: "\<And>x. reads (k x)"
    and f: "\<And>r. f r = (case m r of (r', Inl e) \<Rightarrow> (r', Inl e) | (r', Inr x) \<Rightarrow> k x r')"
  shows "reads f"
  unfolding reads_def
proof (intro allI impI)
  fix r r' v assume fr: "f r = (r', v)"
  obtain r1 x where r1: "m r = (r1, x)" by fastforce
  note u = readsD [OF m r1]
  show "r_end r' = r_end r \<and> length (r_avail r') \<le> length (r_avail r) \<and>
     (r_end r = Blocked \<and> v \<noteq> Inl Blocked \<longrightarrow> (\<forall>cs e. f (feed_r cs e r) = (feed_r cs e r', v)))"
  proof (cases x)
    case (Inl e)
    with fr r1 u show ?thesis by (cases "e = Blocked") (auto simp: f)
  next
    case (Inr y)
    with fr r1 have "k y r1 = (r', v)" by (simp add: f)
    note w = readsD [OF k this]
    have "length (r_avail r') \<le> length (r_avail r)" using u w by (meson order_trans)
    with u w Inr show ?thesis by (auto simp: f)
  qed
qed

lemma reads_return: "reads (\<lambda>r. (r, v))"
  by (simp add: reads_def)

lemma reads_if: "reads f \<Longrightarrow> reads g \<Longrightarrow> reads (\<lambda>r. if b then f r else g r)"
  by (cases b) simp_all

lemma reads_ReadPow2: "reads ReadPow2"
  by (rule reads_bind [OF reads_ReadByte, where k = "\<lambda>b r. (if b > 16 then
        (r, Inl (ErrText (''wire: invalid page size exponent '' @ show_nat (unat b) @ '' (>16)'')))
      else (r, Inr (push_bit (unat b) 1)))"])
    (intro reads_if reads_return, simp add: ReadPow2_def cong: sum.case_cong)

lemma reads_ReadBytes: "reads (\<lambda>r. ReadBytes r n)"
proof (cases "n < 0")
  case True
  then show ?thesis by (simp add: ReadBytes_def reads_return)
next
  case False
  then show ?thesis by (intro reads_ReadFull [where n = "nat n" and g = "\<lambda>d. d"]) (simp add: ReadBytes_def)
qed

lemma reads_ReadMessage: "reads ReadMessage"
  by (rule reads_bind [OF reads_ReadUint32, where k = "\<lambda>n r. (if n > maxMessageLen then
        (r, Inl (ErrText (''wire: message length '' @ show_nat (unat n) @ '' exceeds '' @ show_nat (unat maxMessageLen))))
      else ReadBytes r (uint n))"])
    (intro reads_if reads_return reads_ReadBytes, simp add: ReadMessage_def)

section \<open>Writing only adds\<close>

definition w_grows :: "Writer \<Rightarrow> Writer \<Rightarrow> bool" where
  "w_grows w w' \<longleftrightarrow> (w_ok w \<longrightarrow> w_ok w' \<and> prefix (w_sent w) (w_sent w'))"

lemma w_grows_refl [simp]: "w_grows w w"
  by (simp add: w_grows_def)

lemma w_grows_trans: "w_grows a b \<Longrightarrow> w_grows b c \<Longrightarrow> w_grows a c"
  by (auto simp: w_grows_def intro: prefix_order.trans)

definition writes :: "(Writer \<Rightarrow> Writer \<times> 'a) \<Rightarrow> bool" where
  "writes f \<longleftrightarrow> (\<forall>w. w_grows w (fst (f w)))"

lemma writesI: "(\<And>w w' e. f w = (w', e) \<Longrightarrow> w_ok w \<Longrightarrow> \<exists>q. gave w q w') \<Longrightarrow> writes f"
  unfolding writes_def w_grows_def by (metis gave_def prod.collapse)

lemma writes_methods: "writes (\<lambda>w. WriteByte w b)" "writes (\<lambda>w. WriteUint32 w x)" "writes (\<lambda>w. WriteBytes w p)"
  "writes Flush" "writes (\<lambda>w. WriteMessage w m p)" "writes (\<lambda>w. WriteError w m t)" "writes (\<lambda>w. WritePow2 w v)"
proof -
  show b: "writes (\<lambda>w. WriteByte w b)" for b by (rule writesI) (use WriteByte_gave in blast)
  show "writes (\<lambda>w. WriteUint32 w x)" by (rule writesI) (use WriteUint32_gave in blast)
  show "writes (\<lambda>w. WriteBytes w p)" by (rule writesI) (use WriteBytes_gave in blast)
  show "writes Flush" by (rule writesI) (use Flush_gave in blast)
  show m: "writes (\<lambda>w. WriteMessage w m p)" for p by (rule writesI) (use WriteMessage_gave in blast)
  have "fst (WriteError w m t) = fst (WriteMessage w m (bytes_of t))" for w
    by (simp add: WriteError_def split: prod.splits)
  then show "writes (\<lambda>w. WriteError w m t)" using m [of "bytes_of t"] by (simp add: writes_def)
  show "writes (\<lambda>w. WritePow2 w v)" using b by (auto simp: WritePow2_def writes_def split: if_splits)
qed

section \<open>Computations that do not read\<close>

definition quiet :: "(('w, 'x) rsync_scheme, 'a) gom \<Rightarrow> bool" where
  "quiet m \<longleftrightarrow> (\<forall>s r s'. m s = (r, s') \<longrightarrow> rs_r s' = rs_r s \<and> w_grows (rs_w s) (rs_w s') \<and> r \<noteq> Panic outOfFuel \<and>
     (\<forall>r1. m (s\<lparr>rs_r := r1\<rparr>) = (r, s'\<lparr>rs_r := r1\<rparr>)))"

named_theorems quiet_intros

lemma quietI:
  assumes "\<And>s r s'. m s = (r, s') \<Longrightarrow> rs_r s' = rs_r s \<and> w_grows (rs_w s) (rs_w s') \<and> r \<noteq> Panic outOfFuel"
    and "\<And>s r s' r1. m s = (r, s') \<Longrightarrow> m (s\<lparr>rs_r := r1\<rparr>) = (r, s'\<lparr>rs_r := r1\<rparr>)"
  shows "quiet m"
  using assms unfolding quiet_def by blast

lemma quietD: "quiet m \<Longrightarrow> m s = (r, s') \<Longrightarrow> rs_r s' = rs_r s \<and> w_grows (rs_w s) (rs_w s') \<and> r \<noteq> Panic outOfFuel \<and>
    m (s\<lparr>rs_r := r1\<rparr>) = (r, s'\<lparr>rs_r := r1\<rparr>)"
  by (simp add: quiet_def)

lemma quiet_ret [quiet_intros]: "quiet (ret x)"
  by (simp add: quiet_def ret_def)

lemma quiet_stop [quiet_intros]: "quiet (stop e)"
  by (simp add: quiet_def stop_def)

lemma quiet_panic: "p \<noteq> outOfFuel \<Longrightarrow> quiet (panic p)"
  by (simp add: quiet_def panic_def)

lemma quiet_gets [quiet_intros]: "(\<And>s r. f (s\<lparr>rs_r := r\<rparr>) = f s) \<Longrightarrow> quiet (gets f)"
  by (simp add: quiet_def gets_def)

lemma quiet_modify [quiet_intros]:
  "(\<And>s. rs_r (f s) = rs_r s) \<Longrightarrow> (\<And>s. rs_w (f s) = rs_w s) \<Longrightarrow>
     (\<And>s r. f (s\<lparr>rs_r := r\<rparr>) = (f s)\<lparr>rs_r := r\<rparr>) \<Longrightarrow> quiet (modify f)"
  by (simp add: quiet_def modify_def)

lemma quiet_seq [quiet_intros]:
  assumes m: "quiet m" and k: "\<And>x. quiet (k x)"
  shows "quiet (seq m k)"
proof (rule quietI)
  fix s r s' assume s: "seq m k s = (r, s')"
  obtain x t where t: "m s = (x, t)" by fastforce
  note q = quietD [OF m t]
  show "rs_r s' = rs_r s \<and> w_grows (rs_w s) (rs_w s') \<and> r \<noteq> Panic outOfFuel"
    using s t q quietD [OF k] w_grows_trans [of "rs_w s" "rs_w t" "rs_w s'"] by (cases x) (fastforce simp: seq_def)+
  show "seq m k (s\<lparr>rs_r := r1\<rparr>) = (r, s'\<lparr>rs_r := r1\<rparr>)" for r1
    using s t q quietD [OF k] by (cases x) (auto simp: seq_def)
qed

lemma quiet_call [quiet_intros]:
  assumes m: "quiet m"
  shows "quiet (call m)"
proof (rule quietI)
  fix s r s' assume s: "call m s = (r, s')"
  obtain x t where t: "m s = (x, t)" by fastforce
  note q = quietD [OF m t]
  show "rs_r s' = rs_r s \<and> w_grows (rs_w s) (rs_w s') \<and> r \<noteq> Panic outOfFuel"
    using s t q by (cases x) (auto simp: call_def)
  show "call m (s\<lparr>rs_r := r1\<rparr>) = (r, s'\<lparr>rs_r := r1\<rparr>)" for r1
    using s t q by (cases x) (auto simp: call_def)
qed

lemma quiet_deferred [quiet_intros]:
  assumes d: "quiet d" and m: "quiet m"
  shows "quiet (deferred d m)"
proof (rule quietI)
  fix s r s' assume s: "deferred d m s = (r, s')"
  obtain x t where t: "m s = (x, t)" by fastforce
  obtain y u where u: "d t = (y, u)" by fastforce
  note q = quietD [OF m t] quietD [OF d u]
  show "rs_r s' = rs_r s \<and> w_grows (rs_w s) (rs_w s') \<and> r \<noteq> Panic outOfFuel"
    using s t u q by (cases x; cases y) (auto simp: deferred_def intro: w_grows_trans)
  show "deferred d m (s\<lparr>rs_r := r1\<rparr>) = (r, s'\<lparr>rs_r := r1\<rparr>)" for r1
    using s t u q by (cases x; cases y) (auto simp: deferred_def)
qed

lemma quiet_cond [quiet_intros]: "quiet m \<Longrightarrow> quiet (cond b m)"
  by (simp add: cond_def quiet_ret)

lemma quiet_if [quiet_intros]: "quiet a \<Longrightarrow> quiet b \<Longrightarrow> quiet (if c then a else b)"
  by simp

lemma quiet_option [quiet_intros]:
  "quiet a \<Longrightarrow> (\<And>x. quiet (b x)) \<Longrightarrow> quiet (case v of None \<Rightarrow> a | Some x \<Rightarrow> b x)"
  by (cases v) simp_all

lemma quiet_sum [quiet_intros]:
  "(\<And>x. quiet (a x)) \<Longrightarrow> (\<And>x. quiet (b x)) \<Longrightarrow> quiet (case v of Inl x \<Rightarrow> a x | Inr x \<Rightarrow> b x)"
  by (cases v) simp_all

lemma quiet_prod [quiet_intros]: "(\<And>x y. quiet (a x y)) \<Longrightarrow> quiet (case v of (x, y) \<Rightarrow> a x y)"
  by (cases v) simp

lemma quiet_list [quiet_intros]:
  "quiet a \<Longrightarrow> (\<And>x y. quiet (b x y)) \<Longrightarrow> quiet (case v of [] \<Rightarrow> a | x # y \<Rightarrow> b x y)"
  by (cases v) simp_all

lemma quiet_foreach [quiet_intros]: "(\<And>x. quiet (f x)) \<Longrightarrow> quiet (foreach f xs)"
  by (induction xs) (simp_all add: quiet_ret quiet_seq)

lemma quiet_chk [quiet_intros]: "quiet (chk e)"
  unfolding chk_def by (intro quiet_intros)

lemma quiet_try_val [quiet_intros]: "quiet m \<Longrightarrow> quiet (try_val m)"
  unfolding try_val_def by (intro quiet_intros)

lemma quiet_try_err [quiet_intros]: "quiet m \<Longrightarrow> quiet (try_err m)"
  unfolding try_err_def by (intro quiet_intros)

lemma quiet_w_op: "writes f \<Longrightarrow> quiet (w_op f)"
  unfolding quiet_def writes_def w_op_def by (auto split: prod.splits) (metis fst_conv)

lemmas quiet_w_ops [quiet_intros] = writes_methods [THEN quiet_w_op]

lemma quiet_push_defer [quiet_intros]: "quiet (push_defer d)"
  unfolding push_defer_def by (intro quiet_intros) simp_all

subsection \<open>The wire and the connection\<close>

lemma quiet_writes [quiet_intros]: "quiet (wr_byte b)" "quiet (wr_u32 x)" "quiet (wr_pow2 v)" "quiet (wr_bytes p)"
  "quiet (wr_message m p)" "quiet wr_flush" "quiet (write_error m t)"
  unfolding wr_byte_def wr_u32_def wr_pow2_def wr_bytes_def wr_message_def wr_flush_def write_error_def
  by (intro quiet_intros)+

lemma quiet_fail [quiet_intros]: "quiet (fail m t)"
  unfolding fail_def by (intro quiet_intros)

lemma panics_not_fuel [simp]: "nilPointer \<noteq> outOfFuel" "poolDeadlock \<noteq> outOfFuel" "''integer divide by zero'' \<noteq> outOfFuel"
  "''index out of range'' \<noteq> outOfFuel"
  by (simp_all add: nilPointer_def poolDeadlock_def outOfFuel_def)

lemma quiet_panics [quiet_intros]: "quiet (panic nilPointer)" "quiet (panic ''integer divide by zero'')"
  "quiet (panic ''index out of range'')"
  by (rule quiet_panic; simp)+

lemma quiet_on_db [quiet_intros]: "quiet (on_db f)"
  by (auto simp: quiet_def on_db_def split: prod.splits)

lemma quiet_db_Exec [quiet_intros]: "quiet (db_Exec E sql args)"
  unfolding db_Exec_def by (intro quiet_intros)

lemma quiet_db_Query [quiet_intros]: "quiet (db_Query E sql args)"
  unfolding db_Query_def
  by (intro quiet_intros) (auto simp: quiet_def split: prod.splits)

lemma quiet_rows_Close [quiet_intros]: "quiet (rows_Close E i)"
  by (auto simp: quiet_def rows_Close_def split: prod.splits)

lemma quiet_rows_loop [quiet_intros]: "(\<And>row. quiet (body row)) \<Longrightarrow> quiet (rows_loop r body)"
  unfolding rows_loop_def by (intro quiet_intros) simp_all

lemma quiet_db_QueryRow [quiet_intros]: "quiet (db_QueryRow E sql args scan)"
  unfolding db_QueryRow_def by (intro quiet_intros) simp_all

lemma quiet_db_Prepare [quiet_intros]: "quiet (db_Prepare E sql)"
  unfolding db_Prepare_def by (intro quiet_intros) (auto simp: quiet_def split: prod.splits)

lemma quiet_stmt_Close [quiet_intros]: "quiet (stmt_Close E st)"
  by (cases st) (auto simp: quiet_def split: prod.splits)

lemma quiet_stmt [quiet_intros]: "(\<And>i sql. quiet (f i sql)) \<Longrightarrow> quiet (case st of Stmt i sql \<Rightarrow> f i sql)"
  by (cases st) simp

lemma quiet_stmt_calls [quiet_intros]: "quiet (stmt_Exec E v args)" "quiet (stmt_Query E v args)"
  "quiet (stmt_QueryRow E v args scan)"
  unfolding stmt_Exec_def stmt_Query_def stmt_QueryRow_def by (intro quiet_intros)+

lemma quiet_closeDb [quiet_intros]: "quiet (closeDb E)"
  by (auto simp: quiet_def closeDb_def split: prod.splits)

lemma quiet_openDb [quiet_intros]: "quiet (openDb E dsn)"
  by (auto simp: quiet_def openDb_def split: prod.splits option.splits)

lemma quiet_Register [quiet_intros]: "quiet (hash_Register E)"
  by (auto simp: quiet_def hash_Register_def split: prod.splits)

lemma quiet_sql [quiet_intros]: "quiet (prepare E sql)" "quiet (run E sql args)" "quiet (runReturnUInt E sql)"
  "quiet (runReturnText E sql)"
  unfolding prepare_def run_def runReturnUInt_def runReturnText_def
  by (intro quiet_intros; simp add: errMsgByte_def)+

lemma quiet_do_defer [quiet_intros]:
  "(\<And>s r. pins (s\<lparr>rs_r := r\<rparr>) = pins s) \<Longrightarrow> quiet (do_defer E pins d)"
  by (cases d) (simp; intro quiet_intros; simp)+

lemma quiet_run_defers [quiet_intros]:
  "(\<And>s r. pins (s\<lparr>rs_r := r\<rparr>) = pins s) \<Longrightarrow> quiet (run_defers E pins ds e)"
  by (induction ds arbitrary: e) (simp; intro quiet_intros; simp)+

subsection \<open>The handlers without input\<close>

lemma quiet_send_entries [quiet_intros]: "quiet (send_entries E rows ex)"
proof (induction rows arbitrary: ex)
  case Nil
  show ?case unfolding send_entries.simps by (rule quiet_ret)
next
  case (Cons row rows)
  have "quiet (send_entry E row ex)" unfolding send_entry_def by (intro quiet_intros) simp_all
  then show ?case unfolding send_entries.simps by (rule quiet_seq) (rule Cons)
qed

lemma quiet_rounds [quiet_intros]: "quiet (sendHashMessages E i n)" "quiet (subdivideHashRange E f k)"
  unfolding sendHashMessages_def subdivideHashRange_def Let_def by (intro quiet_intros; simp)+

lemma quiet_o_fail [quiet_intros]: "quiet (o_fail msg)"
  unfolding o_fail_def by (intro quiet_intros) (simp add: errMsgByte_def)

lemma quiet_send_begin [quiet_intros]: "quiet send_begin"
  unfolding send_begin_def by (intro quiet_intros) simp_all

lemma quiet_origin_parts [quiet_intros]: "quiet (first_hash E)" "quiet (match_multi E h)" "quiet (match_single E h)"
  "quiet (record_mismatch E)" "quiet (send_detail E row)" "quiet (send_page E row)" "quiet (fill_tail E)"
  unfolding first_hash_def match_multi_def match_single_def record_mismatch_def send_detail_def send_page_def fill_tail_def
  by (intro quiet_intros; simp)+

lemma quiet_origin_rounds [quiet_intros]: "quiet (send_details E)" "quiet (send_pages E)"
  unfolding send_details_def send_pages_def by (intro quiet_intros; simp)+

lemma quiet_on_replica_ready [quiet_intros]: "quiet (on_replica_ready E)"
  unfolding on_replica_ready_def by (intro quiet_intros; simp)

lemma quiet_next_range [quiet_intros]: "quiet (modify next_range)"
  by (intro quiet_intros) (simp_all add: next_range_def Let_def)

lemma quiet_origin_prologue: "quiet (origin_prologue E)"
  unfolding origin_prologue_def origin_commCheck_def origin_setup_def check_wal_def
  by (intro quiet_intros; (simp add: quiet_def split: prod.splits)?)

lemma quiet_attach_replica [quiet_intros]: "quiet (attach_replica E)"
  unfolding attach_replica_def by (intro quiet_intros; simp)

lemma quiet_replica_parts [quiet_intros]: "quiet (init_empty_replica E)" "quiet (check_replica_wal E n)" "quiet (first_entries E n)"
  "quiet propose_protocol" "quiet (truncate_replica E v n)"
  unfolding init_empty_replica_def check_replica_wal_def first_entries_def propose_protocol_def truncate_replica_def
  by (intro quiet_intros; simp)+

lemma quiet_open_replica [quiet_intros]: "quiet (open_replica E)"
  unfolding open_replica_def by (intro quiet_intros; simp)

lemma quiet_on_origin_ready [quiet_intros]: "quiet (on_origin_ready E)"
  unfolding on_origin_ready_def by (intro quiet_intros)

lemma quiet_replica_prologue: "quiet (replica_prologue E)"
  unfolding replica_prologue_def replica_commCheck_def replica_setup_def
  by (intro quiet_intros; simp)

section \<open>Computations that read\<close>

definition feed :: "bytes list \<Rightarrow> goerr \<Rightarrow> ('w, 'x) rsync_scheme \<Rightarrow> ('w, 'x) rsync_scheme" where
  "feed cs e s = s\<lparr>rs_r := feed_r cs e (rs_r s)\<rparr>"

definition left :: "('w, 'x) rsync_scheme \<Rightarrow> nat" where
  "left s = length (r_avail (rs_r s))"

definition tame :: "(('w, 'x) rsync_scheme, 'a) gom \<Rightarrow> bool" where
  "tame m \<longleftrightarrow> (\<forall>s r s'. m s = (r, s') \<longrightarrow>
     r_end (rs_r s') = r_end (rs_r s) \<and> left s' \<le> left s \<and> w_grows (rs_w s) (rs_w s') \<and> r \<noteq> Panic outOfFuel \<and>
     (r_end (rs_r s) = Blocked \<and> r \<noteq> Return (Some Blocked) \<longrightarrow> (\<forall>cs e. m (feed cs e s) = (r, feed cs e s'))))"

named_theorems tame_intros

lemma tameD: "tame m \<Longrightarrow> m s = (r, s') \<Longrightarrow> r_end (rs_r s') = r_end (rs_r s) \<and> left s' \<le> left s \<and>
     w_grows (rs_w s) (rs_w s') \<and> r \<noteq> Panic outOfFuel \<and>
     (r_end (rs_r s) = Blocked \<and> r \<noteq> Return (Some Blocked) \<longrightarrow> m (feed cs e s) = (r, feed cs e s'))"
  by (simp add: tame_def)

lemma tame_quiet: "quiet m \<Longrightarrow> tame m"
  unfolding tame_def feed_def left_def using quietD by fastforce

lemma tame_seq [tame_intros]:
  assumes m: "tame m" and k: "\<And>x. tame (k x)"
  shows "tame (seq m k)"
  unfolding tame_def
proof (intro allI impI)
  fix s r s' assume s: "seq m k s = (r, s')"
  obtain x t where t: "m s = (x, t)" by fastforce
  note q = tameD [OF m t]
  show "r_end (rs_r s') = r_end (rs_r s) \<and> left s' \<le> left s \<and> w_grows (rs_w s) (rs_w s') \<and> r \<noteq> Panic outOfFuel \<and>
     (r_end (rs_r s) = Blocked \<and> r \<noteq> Return (Some Blocked) \<longrightarrow> (\<forall>cs e. seq m k (feed cs e s) = (r, feed cs e s')))"
  proof (cases x)
    case (Val y)
    with s t have u: "k y t = (r, s')" by (simp add: seq_def)
    note w = tameD [OF k u]
    have "left s' \<le> left s" "w_grows (rs_w s) (rs_w s')" using q w by (meson order_trans w_grows_trans)+
    with q w Val show ?thesis by (auto simp: seq_def)
  next
    case (Return e)
    with s t have "r = Return e" "s' = t" by (simp_all add: seq_def)
    with q Return show ?thesis by (cases "e = Some Blocked") (auto simp: seq_def)
  next
    case (Panic p)
    with s t have "r = Panic p" "s' = t" by (simp_all add: seq_def)
    with q Panic show ?thesis by (auto simp: seq_def)
  qed
qed

lemma tame_read:
  assumes f: "reads f"
  shows "tame (try_val (r_op f))"
  unfolding tame_def
proof (intro allI impI)
  fix s r s' assume s: "try_val (r_op f) s = (r, s')"
  obtain r1 v where v: "f (rs_r s) = (r1, v)" by fastforce
  note q = readsD [OF f v]
  show "r_end (rs_r s') = r_end (rs_r s) \<and> left s' \<le> left s \<and> w_grows (rs_w s) (rs_w s') \<and> r \<noteq> Panic outOfFuel \<and>
     (r_end (rs_r s) = Blocked \<and> r \<noteq> Return (Some Blocked) \<longrightarrow> (\<forall>cs e. try_val (r_op f) (feed cs e s) = (r, feed cs e s')))"
  proof (cases "v = Inl Blocked")
    case True
    with s v q show ?thesis by (auto simp: try_val_def r_op_def seq_def stop_def left_def)
  next
    case False
    with s v q show ?thesis
      by (cases v) (auto simp: try_val_def r_op_def seq_def stop_def ret_def left_def feed_def)
  qed
qed

lemma tame_reads [tame_intros]: "tame rd_byte" "tame rd_u32" "tame rd_pow2" "tame (rd_bytes n)" "tame rd_message"
  unfolding rd_byte_def rd_u32_def rd_pow2_def rd_bytes_def rd_message_def
  by (intro tame_read reads_ReadByte reads_ReadUint32 reads_ReadPow2 reads_ReadBytes reads_ReadMessage)+

text \<open>The next message byte: it is consumed, or the run returns.\<close>

lemma next_message_cases:
  assumes "next_message s = (r, s')"
  shows "r_end (rs_r s') = r_end (rs_r s) \<and> left s' \<le> left s \<and> w_grows (rs_w s) (rs_w s') \<and> r \<noteq> Panic outOfFuel \<and>
     (r_end (rs_r s) = Blocked \<and> r \<noteq> Return (Some Blocked) \<longrightarrow> next_message (feed cs e s) = (r, feed cs e s')) \<and>
     (\<forall>c. r = Val c \<longrightarrow> left s' < left s)"
proof -
  obtain r1 v where v: "ReadByte (rs_r s) = (r1, v)" by fastforce
  note q = readsD [OF reads_ReadByte v, of cs e]
  show ?thesis
  proof (cases v)
    case (Inl x)
    show ?thesis
    proof (cases "x = Blocked")
      case True
      with Inl assms v q show ?thesis by (auto simp: next_message_def r_op_def seq_def stop_def left_def)
    next
      case False
      with Inl assms v q show ?thesis
        by (auto simp: next_message_def r_op_def seq_def stop_def left_def feed_def)
    qed
  next
    case (Inr c)
    with assms v q ReadByte_eats [of "rs_r s" r1 c] show ?thesis
      by (auto simp: next_message_def r_op_def seq_def ret_def left_def feed_def)
  qed
qed

lemma tame_next_message [tame_intros]: "tame next_message"
  unfolding tame_def using next_message_cases by blast

lemma tame_if [tame_intros]: "tame a \<Longrightarrow> tame b \<Longrightarrow> tame (if c then a else b)"
  by simp

lemma tame_on_replica_begin [tame_intros]: "tame on_replica_begin"
  unfolding on_replica_begin_def
  by (intro tame_intros; (rule tame_quiet, intro quiet_intros; simp)?)

lemma tame_on_replica_config [tame_intros]: "tame on_replica_config"
  unfolding on_replica_config_def
  by (intro tame_intros; (rule tame_quiet, intro quiet_intros; simp)?)

lemma tame_on_replica_hash [tame_intros]: "tame (on_replica_hash E)"
  unfolding on_replica_hash_def
  by (intro tame_intros; (rule tame_quiet, intro quiet_intros; simp)?)

lemma tame_origin_handle [tame_intros]: "tame (origin_handle E c)"
  unfolding origin_handle_def
  by (intro tame_intros; (rule tame_quiet, intro quiet_intros; simp)?)

lemma tame_origin_step: "tame (origin_step E)"
  unfolding origin_step_def by (intro tame_intros)

lemma tame_on_origin_begin [tame_intros]: "tame (on_origin_begin E)"
  unfolding on_origin_begin_def
  by (intro tame_intros; (rule tame_quiet, intro quiet_intros; simp)?)

lemma tame_on_origin_detail [tame_intros]: "tame (on_origin_detail E)"
  unfolding on_origin_detail_def
  by (intro tame_intros; (rule tame_quiet, intro quiet_intros; simp)?)

lemma tame_on_origin_txn [tame_intros]: "tame (on_origin_txn E)"
  unfolding on_origin_txn_def
  by (intro tame_intros; (rule tame_quiet, intro quiet_intros; simp)?)

lemma tame_on_origin_page [tame_intros]: "tame (on_origin_page E)"
  unfolding on_origin_page_def
  by (intro tame_intros; (rule tame_quiet, intro quiet_intros; simp)?)

lemma tame_replica_handle [tame_intros]: "tame (replica_handle E c)"
  unfolding replica_handle_def
  by (intro tame_intros; (rule tame_quiet, intro quiet_intros; simp)?)

lemma tame_replica_step: "tame (replica_step E)"
  unfolding replica_step_def by (intro tame_intros)

text \<open>An iteration that goes on has consumed input.\<close>

lemma steps_eat:
  "origin_step E s = (Val (), s') \<Longrightarrow> left s' < left s"
  "replica_step E t = (Val (), t') \<Longrightarrow> left t' < left t"
proof -
  assume s: "origin_step E s = (Val (), s')"
  then obtain c u where n: "next_message s = (Val c, u)" "origin_handle E c u = (Val (), s')"
    by (auto simp: origin_step_def seq_def split: prod.splits outcome.splits)
  have "left s' \<le> left u" using tameD [OF tame_origin_handle n(2)] by blast
  moreover have "left u < left s" using next_message_cases [OF n(1)] by blast
  ultimately show "left s' < left s" by simp
next
  assume s: "replica_step E t = (Val (), t')"
  then obtain c u where n: "next_message t = (Val c, u)" "replica_handle E c u = (Val (), t')"
    by (auto simp: replica_step_def seq_def split: prod.splits outcome.splits)
  have "left t' \<le> left u" using tameD [OF tame_replica_handle n(2)] by blast
  moreover have "left u < left t" using next_message_cases [OF n(1)] by blast
  ultimately show "left t' < left t" by simp
qed

end
