(* ===== verification/Adequacy.thy ===== *)
theory Adequacy
  imports Replay
begin

text \<open>
  What a process has done turn by turn is what the role's function does in one call on the chunks that
  were delivered: the loop's fuel is enough, and a read that would have waited is not part of a turn.
\<close>

section \<open>One role\<close>

definition role_turn ::
  "'w env \<Rightarrow> (('w, 'x) rsync_scheme \<Rightarrow> stmt option) \<Rightarrow> (('w, 'x) rsync_scheme, unit) gom \<Rightarrow>
   (('w, 'x) rsync_scheme, unit) gom \<Rightarrow> status \<Rightarrow> ('w, 'x) rsync_scheme \<Rightarrow> (status \<times> ('w, 'x) rsync_scheme) option" where
  "role_turn E pins prologue step a s =
     (case a of NotStarted \<Rightarrow> settle E pins (prologue s) | Looping \<Rightarrow> settle E pins (step s) | _ \<Rightarrow> None)"

lemma origin_turn_role: "origin_turn E = role_turn E (\<lambda>_. None) (origin_prologue E) (origin_step E)"
  by (simp add: fun_eq_iff origin_turn_def role_turn_def)

lemma replica_turn_role: "replica_turn E = role_turn E pIns (replica_prologue E) (replica_step E)"
  by (simp add: fun_eq_iff replica_turn_def role_turn_def)

definition role_body ::
  "(('w, 'x) rsync_scheme, unit) gom \<Rightarrow> (nat \<Rightarrow> (('w, 'x) rsync_scheme, unit) gom) \<Rightarrow> (('w, 'x) rsync_scheme, unit) gom" where
  "role_body prologue loop = seq prologue (\<lambda>_. seq (gets (\<lambda>s. Suc (length (r_avail (rs_r s))))) loop)"

text \<open>The input that may still come: any while the stream is open, none once it is closed.\<close>

definition more :: "('w, 'x) rsync_scheme \<Rightarrow> bytes list \<Rightarrow> goerr \<Rightarrow> bool" where
  "more s cs e \<longleftrightarrow> r_end (rs_r s) = Blocked \<or> cs = [] \<and> e = r_end (rs_r s)"

text \<open>
  \<open>played\<close>: a process that began in \<open>s0\<close> and was given the chunks \<open>D\<close> is now in \<open>s\<close>. While it is in its loop,
  the call on \<open>D\<close> and whatever may still come is the rest of the loop from \<open>s\<close> on it; when it has
  returned, so has the call.
\<close>

definition played ::
  "(('w, 'x) rsync_scheme, unit) gom \<Rightarrow> (('w, 'x) rsync_scheme, unit) gom \<Rightarrow> (nat \<Rightarrow> (('w, 'x) rsync_scheme, unit) gom) \<Rightarrow>
   ('w, 'x) rsync_scheme \<Rightarrow> bytes list \<Rightarrow> status \<Rightarrow> ('w, 'x) rsync_scheme \<Rightarrow> bool" where
  "played side prologue loop s0 D a s \<longleftrightarrow>
     (case a of
        NotStarted \<Rightarrow> s = feed D (r_end (rs_r s)) s0
      | Looping \<Rightarrow> (\<forall>cs e. more s cs e \<longrightarrow>
          role_body prologue loop (feed (D @ cs) e s0) = loop (Suc (left (feed cs e s))) (feed cs e s))
      | Finished e \<Rightarrow> (\<exists>t fin. side (feed D fin s0) = (Return e, t) \<and> stats t = stats s \<and> world t = world s \<and> rs_w t = rs_w s)
      | Crashed p \<Rightarrow> (\<exists>t fin. side (feed D fin s0) = (Panic p, t)))"

lemma feed_r_feed_r: "feed_r cs e (feed_r ds f r) = feed_r (ds @ cs) e r"
  by (simp add: feed_r_def feed_b_def feed_in_def)

lemma feed_r_simps [simp]: "r_end (feed_r cs e r) = e" "feed_r [] (r_end r) r = r"
  by (simp_all add: feed_r_def feed_b_def feed_in_def r_end_def)

lemma feed_feed [simp]: "feed cs e (feed ds f s) = feed (ds @ cs) e s"
  by (simp add: feed_def feed_r_feed_r)

lemma feed_simps [simp]: "rs_r (feed cs e s) = feed_r cs e (rs_r s)" "feed [] (r_end (rs_r s)) s = s"
  "rs_w (feed cs e s) = rs_w s"
  by (simp_all add: feed_def)

lemma arrive_feed: "s\<lparr>rs_r := arrive c (rs_r s)\<rparr> = feed [c] (r_end (rs_r s)) s"
  by (simp add: feed_def feed_r_def feed_b_def feed_in_def arrive_def r_end_def)

lemma hang_up_feed: "s\<lparr>rs_r := hang_up (rs_r s)\<rparr> = feed [] EOF s"
  by (simp add: feed_def feed_r_def feed_b_def feed_in_def hang_up_def)

lemma stats_streams [simp]: "stats (s\<lparr>rs_r := hang_up (rs_r s)\<rparr>) = stats s" "stats (s\<lparr>rs_r := arrive c (rs_r s)\<rparr>) = stats s"
  by (simp_all add: stats_def BytesRead_def)

definition half ::
  "(('w, 'x) rsync_scheme, unit) gom \<Rightarrow> (('w, 'x) rsync_scheme, unit) gom \<Rightarrow> (nat \<Rightarrow> (('w, 'x) rsync_scheme, unit) gom) \<Rightarrow>
   ('w, 'x) rsync_scheme \<Rightarrow> status \<Rightarrow> ('w, 'x) rsync_scheme \<Rightarrow> nat \<Rightarrow> status \<Rightarrow> bytes \<Rightarrow> bool" where
  "half side prologue loop s0 a s got pa sent \<longleftrightarrow> got \<le> length sent \<and>
     (r_end (rs_r s) = Blocked \<or> returned pa \<and> got = length sent) \<and>
     (\<exists>D. played side prologue loop s0 D a s \<and> prefix (concat D) sent \<and>
        (a = NotStarted \<or> a = Looping \<longrightarrow> length (concat D) = got))"

lemma peer_half:
  "half side prologue loop s0 a s got pa sent \<Longrightarrow> \<not> returned pa \<Longrightarrow> prefix sent sent' \<Longrightarrow>
     half side prologue loop s0 a s got pa' sent'"
  by (auto simp: half_def dest: prefix_length_le intro: prefix_order.trans)

locale role_process =
  fixes E :: "'w env" and pins :: "('w, 'x) rsync_scheme \<Rightarrow> stmt option"
    and prologue step side :: "(('w, 'x) rsync_scheme, unit) gom" and loop :: "nat \<Rightarrow> (('w, 'x) rsync_scheme, unit) gom"
  assumes pins_reader: "pins (s\<lparr>rs_r := r\<rparr>) = pins s"
    and prologue_quiet: "quiet prologue"
    and step_tame: "tame step"
    and step_eats: "step s = (Val (), s') \<Longrightarrow> left s' < left s"
    and loop_0: "loop 0 = panic outOfFuel"
    and loop_Suc: "loop (Suc n) = seq step (\<lambda>_. loop n)"
    and side_body: "side = with_defers E pins (role_body prologue loop)"
begin

lemma loop_fuel: "left s < n \<Longrightarrow> left s < m \<Longrightarrow> loop n s = loop m s"
proof (induction n arbitrary: m s)
  case (Suc n)
  then obtain k where m: "m = Suc k" by (cases m) auto
  obtain r s' where st: "step s = (r, s')" by fastforce
  show ?case
  proof (cases r)
    case (Val u)
    with st have "left s' < left s" using step_eats by simp
    with Suc.prems m Suc.IH [of s' k] st Val show ?thesis by (simp add: loop_Suc seq_def)
  qed (simp_all add: m loop_Suc seq_def st)
qed simp

text \<open>The loop ends by a return or a panic of its body, never for want of fuel.\<close>

lemma loop_returns:
  "left s < n \<Longrightarrow> \<exists>s'. (\<exists>e. loop n s = (Return e, s')) \<or> (\<exists>p. p \<noteq> outOfFuel \<and> loop n s = (Panic p, s'))"
proof (induction n arbitrary: s)
  case (Suc n)
  obtain r s' where st: "step s = (r, s')" by fastforce
  show ?case
  proof (cases r)
    case (Val u)
    with st have "left s' < left s" using step_eats by simp
    with Suc.prems Suc.IH [of s'] st Val show ?thesis by (simp add: loop_Suc seq_def)
  next
    case (Return e)
    with st show ?thesis by (simp add: loop_Suc seq_def)
  next
    case (Panic p)
    with tameD [OF step_tame st] have "p \<noteq> outOfFuel" by auto
    with Panic st show ?thesis by (simp add: loop_Suc seq_def)
  qed
qed simp

lemma side_fuel: "fst (side s) \<noteq> Panic outOfFuel"
proof -
  obtain r t where p: "prologue s = (r, t)" by fastforce
  have ok: "fst (role_body prologue loop s) \<noteq> Panic outOfFuel"
  proof (cases r)
    case (Val u)
    with p loop_returns [of t "Suc (left t)"] show ?thesis
      by (auto simp: role_body_def seq_def gets_def left_def)
  next
    case (Panic q)
    with p quietD [OF prologue_quiet p] show ?thesis by (simp add: role_body_def seq_def)
  qed (simp add: role_body_def seq_def p)
  obtain b u where b: "role_body prologue loop s = (b, u)" by fastforce
  have "quiet (run_defers E pins ds e)" for ds e by (rule quiet_run_defers) (rule pins_reader)
  from quietD [OF this] have d: "fst (run_defers E pins ds e v) \<noteq> Panic outOfFuel" for ds e v
    by (metis prod.collapse)
  show ?thesis using b ok d by (cases b) (auto simp: side_body with_defers_def seq_def call_def gets_def)
qed

text \<open>A turn is part of the call.\<close>

lemma settle_side:
  assumes "role_body prologue loop s0 = (r, s)" and "settle E pins (r, s) = Some (a, s')" and "r \<noteq> Val ()"
  shows "case a of Finished e \<Rightarrow> side s0 = (Return e, s') | Crashed p \<Rightarrow> (\<exists>t. side s0 = (Panic p, t)) | _ \<Rightarrow> False"
proof (cases r)
  case (Return e)
  have nv: "fst (run_defers E pins ds e v) \<noteq> Val ()" for ds e v
  proof (induction ds arbitrary: e v)
    case (Cons d ds)
    show ?case using Cons by (auto simp: seq_def split: prod.splits outcome.splits)
  qed (simp add: stop_def)
  obtain b t where "run_defers E pins (defers s) e s = (b, t)" by fastforce
  with assms Return nv [of "defers s" e s] show ?thesis
    by (cases b) (auto simp: settle_def side_body with_defers_def seq_def call_def gets_def split: if_splits)
next
  case (Panic p)
  with assms show ?thesis by (auto simp: settle_def side_body with_defers_def seq_def call_def)
qed (use assms in simp)

lemma turn_played:
  assumes pl: "played side prologue loop s0 D a s" and t: "role_turn E pins prologue step a s = Some (a', s')"
  shows "played side prologue loop s0 D a' s'"
proof (cases a)
  case NotStarted
  with pl have s: "s = feed D (r_end (rs_r s)) s0" by (simp add: played_def)
  obtain r u where p: "prologue s = (r, u)" by fastforce
  with t NotStarted have st: "settle E pins (r, u) = Some (a', s')" by (simp add: role_turn_def)
  have pf: "prologue (feed cs e s) = (r, feed cs e u)" for cs e
    using quietD [OF prologue_quiet p] by (simp add: feed_def)
  show ?thesis
  proof (cases "r = Val ()")
    case True
    with st have "a' = Looping" "s' = u" by (simp_all add: settle_def)
    moreover have "role_body prologue loop (feed (D @ cs) e s0) = loop (Suc (left (feed cs e u))) (feed cs e u)" for cs e
    proof -
      have "feed (D @ cs) e s0 = feed cs e s" by (metis s feed_feed)
      then show ?thesis using pf [of cs e] True by (simp add: role_body_def seq_def gets_def left_def)
    qed
    ultimately show ?thesis by (simp add: played_def)
  next
    case False
    have "role_body prologue loop s = (r, u)" using p False by (cases r) (simp_all add: role_body_def seq_def)
    from settle_side [OF this st False] s show ?thesis
      by (cases a') (auto simp: played_def intro!: exI [of _ "r_end (rs_r s)"])
  qed
next
  case Looping
  with pl have run: "role_body prologue loop (feed (D @ cs) e s0) = loop (Suc (left (feed cs e s))) (feed cs e s)"
    if "more s cs e" for cs e using that by (simp add: played_def)
  obtain r u where p: "step s = (r, u)" by fastforce
  with t Looping have st: "settle E pins (r, u) = Some (a', s')" by (simp add: role_turn_def)
  note q = tameD [OF step_tame p]
  have nb: "r \<noteq> Return (Some Blocked)" using st by (auto simp: settle_def)
  have pf: "step (feed cs e s) = (r, feed cs e u)" if "more s cs e" for cs e
  proof (cases "r_end (rs_r s) = Blocked")
    case True
    with q nb show ?thesis by blast
  next
    case False
    with that have "cs = []" "e = r_end (rs_r s)" by (simp_all add: more_def)
    moreover from this q have "e = r_end (rs_r u)" by simp
    ultimately show ?thesis using p by (metis feed_simps(2))
  qed
  show ?thesis
  proof (cases "r = Val ()")
    case True
    with st have "a' = Looping" "s' = u" by (simp_all add: settle_def)
    moreover have "role_body prologue loop (feed (D @ cs) e s0) = loop (Suc (left (feed cs e u))) (feed cs e u)"
      if "more u cs e" for cs e
    proof -
      have m: "more s cs e" using that q by (simp add: more_def)
      have "step (feed cs e s) = (Val (), feed cs e u)" using pf [OF m] True by simp
      moreover from step_eats [OF this] have "loop (left (feed cs e s)) (feed cs e u) = loop (Suc (left (feed cs e u))) (feed cs e u)"
        by (intro loop_fuel) simp_all
      ultimately show ?thesis using run [OF m] by (simp add: loop_Suc seq_def)
    qed
    ultimately show ?thesis by (simp add: played_def)
  next
    case False
    have "more s [] (r_end (rs_r s))" by (simp add: more_def)
    from run [OF this] p False have "role_body prologue loop (feed D (r_end (rs_r s)) s0) = (r, u)"
      by (cases r) (simp_all add: loop_Suc seq_def)
    from settle_side [OF this st False] show ?thesis
      by (cases a') (auto simp: played_def intro!: exI [of _ "r_end (rs_r s)"])
  qed
qed (use t in \<open>simp_all add: role_turn_def\<close>)

lemma arrive_played:
  assumes "played side prologue loop s0 D a s" and "r_end (rs_r s) = Blocked" and "a = NotStarted \<or> a = Looping"
  shows "played side prologue loop s0 (D @ [c]) a (s\<lparr>rs_r := arrive c (rs_r s)\<rparr>)"
  using assms(3)
proof
  assume a: "a = NotStarted"
  with assms(1,2) have "s = feed D Blocked s0" by (simp add: played_def)
  then have "feed [c] Blocked s = feed (D @ [c]) Blocked s0" by simp
  then have "s\<lparr>rs_r := arrive c (rs_r s)\<rparr> = feed (D @ [c]) Blocked s0" unfolding arrive_feed assms(2) .
  then show ?thesis by (simp add: a played_def)
next
  assume "a = Looping"
  with assms show ?thesis by (auto simp: played_def arrive_feed more_def)
qed

lemma hang_up_played:
  assumes "played side prologue loop s0 D a s" and "r_end (rs_r s) = Blocked"
  shows "played side prologue loop s0 D a (s\<lparr>rs_r := hang_up (rs_r s)\<rparr>)"
proof (cases a)
  case NotStarted
  with assms have "s = feed D Blocked s0" by (simp add: played_def)
  then have "feed [] EOF s = feed D EOF s0" by simp
  then have "s\<lparr>rs_r := hang_up (rs_r s)\<rparr> = feed D EOF s0" unfolding hang_up_feed .
  then show ?thesis by (simp add: NotStarted played_def)
next
  case Looping
  with assms have "role_body prologue loop (feed (D @ cs) e s0) = loop (Suc (left (feed cs e s))) (feed cs e s)" for cs e
    by (simp add: played_def more_def)
  from this [of "[]" EOF] Looping show ?thesis by (auto simp: played_def hang_up_feed more_def)
qed (use assms in \<open>auto simp: played_def\<close>)

lemma turn_grows:
  assumes "role_turn E pins prologue step a s = Some (a', s')"
  shows "r_end (rs_r s') = r_end (rs_r s) \<and> w_grows (rs_w s) (rs_w s')"
proof -
  have d: "quiet (run_defers E pins ds e)" for ds e by (rule quiet_run_defers) (rule pins_reader)
  have st: "r_end (rs_r s') = r_end (rs_r u) \<and> w_grows (rs_w u) (rs_w s')"
    if "settle E pins (r, u) = Some (a', s')" for r u
  proof (cases r)
    case (Return e)
    obtain b v where b: "run_defers E pins (defers u) e u = (b, v)" by fastforce
    from quietD [OF d b] b that Return show ?thesis
      by (cases b) (auto simp: settle_def split: if_splits)
  qed (use that in \<open>auto simp: settle_def\<close>)
  show ?thesis
  proof (cases a)
    case NotStarted
    obtain r u where p: "prologue s = (r, u)" by fastforce
    with NotStarted assms st [of r u] quietD [OF prologue_quiet p] show ?thesis
      by (auto simp: role_turn_def intro: w_grows_trans)
  next
    case Looping
    obtain r u where p: "step s = (r, u)" by fastforce
    with Looping assms st [of r u] tameD [OF step_tame p] show ?thesis
      by (auto simp: role_turn_def intro: w_grows_trans)
  qed (use assms in \<open>simp_all add: role_turn_def\<close>)
qed

text \<open>The process, the bytes it has been given and its peer, as they are in a run of the system.\<close>

lemma turn_half:
  assumes "half side prologue loop s0 a s got pa sent" and "role_turn E pins prologue step a s = Some (a', s')"
  shows "half side prologue loop s0 a' s' got pa sent"
proof -
  have "a = NotStarted \<or> a = Looping" using assms(2) by (cases a) (simp_all add: role_turn_def)
  with assms turn_played [of s0 _ a s a' s'] turn_grows [OF assms(2)] show ?thesis by (auto simp: half_def)
qed

lemma arrive_half:
  assumes h: "half side prologue loop s0 a s got pa sent" and n: "0 < n" "n \<le> length (drop got sent)"
  shows "half side prologue loop s0 a (s\<lparr>rs_r := arrive (take n (drop got sent)) (rs_r s)\<rparr>) (got + n) pa sent"
proof -
  from h n have b: "r_end (rs_r s) = Blocked" and g: "got + n \<le> length sent" by (auto simp: half_def)
  from h obtain D where D: "played side prologue loop s0 D a s" "prefix (concat D) sent"
    "a = NotStarted \<or> a = Looping \<Longrightarrow> length (concat D) = got" by (auto simp: half_def)
  show ?thesis
  proof (cases "a = NotStarted \<or> a = Looping")
    case True
    have "concat D = take got sent" using D(2) D(3) [OF True] by (metis append_eq_conv_conj prefix_def)
    then have "concat (D @ [take n (drop got sent)]) = take (got + n) sent" by (simp add: take_add)
    then have "prefix (concat (D @ [take n (drop got sent)])) sent" "length (concat (D @ [take n (drop got sent)])) = got + n"
      using g take_is_prefix [of "got + n" sent] by simp_all
    with arrive_played [OF D(1) b True, of "take n (drop got sent)"] b g show ?thesis unfolding half_def by auto
  next
    case False
    then have "played side prologue loop s0 D a (s\<lparr>rs_r := arrive (take n (drop got sent)) (rs_r s)\<rparr>)"
      using D(1) by (cases a) (auto simp: played_def)
    with D False b g show ?thesis unfolding half_def by auto
  qed
qed

lemma close_half:
  assumes "half side prologue loop s0 a s got pa sent" and "r_end (rs_r s) = Blocked" and "returned pa" "drop got sent = []"
  shows "half side prologue loop s0 a (s\<lparr>rs_r := hang_up (rs_r s)\<rparr>) got pa sent"
  using assms hang_up_played [of s0 _ a s] by (auto simp: half_def)

end

interpretation origin_process:
  role_process E "\<lambda>_. None" "origin_prologue E" "origin_step E" "originSide E" "origin_loop E" for E :: "'w env"
  by unfold_locales
    (simp_all add: quiet_origin_prologue tame_origin_step steps_eat originSide_def origin_body_prologue role_body_def)

interpretation replica_process:
  role_process E pIns "replica_prologue E" "replica_step E" "replicaSide E" "replica_loop E" for E :: "'w env"
  by unfold_locales
    (simp_all add: quiet_replica_prologue tame_replica_step steps_eat replicaSide_def replica_body_prologue role_body_def)

section \<open>Both roles\<close>

text \<open>Nothing has arrived yet, and the writers are as they were made.\<close>

definition ready_streams :: "('w, 'x) rsync_scheme \<Rightarrow> bool" where
  "ready_streams s \<longleftrightarrow> r_end (rs_r s) = Blocked \<and> w_ok (rs_w s)"

definition replayed ::
  "'w env \<Rightarrow> 'v env \<Rightarrow> 'w origin \<Rightarrow> 'v replica \<Rightarrow> ('w, 'v) sync \<Rightarrow> bool" where
  "replayed E1 E2 so sr x \<longleftrightarrow> w_ok (rs_w (s_o x)) \<and> w_ok (rs_w (s_r x)) \<and>
     half (originSide E1) (origin_prologue E1) (origin_loop E1) so (o_at x) (s_o x) (o_got x) (r_at x) (w_sent (rs_w (s_r x))) \<and>
     half (replicaSide E2) (replica_prologue E2) (replica_loop E2) sr (r_at x) (s_r x) (r_got x) (o_at x) (w_sent (rs_w (s_o x)))"

lemma played_start: "r_end (rs_r s) = Blocked \<Longrightarrow> played side prologue loop s [] NotStarted s"
  by (simp add: played_def) (metis feed_simps(2))

lemma half_start: "r_end (rs_r s) = Blocked \<Longrightarrow> half side prologue loop s NotStarted s 0 pa sent"
  using played_start [of s side prologue loop] unfolding half_def by (intro conjI exI [of _ "[]"]) simp_all

lemma replayed_start:
  assumes "ready_streams so" "ready_streams sr"
  shows "replayed E1 E2 so sr (sync_start so sr)"
  using assms by (simp add: replayed_def sync_start_def ready_streams_def half_start)

lemma replayed_step:
  assumes r: "replayed E1 E2 so sr x" and step: "sync_step E1 E2 x y"
  shows "replayed E1 E2 so sr y"
  using step
proof (rule sync_stepE, goal_cases)
  case (1 a s)
  have g: "w_grows (rs_w (s_o x)) (rs_w s)"
    using origin_process.turn_grows [of E1 "o_at x" "s_o x" a s] 1 by (simp add: origin_turn_role)
  have na: "\<not> returned (o_at x)" using 1 by (auto simp: origin_turn_def split: status.splits)
  have "half (originSide E1) (origin_prologue E1) (origin_loop E1) so a s (o_got x) (r_at x) (w_sent (rs_w (s_r x)))"
  proof -
    from r have "half (originSide E1) (origin_prologue E1) (origin_loop E1) so (o_at x) (s_o x) (o_got x) (r_at x) (w_sent (rs_w (s_r x)))"
      by (simp add: replayed_def)
    moreover have "role_turn E1 (\<lambda>_. None) (origin_prologue E1) (origin_step E1) (o_at x) (s_o x) = Some (a, s)"
      using 1 by (simp add: origin_turn_role)
    ultimately show ?thesis by (rule origin_process.turn_half)
  qed
  moreover have "half (replicaSide E2) (replica_prologue E2) (replica_loop E2) sr (r_at x) (s_r x) (r_got x) a (w_sent (rs_w s))"
  proof (rule peer_half [OF _ na])
    show "prefix (w_sent (rs_w (s_o x))) (w_sent (rs_w s))" using r g by (simp add: replayed_def w_grows_def)
  qed (use r in \<open>simp add: replayed_def\<close>)
  ultimately show ?case using r g 1 by (simp add: replayed_def w_grows_def)
next
  case (2 a s)
  have g: "w_grows (rs_w (s_r x)) (rs_w s)"
    using replica_process.turn_grows [of E2 "r_at x" "s_r x" a s] 2 by (simp add: replica_turn_role)
  have na: "\<not> returned (r_at x)" using 2 by (auto simp: replica_turn_def split: status.splits)
  have "half (replicaSide E2) (replica_prologue E2) (replica_loop E2) sr a s (r_got x) (o_at x) (w_sent (rs_w (s_o x)))"
  proof -
    from r have "half (replicaSide E2) (replica_prologue E2) (replica_loop E2) sr (r_at x) (s_r x) (r_got x) (o_at x) (w_sent (rs_w (s_o x)))"
      by (simp add: replayed_def)
    moreover have "role_turn E2 pIns (replica_prologue E2) (replica_step E2) (r_at x) (s_r x) = Some (a, s)"
      using 2 by (simp add: replica_turn_role)
    ultimately show ?thesis by (rule replica_process.turn_half)
  qed
  moreover have "half (originSide E1) (origin_prologue E1) (origin_loop E1) so (o_at x) (s_o x) (o_got x) a (w_sent (rs_w s))"
  proof (rule peer_half [OF _ na])
    show "prefix (w_sent (rs_w (s_r x))) (w_sent (rs_w s))" using r g by (simp add: replayed_def w_grows_def)
  qed (use r in \<open>simp add: replayed_def\<close>)
  ultimately show ?case using r g 2 by (simp add: replayed_def w_grows_def)
next
  case (3 n)
  with r origin_process.arrive_half [of E1 so "o_at x" "s_o x" "o_got x" "r_at x" "w_sent (rs_w (s_r x))" n]
  show ?case by (auto simp: replayed_def to_origin_def)
next
  case (4 n)
  with r replica_process.arrive_half [of E2 sr "r_at x" "s_r x" "r_got x" "o_at x" "w_sent (rs_w (s_o x))" n]
  show ?case by (auto simp: replayed_def to_replica_def)
next
  case 5
  with r origin_process.close_half [of E1 so "o_at x" "s_o x" "o_got x" "r_at x" "w_sent (rs_w (s_r x))"]
  show ?case by (auto simp: replayed_def to_origin_def)
next
  case 6
  with r replica_process.close_half [of E2 sr "r_at x" "s_r x" "r_got x" "o_at x" "w_sent (rs_w (s_o x))"]
  show ?case by (auto simp: replayed_def to_replica_def)
qed

lemma replayed_steps:
  assumes "ready_streams so" "ready_streams sr" and "(sync_step E1 E2)\<^sup>*\<^sup>* (sync_start so sr) x"
  shows "replayed E1 E2 so sr x"
  using assms(3) by induction (auto intro: replayed_start [OF assms(1,2)] replayed_step)

text \<open>What a process that has returned amounts to: one call of the function, on what its peer wrote.\<close>

lemma origin_call:
  assumes "ready_streams so" "ready_streams sr" and "(sync_step E1 E2)\<^sup>*\<^sup>* (sync_start so sr) x"
    and "o_at x = Finished e"
  shows "\<exists>D fin t. prefix (concat D) (w_sent (rs_w (s_r x))) \<and> originSide E1 (feed D fin so) = (Return e, t) \<and>
    stats t = stats (s_o x) \<and> world t = world (s_o x) \<and> rs_w t = rs_w (s_o x)"
  using replayed_steps [OF assms(1-3)] assms(4) by (fastforce simp: replayed_def half_def played_def)

lemma replica_call:
  assumes "ready_streams so" "ready_streams sr" and "(sync_step E1 E2)\<^sup>*\<^sup>* (sync_start so sr) x"
    and "r_at x = Finished e"
  shows "\<exists>D fin t. prefix (concat D) (w_sent (rs_w (s_o x))) \<and> replicaSide E2 (feed D fin sr) = (Return e, t) \<and>
    stats t = stats (s_r x) \<and> world t = world (s_r x) \<and> rs_w t = rs_w (s_r x)"
  using replayed_steps [OF assms(1-3)] assms(4) by (fastforce simp: replayed_def half_def played_def)

text \<open>The call of the exported functions, with the stream that delivers those chunks.\<close>

lemma feed_origin_start:
  "feed D fin (origin_start (newRsync c i out opts w b e) path) = origin_start (newRsync c (feed_in D fin i) out opts w b e) path"
  by (simp add: feed_def feed_r_def feed_b_def feed_in_def origin_start_def newRsync_def rsync.extend_def rsync.truncate_def
      Let_def NewReader_def split: option.splits prod.splits)

lemma feed_replica_start:
  "feed D fin (replica_start (newRsync c i out opts w b e) path) = replica_start (newRsync c (feed_in D fin i) out opts w b e) path"
  by (simp add: feed_def feed_r_def feed_b_def feed_in_def replica_start_def newRsync_def rsync.extend_def rsync.truncate_def
      Let_def NewReader_def split: option.splits prod.splits)

end
