(* ===== verification/Chunks.thy ===== *)
theory Chunks
  imports Adequacy
begin

text \<open>
  The pieces in which a stream delivers its bytes do not matter. Two readers are alike when the same bytes
  are still to come and the same end after them; a computation that is \<open>blind\<close> does the same from both.
  Every handler is, so a whole call returns the same error and statistics, writes the same bytes and
  leaves the same world, however the transport cuts what the peer sent.
\<close>

definition alike :: "Reader \<Rightarrow> Reader \<Rightarrow> bool" where
  "alike r r' \<longleftrightarrow> r_live r \<and> r_live r' \<and> r_avail r' = r_avail r \<and> r_end r' = r_end r \<and> bytesRead r' = bytesRead r"

lemma alike_avail: "alike r r' \<Longrightarrow> r_avail r' = r_avail r"
  by (simp add: alike_def)

definition blind_read :: "(Reader \<Rightarrow> Reader \<times> (goerr + 'a)) \<Rightarrow> bool" where
  "blind_read f \<longleftrightarrow> (\<forall>r r'. alike r r' \<longrightarrow> snd (f r') = snd (f r) \<and> alike (fst (f r)) (fst (f r')))"

lemma blind_readD: "blind_read f \<Longrightarrow> alike r r' \<Longrightarrow> f r = (r1, v) \<Longrightarrow> \<exists>r2. f r' = (r2, v) \<and> alike r1 r2"
  unfolding blind_read_def by (metis fst_conv prod.collapse snd_conv)

lemma blind_ReadFull:
  assumes f: "\<And>r. f r = (case io_ReadFull (rd r) n of
      (b, d, Some e) \<Rightarrow> (r\<lparr>rd := b\<rparr>, Inl e)
    | (b, d, None) \<Rightarrow> (r\<lparr>rd := b, bytesRead := bytesRead r + k\<rparr>, Inr (g d)))"
  shows "blind_read f"
  unfolding blind_read_def
proof (intro allI impI)
  fix r r' assume a: "alike r r'"
  obtain b d e where 1: "io_ReadFull (rd r) n = (b, d, e)" by (metis prod_cases3)
  obtain b' d' e' where 2: "io_ReadFull (rd r') n = (b', d', e')" by (metis prod_cases3)
  note l = a [unfolded alike_def r_live_def r_avail_def r_end_def]
  from io_ReadFull_live [OF _ 1] io_ReadFull_live [OF _ 2] l
  have "d' = d \<and> e' = e \<and> avail b' = avail b \<and> in_end (br_src b') = in_end (br_src b) \<and>
      passes (in_ctx (br_src b)) = None \<and> passes (in_ctx (br_src b')) = None"
    by (auto split: if_splits)
  with l show "snd (f r') = snd (f r) \<and> alike (fst (f r)) (fst (f r'))"
    by (cases e) (auto simp: f 1 2 alike_def r_live_def r_avail_def r_end_def)
qed

lemma blind_read_bind:
  assumes m: "blind_read m" and k: "\<And>x. blind_read (k x)"
    and f: "\<And>r. f r = (case m r of (r', Inl e) \<Rightarrow> (r', Inl e) | (r', Inr x) \<Rightarrow> k x r')"
  shows "blind_read f"
  unfolding blind_read_def
proof (intro allI impI)
  fix r r' assume a: "alike r r'"
  obtain r1 v where 1: "m r = (r1, v)" by fastforce
  from blind_readD [OF m a 1] obtain r2 where 2: "m r' = (r2, v)" "alike r1 r2" by blast
  with k show "snd (f r') = snd (f r) \<and> alike (fst (f r)) (fst (f r'))"
    by (cases v) (auto simp: f 1 blind_read_def)
qed

lemma blind_read_return: "blind_read (\<lambda>r. (r, v))"
  by (simp add: blind_read_def)

lemma blind_read_if: "blind_read f \<Longrightarrow> blind_read g \<Longrightarrow> blind_read (\<lambda>r. if b then f r else g r)"
  by (cases b) simp_all

lemma blind_ReadByte: "blind_read ReadByte"
  by (rule blind_ReadFull) (rule ReadByte_def)

lemma blind_ReadUint32: "blind_read ReadUint32"
  by (rule blind_ReadFull) (rule ReadUint32_def)

lemma blind_ReadBytes: "blind_read (\<lambda>r. ReadBytes r n)"
proof (cases "n < 0")
  case True
  then show ?thesis by (simp add: ReadBytes_def blind_read_return)
next
  case False
  then show ?thesis by (intro blind_ReadFull [where n = "nat n" and g = "\<lambda>d. d"]) (simp add: ReadBytes_def)
qed

lemma blind_ReadPow2: "blind_read ReadPow2"
  by (rule blind_read_bind [OF blind_ReadByte, where k = "\<lambda>b r. (if b > 16 then
        (r, Inl (ErrText (''wire: invalid page size exponent '' @ show_nat (unat b) @ '' (>16)'')))
      else (r, Inr (push_bit (unat b) 1)))"])
    (intro blind_read_if blind_read_return, simp add: ReadPow2_def cong: sum.case_cong)

lemma blind_ReadMessage: "blind_read ReadMessage"
  by (rule blind_read_bind [OF blind_ReadUint32, where k = "\<lambda>n r. (if n > maxMessageLen then
        (r, Inl (ErrText (''wire: message length '' @ show_nat (unat n) @ '' exceeds '' @ show_nat (unat maxMessageLen))))
      else ReadBytes r (uint n))"])
    (intro blind_read_if blind_read_return blind_ReadBytes, simp add: ReadMessage_def)

section \<open>Computations\<close>

definition blind :: "(('w, 'x) rsync_scheme, 'a) gom \<Rightarrow> bool" where
  "blind m \<longleftrightarrow> (\<forall>s r' x t. alike (rs_r s) r' \<and> m s = (x, t) \<longrightarrow>
     (\<exists>r''. m (s\<lparr>rs_r := r'\<rparr>) = (x, t\<lparr>rs_r := r''\<rparr>) \<and> alike (rs_r t) r''))"

named_theorems blind_intros

lemma blindD: "blind m \<Longrightarrow> alike (rs_r s) r' \<Longrightarrow> m s = (x, t) \<Longrightarrow>
    \<exists>r''. m (s\<lparr>rs_r := r'\<rparr>) = (x, t\<lparr>rs_r := r''\<rparr>) \<and> alike (rs_r t) r''"
  by (simp add: blind_def)

lemma blind_quiet: "quiet m \<Longrightarrow> blind m"
  unfolding blind_def using quietD by metis

lemma blind_seq [blind_intros]:
  assumes m: "blind m" and k: "\<And>x. blind (k x)"
  shows "blind (seq m k)"
  unfolding blind_def
proof (intro allI impI, elim conjE)
  fix s r' x t assume a: "alike (rs_r s) r'" and s: "seq m k s = (x, t)"
  obtain y u where u: "m s = (y, u)" by fastforce
  from blindD [OF m a u] obtain r1 where r1: "m (s\<lparr>rs_r := r'\<rparr>) = (y, u\<lparr>rs_r := r1\<rparr>)" "alike (rs_r u) r1" by blast
  show "\<exists>r''. seq m k (s\<lparr>rs_r := r'\<rparr>) = (x, t\<lparr>rs_r := r''\<rparr>) \<and> alike (rs_r t) r''"
  proof (cases y)
    case (Val z)
    with s u have "k z u = (x, t)" by (simp add: seq_def)
    from blindD [OF k r1(2) this] r1(1) Val show ?thesis by (simp add: seq_def)
  qed (use s u r1 in \<open>auto simp: seq_def\<close>)
qed

lemma blind_r_op: "blind_read f \<Longrightarrow> blind (try_val (r_op f))"
  unfolding blind_def
proof (intro allI impI, elim conjE)
  fix s r' x t assume f: "blind_read f" and a: "alike (rs_r s) r'" and s: "try_val (r_op f) s = (x, t)"
  obtain r1 v where r1: "f (rs_r s) = (r1, v)" by fastforce
  from blind_readD [OF f a r1] obtain r2 where "f r' = (r2, v)" "alike r1 r2" by blast
  with s r1 show "\<exists>r''. try_val (r_op f) (s\<lparr>rs_r := r'\<rparr>) = (x, t\<lparr>rs_r := r''\<rparr>) \<and> alike (rs_r t) r''"
    by (cases v) (auto simp: try_val_def r_op_def seq_def stop_def ret_def)
qed

lemma blind_reads [blind_intros]: "blind rd_byte" "blind rd_u32" "blind rd_pow2" "blind (rd_bytes n)" "blind rd_message"
  unfolding rd_byte_def rd_u32_def rd_pow2_def rd_bytes_def rd_message_def
  by (intro blind_r_op blind_ReadByte blind_ReadUint32 blind_ReadPow2 blind_ReadBytes blind_ReadMessage)+

lemma blind_next_message [blind_intros]: "blind next_message"
  unfolding blind_def
proof (intro allI impI, elim conjE)
  fix s r' x t assume a: "alike (rs_r s) r'" and s: "next_message s = (x, t)"
  obtain r1 v where r1: "ReadByte (rs_r s) = (r1, v)" by fastforce
  from blind_readD [OF blind_ReadByte a r1] obtain r2 where "ReadByte r' = (r2, v)" "alike r1 r2" by blast
  with s r1 show "\<exists>r''. next_message (s\<lparr>rs_r := r'\<rparr>) = (x, t\<lparr>rs_r := r''\<rparr>) \<and> alike (rs_r t) r''"
    by (cases v) (auto simp: next_message_def r_op_def seq_def stop_def ret_def)
qed

lemma blind_if [blind_intros]: "blind a \<Longrightarrow> blind b \<Longrightarrow> blind (if c then a else b)"
  by simp

lemma blind_origin_step: "blind (origin_step E)"
  unfolding origin_step_def origin_handle_def on_replica_begin_def on_replica_config_def on_replica_hash_def
  by (intro blind_intros; (rule blind_quiet, intro quiet_intros; simp)?)

lemma blind_replica_step: "blind (replica_step E)"
  unfolding replica_step_def replica_handle_def on_origin_begin_def on_origin_detail_def on_origin_txn_def on_origin_page_def
  by (intro blind_intros; (rule blind_quiet, intro quiet_intros; simp)?)

lemma blind_loop:
  assumes "blind step" and "loop 0 = panic outOfFuel" and "\<And>n. loop (Suc n) = seq step (\<lambda>_. loop n)"
  shows "blind (loop n)"
proof (induction n)
  case 0
  show ?case unfolding assms(2) by (auto simp: blind_def)
next
  case (Suc n)
  show ?case unfolding assms(3) by (intro blind_intros assms(1) Suc)
qed

lemma blind_side:
  assumes "quiet prologue" and "\<And>n. blind (loop n)" and "\<And>s r. pins (s\<lparr>rs_r := r\<rparr>) = pins s"
  shows "blind (with_defers E pins (role_body prologue loop))"
proof -
  have n: "blind (seq (gets (\<lambda>s. Suc (length (r_avail (rs_r s))))) loop)"
    using blindD [OF assms(2)] by (auto simp: blind_def seq_def gets_def alike_avail)
  have b: "blind (role_body prologue loop)"
    unfolding role_body_def by (intro blind_seq blind_quiet assms(1) n)
  have "blind (call (role_body prologue loop))"
    unfolding blind_def
  proof (intro allI impI, elim conjE)
    fix s r' x t assume a: "alike (rs_r s) r'" and s: "call (role_body prologue loop) s = (x, t)"
    obtain y u where u: "role_body prologue loop s = (y, u)" by fastforce
    from blindD [OF b a u] s u
    show "\<exists>r''. call (role_body prologue loop) (s\<lparr>rs_r := r'\<rparr>) = (x, t\<lparr>rs_r := r''\<rparr>) \<and> alike (rs_r t) r''"
      by (cases y) (auto simp: call_def)
  qed
  then show ?thesis
    unfolding with_defers_def
    by (intro blind_seq) (auto intro!: blind_quiet quiet_intros simp: assms(3))
qed

lemma blind_sides: "blind (originSide E)" "blind (replicaSide E)"
proof -
  have "blind (origin_loop E n)" "blind (replica_loop E n)" for n
    by (rule blind_loop [OF blind_origin_step origin_loop.simps], rule blind_loop [OF blind_replica_step replica_loop.simps])
  then show "blind (originSide E)" "blind (replicaSide E)"
    unfolding origin_process.side_body replica_process.side_body
    by (intro blind_side quiet_origin_prologue quiet_replica_prologue; simp)+
qed

text \<open>The entry points.\<close>

lemma alike_newRsync:
  assumes "concat cs = concat cs'"
  shows "alike (rs_r (newRsync None (i\<lparr>in_chunks := cs\<rparr>) out opts w once x))
    (rs_r (newRsync None (i\<lparr>in_chunks := cs'\<rparr>) out opts w once x))"
  using assms by (simp add: alike_def newRsync_def Let_def NewReader_def r_live_def r_avail_def r_end_def avail_def background_def)

lemma newRsync_reader:
  "newRsync None (i\<lparr>in_chunks := cs'\<rparr>) out opts w once x =
     (newRsync None (i\<lparr>in_chunks := cs\<rparr>) out opts w once x)\<lparr>rs_r := rs_r (newRsync None (i\<lparr>in_chunks := cs'\<rparr>) out opts w once x)\<rparr>"
  by (simp add: newRsync_def Let_def)

end
