(* ===== verification/Typing.thy ===== *)
theory Typing
  imports Adequacy
begin

text \<open>
  The run state never goes wrong: what the variables of a role may hold at each point, and that no
  statement then dereferences a nil pointer, waits for its own connection or indexes out of range,
  whatever the database replies, whatever the peer sends and however the stream fails. \<open>safe X R P m Q\<close>
  is the judgement: from a state in \<open>P\<close>, a value leaves a state in \<open>Q\<close>, a return one in \<open>R\<close>, and a panic is
  one of \<open>X\<close>. One rule per construct and per call (\<open>safe_intros\<close>) carries it through the handlers.
\<close>

section \<open>The judgement\<close>

fun goes :: "string set \<Rightarrow> ('a \<Rightarrow> 's \<Rightarrow> bool) \<Rightarrow> ('s \<Rightarrow> bool) \<Rightarrow> 'a outcome \<Rightarrow> 's \<Rightarrow> bool" where
  "goes X Q R (Val x) t = Q x t"
| "goes X Q R (Return e) t = R t"
| "goes X Q R (Panic p) t = (p \<in> X)"

definition safe ::
  "string set \<Rightarrow> ('s \<Rightarrow> bool) \<Rightarrow> ('s \<Rightarrow> bool) \<Rightarrow> ('s, 'a) gom \<Rightarrow> ('a \<Rightarrow> 's \<Rightarrow> bool) \<Rightarrow> bool" where
  "safe X R P m Q \<longleftrightarrow> (\<forall>s. P s \<longrightarrow> wpo m (goes X Q R) s)"

abbreviation typed :: "string set \<Rightarrow> ('s \<Rightarrow> bool) \<Rightarrow> ('s \<Rightarrow> bool) \<Rightarrow> ('s, 'a) gom \<Rightarrow> bool" where
  "typed X R P m \<equiv> safe X R P m (\<lambda>_. P)"

named_theorems safe_intros \<open>one rule per construct and per call\<close>

lemma safeI: "(\<And>s. P s \<Longrightarrow> wpo m (goes X Q R) s) \<Longrightarrow> safe X R P m Q"
  by (simp add: safe_def)

lemma safeD: "safe X R P m Q \<Longrightarrow> P s \<Longrightarrow> m s = (r, t) \<Longrightarrow> goes X Q R r t"
  by (auto simp: safe_def wpo_def)

lemma goes_mono: "goes X Q R r t \<Longrightarrow> (\<And>x. Q x t \<Longrightarrow> Q' x t) \<Longrightarrow> (R t \<Longrightarrow> R' t) \<Longrightarrow> goes X Q' R' r t"
  by (cases r) simp_all

lemma wpo_goes_seq:
  assumes "wpo m (goes X M R) s" and "\<And>x t. M x t \<Longrightarrow> wpo (k x) (goes X Q R) t"
  shows "wpo (seq m k) (goes X Q R) s"
  unfolding wpo_seq
proof (rule wpo_mono [OF assms(1)])
  fix r t assume "goes X M R r t"
  with assms(2) show "case r of Val x \<Rightarrow> wpo (k x) (goes X Q R) t | Return e \<Rightarrow> goes X Q R (Return e) t
    | Panic p \<Rightarrow> goes X Q R (Panic p) t" by (cases r) simp_all
qed

lemma safe_bind:
  assumes "safe X R P m M" and "\<And>x. safe X R (M x) (k x) Q"
  shows "safe X R P (seq m k) Q"
  using assms wpo_goes_seq unfolding safe_def by metis

lemma safe_conseq:
  assumes "safe X R P m Q" and "\<And>s. P' s \<Longrightarrow> P s" and "\<And>x s. Q x s \<Longrightarrow> Q' x s"
  shows "safe X R P' m Q'"
  using assms by (auto simp: safe_def intro!: wpo_mono [of m "goes X Q R" _ "goes X Q' R"] elim!: goes_mono)

section \<open>One rule per construct\<close>

text \<open>What a return needs of the state; and predicates that streams and replies do not touch.\<close>

definition within :: "('s \<Rightarrow> bool) \<Rightarrow> ('s \<Rightarrow> bool) \<Rightarrow> bool" where
  "within P R \<longleftrightarrow> (\<forall>s. P s \<longrightarrow> R s)"

definition wire_free :: "(('w, 'x) rsync_scheme \<Rightarrow> bool) \<Rightarrow> bool" where
  "wire_free P \<longleftrightarrow> (\<forall>s r w. P s \<longrightarrow> P (s\<lparr>rs_r := r\<rparr>) \<and> P (s\<lparr>rs_w := w\<rparr>))"

definition connected :: "(('w, 'x) rsync_scheme \<Rightarrow> bool) \<Rightarrow> bool" where
  "connected P \<longleftrightarrow> wire_free P \<and> (\<forall>s. P s \<longrightarrow> db s \<and> openRows s = None \<and>
     (\<forall>w e n c. P (s\<lparr>world := w\<rparr>) \<and> P (s\<lparr>wrongEnc := e\<rparr>) \<and> P (s\<lparr>nextId := n\<rparr>) \<and> P (s\<lparr>closedStmts := c\<rparr>)))"

lemma connectedD:
  "connected P \<Longrightarrow> wire_free P"
  "connected P \<Longrightarrow> P s \<Longrightarrow> db s \<and> openRows s = None"
  "connected P \<Longrightarrow> P s \<Longrightarrow> P (s\<lparr>world := w\<rparr>)"
  "connected P \<Longrightarrow> P s \<Longrightarrow> P (s\<lparr>wrongEnc := e\<rparr>)"
  "connected P \<Longrightarrow> P s \<Longrightarrow> P (s\<lparr>nextId := n\<rparr>)"
  "connected P \<Longrightarrow> P s \<Longrightarrow> P (s\<lparr>closedStmts := c\<rparr>)"
  by (auto simp: connected_def)

lemma safe_ret: "(\<And>s. P s \<Longrightarrow> Q x s) \<Longrightarrow> safe X R P (ret x) Q"
  by (auto intro!: safeI)

lemma typed_ret [safe_intros]: "typed X R P (ret x)"
  by (rule safe_ret)

lemma safe_stop [safe_intros]: "within P R \<Longrightarrow> safe X R P (stop e) Q"
  by (auto intro!: safeI simp: within_def)

lemma safe_panic [safe_intros]: "p \<in> X \<Longrightarrow> safe X R P (panic p) Q"
  by (auto intro!: safeI)

lemma safe_gets_bind:
  "(\<And>s. P s \<Longrightarrow> safe X R P (k (f s)) Q) \<Longrightarrow> safe X R P (seq (gets f) k) Q"
  by (auto simp: safe_def wpo_seq)

lemma safe_gets_eq:
  "(\<And>v. safe X R (\<lambda>s. P s \<and> f s = v) (k v) Q) \<Longrightarrow> safe X R P (seq (gets f) k) Q"
  by (auto simp: safe_def wpo_seq)

lemma typed_gets [safe_intros]: "typed X R P (gets f)"
  by (auto intro!: safeI)

lemma safe_modify: "(\<And>s. P s \<Longrightarrow> Q () (f s)) \<Longrightarrow> safe X R P (modify f) Q"
  by (auto intro!: safeI)

lemma typed_modify [safe_intros]: "(\<And>s. P s \<Longrightarrow> P (f s)) \<Longrightarrow> typed X R P (modify f)"
  by (rule safe_modify)

lemma safe_modify_bind:
  "(\<And>s. P s \<Longrightarrow> P' (f s)) \<Longrightarrow> safe X R P' (k ()) Q \<Longrightarrow> safe X R P (seq (modify f) k) Q"
  by (auto simp: safe_def wpo_seq)

lemma safe_seq [safe_intros]:
  "typed X R P m \<Longrightarrow> (\<And>x. safe X R P (k x) Q) \<Longrightarrow> safe X R P (seq m k) Q"
  by (rule safe_bind)

lemma safe_if [safe_intros]:
  "(b \<Longrightarrow> safe X R P m Q) \<Longrightarrow> (\<not> b \<Longrightarrow> safe X R P n Q) \<Longrightarrow> safe X R P (if b then m else n) Q"
  by simp

lemma safe_option [safe_intros]:
  "safe X R P m Q \<Longrightarrow> (\<And>x. safe X R P (k x) Q) \<Longrightarrow> safe X R P (case v of None \<Rightarrow> m | Some x \<Rightarrow> k x) Q"
  by (simp split: option.splits)

lemma safe_sum [safe_intros]:
  "(\<And>e. safe X R P (m e) Q) \<Longrightarrow> (\<And>x. safe X R P (k x) Q) \<Longrightarrow>
     safe X R P (case v of Inl e \<Rightarrow> m e | Inr x \<Rightarrow> k x) Q"
  by (simp split: sum.splits)

lemma safe_prod [safe_intros]: "(\<And>x y. safe X R P (f x y) Q) \<Longrightarrow> safe X R P (case v of (x, y) \<Rightarrow> f x y) Q"
  by (simp split: prod.splits)

lemma typed_cond [safe_intros]: "(b \<Longrightarrow> typed X R P m) \<Longrightarrow> typed X R P (cond b m)"
  by (auto simp: cond_def typed_ret)

lemma typed_chk [safe_intros]: "within P R \<Longrightarrow> typed X R P (chk e)"
  by (auto simp: chk_def safe_stop typed_ret split: option.splits)

lemma typed_try_val [safe_intros]: "typed X R P m \<Longrightarrow> within P R \<Longrightarrow> typed X R P (try_val m)"
  unfolding try_val_def by (intro safe_intros)

lemma typed_try_err [safe_intros]: "typed X R P m \<Longrightarrow> within P R \<Longrightarrow> typed X R P (try_err m)"
  unfolding try_err_def by (intro safe_intros)

lemma typed_push_defer [safe_intros]: "(\<And>s. P s \<Longrightarrow> P (s\<lparr>defers := d # defers s\<rparr>)) \<Longrightarrow> typed X R P (push_defer d)"
  unfolding push_defer_def by (intro safe_intros)

lemma typed_foreach [safe_intros]: "(\<And>x. typed X R P (f x)) \<Longrightarrow> typed X R P (foreach f xs)"
  by (induction xs) (auto intro: safe_intros)

section \<open>One rule per call\<close>

lemma typed_ops: "wire_free P \<Longrightarrow> typed X R P (r_op f)" "wire_free P \<Longrightarrow> typed X R P (w_op g)"
  by (auto intro!: safeI simp: wpo_r_op wpo_w_op wire_free_def)

lemma typed_reads [safe_intros]:
  assumes "wire_free P" "within P R"
  shows "typed X R P rd_byte" "typed X R P rd_u32" "typed X R P rd_pow2" "typed X R P (rd_bytes n)" "typed X R P rd_message"
    "typed X R P next_message"
  unfolding rd_byte_def rd_u32_def rd_pow2_def rd_bytes_def rd_message_def next_message_def
  by (intro safe_intros typed_ops assms)+

lemma typed_writes [safe_intros]:
  assumes "wire_free P" "within P R"
  shows "typed X R P (wr_byte b)" "typed X R P (wr_u32 x)" "typed X R P (wr_pow2 v)" "typed X R P (wr_bytes p)"
    "typed X R P (wr_message m p)" "typed X R P wr_flush" "typed X R P (w_op g)"
  unfolding wr_byte_def wr_u32_def wr_pow2_def wr_bytes_def wr_message_def wr_flush_def
  by (intro safe_intros typed_ops assms)+

lemma safe_fail [safe_intros]:
  assumes "wire_free P" "within P R"
  shows "safe X R P (fail m t) Q" "typed X R P (write_error m t)" 
  unfolding fail_def write_error_def by (intro safe_intros typed_ops assms)+

lemma safe_o_fail [safe_intros]: "wire_free P \<Longrightarrow> within P R \<Longrightarrow> safe X R P (o_fail t) Q"
  unfolding o_fail_def by (intro safe_intros)

text \<open>The calls on the connection.\<close>

lemma typed_on_db: "connected P \<Longrightarrow> typed X R P (on_db f)"
  by (auto intro!: safeI simp: wpo_def on_db_def connected_def split: prod.splits)

lemma typed_db_Exec [safe_intros]: "connected P \<Longrightarrow> typed X R P (db_Exec E sql args)"
  unfolding db_Exec_def by (rule typed_on_db)

lemma typed_db_Prepare [safe_intros]: "connected P \<Longrightarrow> typed X R P (db_Prepare E sql)"
  unfolding db_Prepare_def
  by (intro safe_intros typed_on_db) (auto intro!: safeI simp: wpo_def connected_def)

text \<open>While a query's rows are being read.\<close>

definition reading :: "nat \<Rightarrow> (('w, 'x) rsync_scheme \<Rightarrow> bool) \<Rightarrow> ('w, 'x) rsync_scheme \<Rightarrow> bool" where
  "reading i P s \<longleftrightarrow> openRows s = Some i \<and> P (s\<lparr>openRows := None\<rparr>)"

lemma openRows_updates:
  fixes s :: "('w, 'x) rsync_scheme"
  shows "s\<lparr>rs_r := r, openRows := q\<rparr> = s\<lparr>openRows := q, rs_r := r\<rparr>" "s\<lparr>rs_w := w, openRows := q\<rparr> = s\<lparr>openRows := q, rs_w := w\<rparr>"
    "s\<lparr>world := v, openRows := q\<rparr> = s\<lparr>openRows := q, world := v\<rparr>"
  by (cases s; simp)+

lemma wire_free_reading [safe_intros]: "wire_free P \<Longrightarrow> wire_free (reading i P)"
  by (simp add: wire_free_def reading_def openRows_updates)

lemma safe_db_Query:
  assumes "connected P" and "\<And>e. safe X R P (k (Inl e)) Q"
    and "\<And>i rs. safe X R (reading i P) (k (Inr (i, rs))) Q"
  shows "safe X R P (seq (db_Query E sql args) k) Q"
proof (rule safeI)
  fix s assume s: "P s"
  obtain w x where q: "e_query E (world s) sql args = (w, x)" by fastforce
  note c = connectedD [OF assms(1)]
  show "wpo (seq (db_Query E sql args) k) (goes X Q R) s"
  proof (cases x)
    case (Inl e)
    with s q c(2) [OF s] have "seq (db_Query E sql args) k s = k (Inl e) (s\<lparr>world := w\<rparr>)"
      by (simp add: db_Query_def on_db_def seq_def)
    with assms(2) c(3) [OF s, of w] show ?thesis by (simp add: safe_def wpo_def)
  next
    case (Inr rs)
    let ?s = "s\<lparr>world := w, openRows := Some (nextId s), nextId := Suc (nextId s)\<rparr>"
    from Inr s q c(2) [OF s] have "seq (db_Query E sql args) k s = k (Inr (nextId s, rs)) ?s"
      by (simp add: db_Query_def on_db_def seq_def)
    moreover have "openRows (s\<lparr>world := w, nextId := Suc (nextId s)\<rparr>) = None" using c(2) [OF s] by simp
    then have "?s\<lparr>openRows := None\<rparr> = s\<lparr>world := w, nextId := Suc (nextId s)\<rparr>" by simp
    then have "reading (nextId s) P ?s" using c(5) [OF c(3) [OF s, of w]] by (simp add: reading_def)
    ultimately show ?thesis using assms(3) by (simp add: safe_def wpo_def)
  qed
qed

lemma reading_none: "connected P \<Longrightarrow> reading i P s \<Longrightarrow> P (s\<lparr>world := w, openRows := None\<rparr>) \<and> P (s\<lparr>openRows := None\<rparr>)"
  by (simp add: reading_def openRows_updates connectedD(3))

lemma safe_rows_loop:
  assumes "connected P" and "\<And>row. typed X R (reading i P) (body row)"
  shows "safe X R (reading i P) (rows_loop (i, rs) body) (\<lambda>_. P)"
  unfolding rows_loop_def fst_conv snd_conv
proof (rule safe_seq)
  show "typed X R (reading i P) (foreach body (rs_rows rs))" by (intro safe_intros assms)
  show "safe X R (reading i P) (seq (modify (\<lambda>s. s\<lparr>openRows := None\<rparr>)) (\<lambda>_. ret (rs_err rs))) (\<lambda>_. P)"
    by (rule safe_bind [where M = "\<lambda>_. P"], rule safe_modify, simp add: reading_def, rule typed_ret)
qed

lemma typed_rows_Close [safe_intros]: "connected P \<Longrightarrow> typed X R P (rows_Close E i)"
  by (auto intro!: safeI simp: wpo_def rows_Close_def connected_def)

lemma safe_rows_Close:
  "connected P \<Longrightarrow> safe X R (reading i P) (rows_Close E i) (\<lambda>_. P)"
  by (auto intro!: safeI simp: wpo_def rows_Close_def reading_none reading_def split: prod.splits)

lemma typed_db_QueryRow [safe_intros]:
  assumes "connected P"
  shows "typed X R P (db_QueryRow E sql args scan)"
  unfolding db_QueryRow_def
proof (rule safe_db_Query [OF assms])
  show "typed X R P (case Inl e of Inl e \<Rightarrow> ret (Inl e) | Inr (i, rs) \<Rightarrow> f i rs)" for e f
    by (simp add: typed_ret)
next
  fix i rs
  let ?none = "seq (modify (\<lambda>s. s\<lparr>openRows := None\<rparr>)) (\<lambda>_. ret (Inl (case rs_err rs of None \<Rightarrow> ErrNoRows | Some e \<Rightarrow> e)))"
  let ?row = "\<lambda>row. seq (rows_Close E i) (\<lambda>closeErr. ret (case scan row of Inl e \<Rightarrow> Inl e
      | Inr v \<Rightarrow> (case closeErr of None \<Rightarrow> Inr v | Some e \<Rightarrow> Inl e)))"
  have "safe X R (reading i P) ?none (\<lambda>_. P)"
    by (rule safe_bind [where M = "\<lambda>_. P"], rule safe_modify, simp add: reading_def, rule typed_ret)
  moreover have "safe X R (reading i P) (?row row) (\<lambda>_. P)" for row
    by (rule safe_bind [OF safe_rows_Close [OF assms]]) (rule typed_ret)
  ultimately show "safe X R (reading i P) (case Inr (i, rs) of Inl e \<Rightarrow> ret (Inl e)
      | Inr (i, rs) \<Rightarrow> (case rs_rows rs of [] \<Rightarrow> seq (modify (\<lambda>s. s\<lparr>openRows := None\<rparr>))
            (\<lambda>_. ret (Inl (case rs_err rs of None \<Rightarrow> ErrNoRows | Some e \<Rightarrow> e)))
        | row # _ \<Rightarrow> seq (rows_Close E i) (\<lambda>closeErr. ret (case scan row of Inl e \<Rightarrow> Inl e
            | Inr v \<Rightarrow> (case closeErr of None \<Rightarrow> Inr v | Some e \<Rightarrow> Inl e))))) (\<lambda>_. P)"
    by (cases "rs_rows rs") simp_all
qed

lemma typed_stmt [safe_intros]:
  assumes "connected P" and "v \<noteq> None"
  shows "typed X R P (stmt_Exec E v args)" "typed X R P (stmt_QueryRow E v args scan)"
proof -
  from assms(2) obtain i sql where "v = Some (Stmt i sql)" by (metis not_None_eq stmt.exhaust)
  then show "typed X R P (stmt_Exec E v args)" "typed X R P (stmt_QueryRow E v args scan)"
    by (simp_all add: stmt_Exec_def stmt_QueryRow_def typed_db_Exec typed_db_QueryRow assms(1))
qed

text \<open>The methods of sql.go.\<close>

lemma connected_updates: "connected P \<Longrightarrow> typed X R P (modify (\<lambda>s. s\<lparr>wrongEnc := e\<rparr>))"
  by (intro typed_modify) (simp add: connectedD)

lemma typed_sql [safe_intros]:
  assumes "connected P" "within P R"
  shows "typed X R P (prepare E sql)" "typed X R P (run E sql args)" "typed X R P (runReturnUInt E sql)"
    "typed X R P (runReturnText E sql)" "typed X R P (subdivideHashRange E f n)"
proof -
  note w = connectedD(1) [OF assms(1)]
  show "typed X R P (prepare E sql)" "typed X R P (runReturnUInt E sql)" "typed X R P (runReturnText E sql)"
    unfolding prepare_def runReturnUInt_def runReturnText_def by (intro safe_intros assms w)+
  show r: "typed X R P (run E sql args)" for sql args
    unfolding run_def by (intro safe_intros connected_updates assms w)
  show "typed X R P (subdivideHashRange E f n)"
    unfolding subdivideHashRange_def Let_def by (rule r)
qed

lemma typed_stmt_Close [safe_intros]: "connected P \<Longrightarrow> typed X R P (stmt_Close E st)"
  by (cases st) (auto intro!: safeI simp: wpo_def connected_def split: prod.splits)

text \<open>What a value is known to be: a statement of the SQL it was prepared from, a valid page size.\<close>

lemma safe_pure: "(F \<Longrightarrow> safe X R P m Q) \<Longrightarrow> safe X R (\<lambda>s. P s \<and> F) m Q"
  by (auto simp: safe_def)

lemma safe_value:
  assumes "typed X R P m" and "\<And>s v t. m s = (Val v, t) \<Longrightarrow> F v"
  shows "safe X R P m (\<lambda>v s. P s \<and> F v)"
proof (rule safeI)
  fix s assume s: "P s"
  obtain r t where m: "m s = (r, t)" by fastforce
  from safeD [OF assms(1) s m] assms(2) [of s] m show "wpo m (goes X (\<lambda>v s. P s \<and> F v) R) s"
    by (cases r) (simp_all add: wpo_def)
qed

lemma safe_value_bind:
  assumes "typed X R P m" and "\<And>s v t. m s = (Val v, t) \<Longrightarrow> F v" and "\<And>v. F v \<Longrightarrow> safe X R P (k v) Q"
  shows "safe X R P (seq m k) Q"
  by (rule safe_bind [OF safe_value [OF assms(1)]], erule assms(2)) (rule safe_pure, erule assms(3))

lemma try_val_Val: "try_val m s = (Val v, t) \<Longrightarrow> m s = (Val (Inr v), t)"
  by (auto simp: try_val_def seq_def stop_def ret_def split: prod.splits outcome.splits sum.splits)

lemma prepare_Val: "try_val (prepare E sql) s = (Val st, t) \<Longrightarrow> holds (Some st) sql"
  by (drule try_val_Val)
    (auto simp: prepare_def db_Prepare_def seq_def ret_def holds_def on_db_def split: prod.splits outcome.splits sum.splits option.splits if_splits)

lemma safe_prepare_bind:
  assumes "connected P" "within P R" and "\<And>st. holds (Some st) sql \<Longrightarrow> safe X R P (k st) Q"
  shows "safe X R P (seq (try_val (prepare E sql)) k) Q"
  by (rule safe_value_bind [of X R P _ "\<lambda>st. holds (Some st) sql"], intro safe_intros assms)
    (auto intro: assms(3) dest: prepare_Val)

lemma rd_pow2_Val: "rd_pow2 s = (Val v, t) \<Longrightarrow> pow2_size v"
  unfolding rd_pow2_def
  by (drule try_val_Val) (auto simp: r_op_def pow2_size_def word_le_nat_alt push_bit_eq_mult dest!: ReadPow2_ok split: prod.splits)

lemma wr_pow2_Val: "wr_pow2 v s = (Val u, t) \<Longrightarrow> v = 0 \<or> pow2_size v"
  using pow2_valid [of v]
  by (auto simp: wr_pow2_def try_err_def w_op_def seq_def WritePow2_def pow2_size_def chk_def split: prod.splits if_splits)

section \<open>The origin\<close>

text \<open>
  Between two messages: the connection is there and free, the protocol in range, the page size a
  power of two, and a statement variable is nil or holds the statement of its name; the two made when
  the first hash arrives are made together.
\<close>

definition o_base :: "'w origin \<Rightarrow> bool" where
  "o_base s \<longleftrightarrow> db s \<and> openRows s = None \<and> \<not> isReplica s \<and> 0 \<le> protocol s \<and> protocol s \<le> ProtocolVersion \<and>
     pow2_size (pageSize s) \<and> lockBytePage s = lock_page (pageSize s) \<and>
     (pCkHashN s = None \<or> holds (pCkHashN s) checkHashNSQL) \<and> ClosePIns \<notin> set (defers s)"

definition o_one :: "'w origin \<Rightarrow> bool" where
  "o_one s \<longleftrightarrow> o_base s \<and> holds (pCkHash s) checkHashSQL"

definition o_hashing :: "'w origin \<Rightarrow> bool" where
  "o_hashing s \<longleftrightarrow> o_base s \<and> holds (pCkHash s) checkHashSQL \<and> holds (pInsHash s) insBadHashSQL"

definition o_typed :: "'w origin \<Rightarrow> bool" where
  "o_typed s \<longleftrightarrow> o_base s \<and> (pCkHash s = None \<and> pInsHash s = None \<or> holds (pCkHash s) checkHashSQL \<and> holds (pInsHash s) insBadHashSQL)"

definition o_left :: "'w origin \<Rightarrow> bool" where
  "o_left s \<longleftrightarrow> ClosePIns \<notin> set (defers s)"

lemmas o_typing = o_base_def o_one_def o_hashing_def o_typed_def o_left_def

lemma origin_frames [safe_intros]:
  "connected o_base" "connected o_one" "connected o_hashing" "connected o_typed"
  "wire_free o_base" "wire_free o_one" "wire_free o_hashing" "wire_free o_typed" "wire_free o_left"
  "within o_base o_left" "within o_one o_left" "within o_hashing o_left" "within o_typed o_left" "within o_left o_left"
  "within (reading i o_typed) o_left"
  by (auto simp: connected_def wire_free_def within_def reading_def o_typing)

lemma typed_first_hash: "safe X o_left o_typed (first_hash E) (\<lambda>_. o_hashing)"
  unfolding first_hash_def
proof (rule safe_gets_eq)
  fix v :: "stmt option"
  let ?make = "seq (try_err (run E createBadHashSQL [])) (\<lambda>_. seq (try_val (prepare E checkHashSQL)) (\<lambda>st1.
       seq (modify (\<lambda>s. s\<lparr>pCkHash := Some st1\<rparr>)) (\<lambda>_. seq (push_defer (CloseStmt st1)) (\<lambda>_.
       seq (try_val (prepare E insBadHashSQL)) (\<lambda>st2. seq (modify (\<lambda>s. s\<lparr>pInsHash := Some st2\<rparr>)) (\<lambda>_.
       push_defer (CloseStmt st2)))))))"
  have "safe X o_left o_base ?make (\<lambda>_. o_hashing)"
    by (rule safe_seq, (intro safe_intros)[1], rule safe_prepare_bind, (intro safe_intros)[1], (intro safe_intros)[1],
        rule safe_modify_bind [where P' = o_one], simp add: o_typing,
        rule safe_seq, (intro safe_intros; simp add: o_typing)[1],
        rule safe_prepare_bind, (intro safe_intros)[1], (intro safe_intros)[1],
        rule safe_modify_bind [where P' = o_hashing], simp add: o_typing, intro safe_intros, simp add: o_typing)
  then show "safe X o_left (\<lambda>s. o_typed s \<and> pCkHash s = v) (cond (v = None) ?make) (\<lambda>_. o_hashing)"
    by (cases v) (auto simp: o_typing intro!: safe_ret elim: safe_conseq)
qed

text \<open>The statement of a variable that is known to hold one.\<close>

lemma typed_single [safe_intros]: "typed X o_left o_hashing (match_single E h)" "typed X o_left o_hashing (record_mismatch E)"
  unfolding match_single_def record_mismatch_def
  by (rule safe_gets_bind; simp only: prod.case, intro safe_intros; simp add: o_hashing_def holds_def, blast?)+

lemma typed_multi [safe_intros]: "typed X o_left o_hashing (match_multi E h)"
  unfolding match_multi_def
proof (rule safe_gets_eq)
  fix v :: "stmt option"
  let ?P = "\<lambda>s. o_hashing s \<and> holds (pCkHashN s) checkHashNSQL"
  let ?make = "seq (try_val (prepare E checkHashNSQL)) (\<lambda>st. seq (modify (\<lambda>s. s\<lparr>pCkHashN := Some st\<rparr>)) (\<lambda>_.
      push_defer (CloseStmt st)))"
  let ?rest = "seq (gets (\<lambda>s. (pCkHashN s, uint (iHash s), uint (nHash s)))) (\<lambda>(st, i, n).
      seq (stmt_QueryRow E st [SInt i, SInt (i + n - 1), SBlob h] (scan1 (scan_null_int64 E 0)))
       (\<lambda>x. case x of Inl e \<Rightarrow> o_fail (statement_failed checkHashNSQL e) | Inr m \<Rightarrow> ret (m \<noteq> None \<and> m \<noteq> Some 0)))"
  have P: "connected ?P" "wire_free ?P" "within ?P o_left"
    by (auto simp: connected_def wire_free_def within_def o_typing)
  have "safe X o_left o_hashing ?make (\<lambda>_. ?P)"
    by (rule safe_prepare_bind, (intro safe_intros)[1], (intro safe_intros)[1],
        rule safe_modify_bind [where P' = ?P], simp add: o_typing, intro safe_intros, simp add: o_typing)
  then have "safe X o_left (\<lambda>s. o_hashing s \<and> pCkHashN s = v) (cond (v = None) ?make) (\<lambda>_. ?P)"
    by (cases v) (auto simp: o_typing intro!: safe_ret elim: safe_conseq)
  moreover have "typed X o_left ?P ?rest"
    by (rule safe_gets_bind; simp only: prod.case, intro safe_intros P; simp add: holds_def, blast?)
  then have "safe X o_left ?P ?rest (\<lambda>_. o_hashing)" by (rule safe_conseq) simp_all
  ultimately show "safe X o_left (\<lambda>s. o_hashing s \<and> pCkHashN s = v) (seq (cond (v = None) ?make) (\<lambda>_. ?rest)) (\<lambda>_. o_hashing)"
    by (rule safe_bind)
qed

lemma typed_on_replica_hash [safe_intros]: "typed X o_left o_typed (on_replica_hash E)"
  unfolding on_replica_hash_def
proof (rule safe_bind [OF typed_first_hash])
  have "typed X o_left o_hashing (seq (modify (\<lambda>s. s\<lparr>hashMessages := hashMessages s + 1\<rparr>)) (\<lambda>_. seq (rd_bytes 20) (\<lambda>rcvHash.
      seq (gets nHash) (\<lambda>n. seq (if n > 1 then match_multi E rcvHash else match_single E rcvHash) (\<lambda>bMatch.
      seq (cond (\<not> bMatch) (record_mismatch E)) (\<lambda>_. modify next_range))))))"
    by (intro safe_intros) (simp_all add: o_typing next_range_def Let_def)
  then show "safe X o_left o_hashing (seq (modify (\<lambda>s. s\<lparr>hashMessages := hashMessages s + 1\<rparr>)) (\<lambda>_. seq (rd_bytes 20) (\<lambda>rcvHash.
      seq (gets nHash) (\<lambda>n. seq (if n > 1 then match_multi E rcvHash else match_single E rcvHash) (\<lambda>bMatch.
      seq (cond (\<not> bMatch) (record_mismatch E)) (\<lambda>_. modify next_range)))))) (\<lambda>_. o_typed)"
    by (rule safe_conseq) (simp_all add: o_typing)
qed

lemma typed_send_begin [safe_intros]: "typed X o_left o_typed send_begin"
  unfolding send_begin_def by (intro safe_intros)

lemma byte_protocol: "int (unat (b :: byte)) < p \<Longrightarrow> p \<le> ProtocolVersion \<Longrightarrow> int (unat b) \<le> ProtocolVersion"
  by simp

lemma typed_on_replica_begin [safe_intros]: "typed X o_left o_typed on_replica_begin"
  unfolding on_replica_begin_def
proof (rule safe_seq, (intro safe_intros)[1], rule safe_gets_bind)
  fix b :: byte and s :: "'a origin" assume s: "o_typed s"
  show "typed X o_left o_typed (if int (unat b) < protocol s then seq (modify (\<lambda>s. s\<lparr>protocol := int (unat b)\<rparr>)) (\<lambda>_. send_begin)
      else o_fail ''Invalid REPLICA_BEGIN reply'')"
    using s by (intro safe_intros) (auto simp: o_typing)
qed

lemma typed_on_replica_config [safe_intros]: "typed X o_left o_typed on_replica_config"
  unfolding on_replica_config_def by (intro safe_intros) (simp_all add: o_typing)

lemma typed_rows_query [safe_intros]:
  assumes "\<And>row i. typed X o_left (reading i o_typed) (body row)" and "\<And>e. safe X o_left o_typed (k1 e) Q"
    and "\<And>i rs e. safe X o_left o_typed (k2 i rs e) Q"
  shows "safe X o_left o_typed (seq (db_Query E sql args) (\<lambda>q. case q of Inl e \<Rightarrow> k1 e | Inr (i, rs) \<Rightarrow>
      seq (push_defer (CloseRows i)) (\<lambda>_. seq (rows_loop (i, rs) body) (k2 i rs)))) Q"
proof (rule safe_db_Query)
  fix i :: nat and rs
  have "safe X o_left (reading i o_typed) (seq (push_defer (CloseRows i)) (\<lambda>_. seq (rows_loop (i, rs) body) (k2 i rs))) Q"
    by (rule safe_seq, rule typed_push_defer, simp add: reading_def o_typing,
        rule safe_bind [OF safe_rows_loop], intro safe_intros, rule assms(1), rule assms(3))
  then show "safe X o_left (reading i o_typed) (case Inr (i, rs) of Inl e \<Rightarrow> k1 e | Inr (i, rs) \<Rightarrow>
      seq (push_defer (CloseRows i)) (\<lambda>_. seq (rows_loop (i, rs) body) (k2 i rs))) Q" by simp
qed (simp_all add: assms origin_frames)

lemma typed_row_bodies [safe_intros]:
  "typed X o_left (reading i o_typed) (send_detail E row)" "typed X o_left (reading i o_typed) (send_page E row)"
  unfolding send_detail_def send_page_def
  by (intro safe_intros; simp add: reading_def o_typing)+

lemma typed_origin_rounds [safe_intros]: "typed X o_left o_typed (send_details E)" "typed X o_left o_typed (send_pages E)"
  unfolding send_details_def send_pages_def fill_tail_def by (intro safe_intros)+

lemma typed_on_replica_ready [safe_intros]: "typed X o_left o_typed (on_replica_ready E)"
  unfolding on_replica_ready_def by (intro safe_intros) (simp add: o_typing)

lemma typed_origin_step [safe_intros]: "typed X o_left o_typed (origin_step E)"
  unfolding origin_step_def origin_handle_def by (intro safe_intros)

text \<open>The start: from a fresh run to the first state of the loop, or the division by a page size of zero.\<close>

definition divideByZero :: string where
  "divideByZero = ''integer divide by zero''"

text \<open>Before the connection is opened, and once it is.\<close>

definition o_closed :: "'w origin \<Rightarrow> bool" where
  "o_closed s \<longleftrightarrow> openRows s = None \<and> \<not> isReplica s \<and> 0 \<le> protocol s \<and> protocol s \<le> ProtocolVersion \<and> ClosePIns \<notin> set (defers s)"

definition o_opened :: "'w origin \<Rightarrow> bool" where
  "o_opened s \<longleftrightarrow> o_closed s \<and> db s"

definition o_sized :: "'w origin \<Rightarrow> bool" where
  "o_sized s \<longleftrightarrow> o_opened s \<and> (pageSize s = 0 \<or> pow2_size (pageSize s))"

lemma opened_frames [safe_intros]:
  "wire_free o_closed" "within o_closed o_left" "connected o_opened" "wire_free o_opened" "within o_opened o_left"
  "wire_free o_sized" "within o_sized o_left"
  by (auto simp: connected_def wire_free_def within_def o_opened_def o_closed_def o_left_def o_sized_def)

lemma typed_begin_sized: "safe X o_left o_opened send_begin (\<lambda>_. o_sized)"
  unfolding send_begin_def
proof (rule safe_seq, (intro safe_intros)[1], rule safe_seq, (intro safe_intros)[1], rule safe_seq, (intro safe_intros)[1],
    rule safe_gets_eq)
  fix p sz
  let ?rest = "seq (gets pageCount) (\<lambda>n. seq (wr_u32 n) (\<lambda>_. wr_flush))"
  let ?P = "\<lambda>s. o_opened s \<and> pageSize s = sz"
  have P: "wire_free ?P" "within ?P o_left" by (auto simp: wire_free_def within_def o_opened_def o_closed_def o_left_def)
  have "safe X o_left ?P (wr_pow2 sz) (\<lambda>_. o_sized)"
    by (rule safe_conseq [OF safe_value [of X o_left ?P "wr_pow2 sz" "\<lambda>_. sz = 0 \<or> pow2_size sz"]], intro safe_intros P)
      (use wr_pow2_Val in \<open>auto simp: o_sized_def\<close>)
  then show "safe X o_left ?P (seq (wr_pow2 sz) (\<lambda>_. ?rest)) (\<lambda>_. o_sized)"
    by (rule safe_bind) (intro safe_intros)
qed

lemma typed_check_wal [safe_intros]: "typed X o_left o_opened (check_wal E)"
  unfolding check_wal_def by (intro safe_intros)

lemma typed_stat [safe_intros]:
  "typed X o_left o_closed (\<lambda>s. case e_stat E (world s) path of (w, e) \<Rightarrow> (Val e, s\<lparr>world := w\<rparr>))"
  by (auto intro!: safeI simp: wpo_def o_closed_def split: prod.splits)

lemma typed_open_bind:
  assumes "\<And>e. f (Some e) = o_fail (t e)" and "f None = ret ()" and "safe X o_left o_opened k Q"
  shows "safe X o_left o_closed (seq (openDb E path) (\<lambda>err. seq (f err) (\<lambda>_. k))) Q"
proof (rule safe_bind)
  show "safe X o_left o_closed (openDb E path) (\<lambda>e s. o_closed s \<and> (e = None \<longrightarrow> db s))"
    by (auto intro!: safeI simp: wpo_def openDb_def o_closed_def split: prod.splits option.splits)
  fix e
  have "safe X o_left (\<lambda>s. o_closed s \<and> (e = None \<longrightarrow> db s)) (f e) (\<lambda>_. o_opened)"
  proof (cases e)
    case None
    then show ?thesis by (auto intro: safe_ret simp: o_opened_def assms(2))
  next
    case (Some x)
    have "safe X o_left o_closed (o_fail t) (\<lambda>_. o_opened)" for t by (intro safe_intros)
    then show ?thesis using Some by (auto elim: safe_conseq simp: assms(1))
  qed
  then show "safe X o_left (\<lambda>s. o_closed s \<and> (e = None \<longrightarrow> db s)) (seq (f e) (\<lambda>_. k)) Q"
    by (rule safe_bind) (rule assms(3))
qed

lemma typed_lock_page:
  "safe {divideByZero} o_left o_sized (seq (gets pageSize) (\<lambda>sz. if sz = 0 then panic ''integer divide by zero''
     else modify (\<lambda>s. s\<lparr>lockBytePage := 2 ^ 30 div sz + 1, iHash := 1, nHash := 1, mxHash := 0,
            pCkHash := None, pCkHashN := None, pInsHash := None\<rparr>))) (\<lambda>_. o_typed)"
  by (rule safe_gets_eq) (auto simp: divideByZero_def o_sized_def o_opened_def o_closed_def o_typing lock_page_def
      intro!: safe_modify safe_panic)

lemma typed_origin_setup: "safe {divideByZero} o_left o_closed (origin_setup E) (\<lambda>_. o_typed)"
  unfolding origin_setup_def
  by (rule safe_modify_bind [where P' = o_closed], simp add: o_closed_def ProtocolVersion_def,
      rule safe_seq, rule typed_push_defer, simp add: o_closed_def, rule safe_seq, rule typed_gets,
      rule safe_seq, rule typed_stat, rule safe_seq, (intro safe_intros)[1], rule typed_open_bind, simp, simp)
    (intro safe_intros safe_bind [OF typed_begin_sized] typed_lock_page; simp add: o_opened_def o_closed_def)

section \<open>The origin as a whole\<close>

lemma safe_panics_mono:
  assumes "safe X R P m Q" and "X \<subseteq> Y"
  shows "safe Y R P m Q"
proof -
  have "goes Y Q R r t" if "goes X Q R r t" for r t using that assms(2) by (cases r) auto
  then show ?thesis using assms(1) unfolding safe_def by (blast intro: wpo_mono)
qed

lemma typed_loop:
  assumes "typed X R P step" and "outOfFuel \<in> X" and "\<And>n. loop (Suc n) = seq step (\<lambda>_. loop n)" and "loop 0 = panic outOfFuel"
  shows "typed X R P (loop n)"
proof (induction n)
  case 0
  show ?case unfolding assms(4) by (rule safe_panic) (rule assms(2))
next
  case (Suc n)
  show ?case unfolding assms(3) by (rule safe_seq) (rule assms(1), rule Suc)
qed

text \<open>A deferred call never panics, but for that of a nil \<open>pIns\<close>.\<close>

lemma stmt_Close_returns: "\<exists>e t. stmt_Close E st s = (Val e, t)"
  by (cases st) (simp split: prod.splits)

lemma do_defer_returns:
  assumes "d \<noteq> ClosePIns"
  shows "\<exists>e t. do_defer E pins d s = (Val e, t)"
  using assms stmt_Close_returns
  by (cases d) (auto simp: closeDb_def rows_Close_def split: prod.splits)

lemma run_defers_returns:
  "ClosePIns \<notin> set ds \<Longrightarrow> \<exists>e t. run_defers E pins ds err s = (Return e, t)"
proof (induction ds arbitrary: err s)
  case (Cons d ds)
  then obtain e t where "do_defer E pins d s = (Val e, t)" using do_defer_returns [of d E pins s] by auto
  with Cons show ?case by (simp add: seq_def)
qed simp

lemma typed_Register [safe_intros]: "typed X o_left o_closed (hash_Register E)"
  by (auto intro!: safeI simp: wpo_def hash_Register_def o_closed_def split: prod.splits)

lemma typed_origin_body: "safe {divideByZero, outOfFuel} o_left o_closed (origin_body E) (\<lambda>_. o_left)"
proof -
  let ?X = "{divideByZero, outOfFuel}"
  have start: "safe ?X o_left o_closed (origin_setup E) (\<lambda>_. o_typed)"
    by (rule safe_panics_mono [OF typed_origin_setup]) simp
  have comm: "safe ?X o_left o_closed (origin_commCheck E) (\<lambda>_. o_left)"
    unfolding origin_commCheck_def by (intro safe_intros)
  have loop: "safe ?X o_left o_typed (origin_loop E n) (\<lambda>_. o_left)" for n
    by (rule safe_conseq [OF typed_loop [of ?X o_left o_typed "origin_step E"]]) (auto intro: safe_intros simp: o_typing)
  show ?thesis
    unfolding origin_body_def
    by (intro safe_seq safe_if comm safe_bind [OF start] loop safe_intros) (simp_all add: o_closed_def)
qed

lemma origin_returns:
  assumes "o_closed s"
  shows "fst (originSide E s) \<in> insert (Panic divideByZero) (range Return)"
proof -
  obtain r t where b: "origin_body E s = (r, t)" by fastforce
  note g = safeD [OF typed_origin_body assms b]
  have "fst (originSide E s) \<noteq> Panic outOfFuel" by (rule origin_process.side_fuel)
  moreover have "\<exists>e u. originSide E s = (Return e, u)" if "o_left t" "call (\<lambda>_. (r, t)) s = (Val x, t)" for x
    using run_defers_returns [of "defers t" E "\<lambda>_. None" x t] that b
    by (cases r) (auto simp: originSide_def with_defers_def seq_def call_def gets_def o_left_def)
  moreover have "originSide E s = (r, t)" if "r = Panic p" for p
    using b that by (simp add: originSide_def with_defers_def seq_def call_def)
  ultimately show ?thesis using g by (cases r) (auto simp: call_def)
qed

end
