(* ===== verification/ReplicaTyping.thy ===== *)
theory ReplicaTyping
  imports Typing
begin

text \<open>
  The same for the replica: what its variables hold between messages (\<open>r_typed\<close>), that the handlers keep
  it as long as the peer keeps to the order of the protocol (\<open>may_take\<close>), and what happens when it does not:
  the nil connection and the nil statement are dereferenced.
\<close>

section \<open>The replica\<close>

text \<open>
  Before an ORIGIN_BEGIN was accepted there is no connection; afterwards there is. A \<open>pIns\<close> whose closing
  is deferred is not nil.
\<close>

definition r_left :: "'w replica \<Rightarrow> bool" where
  "r_left s \<longleftrightarrow> (ClosePIns \<in> set (defers s) \<longrightarrow> pIns s \<noteq> None)"

definition r_base :: "'w replica \<Rightarrow> bool" where
  "r_base s \<longleftrightarrow> openRows s = None \<and> isReplica s \<and> 0 \<le> protocol s \<and> protocol s \<le> ProtocolVersion \<and> r_left s \<and>
     (pIns s = None \<or> holds (pIns s) insertPageSQL)"

definition r_open :: "'w replica \<Rightarrow> bool" where
  "r_open s \<longleftrightarrow> r_base s \<and> db s \<and> pow2_size (pageSize s)"

definition r_typed :: "'w replica \<Rightarrow> bool" where
  "r_typed s \<longleftrightarrow> r_base s \<and> (db s \<longrightarrow> pow2_size (pageSize s))"

definition r_paged :: "'w replica \<Rightarrow> bool" where
  "r_paged s \<longleftrightarrow> r_open s \<and> holds (pIns s) insertPageSQL"

text \<open>No page insert has been prepared yet: nothing depends on \<open>pIns\<close>.\<close>

definition r_unpaged :: "'w replica \<Rightarrow> bool" where
  "r_unpaged s \<longleftrightarrow> openRows s = None \<and> isReplica s \<and> 0 \<le> protocol s \<and> protocol s \<le> ProtocolVersion \<and>
     ClosePIns \<notin> set (defers s)"

definition r_fresh_run :: "'w replica \<Rightarrow> bool" where
  "r_fresh_run s \<longleftrightarrow> r_unpaged s \<and> pIns s = None \<and> \<not> db s"

lemmas r_typing = r_left_def r_base_def r_open_def r_typed_def r_paged_def r_unpaged_def r_fresh_run_def

lemma replica_frames [safe_intros]:
  "connected r_open" "connected r_paged" "wire_free r_open" "wire_free r_typed" "wire_free r_base" "wire_free r_paged" "wire_free r_unpaged" "wire_free r_fresh_run"
  "within r_open r_left" "within r_typed r_left" "within r_base r_left" "within r_paged r_left" "within r_unpaged r_left" "within r_fresh_run r_left"
  by (auto simp: connected_def wire_free_def within_def r_typing)

definition outOfRange :: string where
  "outOfRange = ''index out of range''"

lemma typed_attach_replica [safe_intros]: "typed X r_left r_open (attach_replica E)"
  unfolding attach_replica_def by (intro safe_intros; simp add: r_typing)

lemma typed_replica_parts [safe_intros]: "typed X r_left r_open (init_empty_replica E)"
  "typed X r_left r_open (check_replica_wal E n)" 
  unfolding init_empty_replica_def check_replica_wal_def by (intro safe_intros; simp add: r_typing)+

text \<open>A round of hashes: its rows are closed by a deferred call however the loop ends.\<close>

definition closing :: "nat \<Rightarrow> (('w, 'x) rsync_scheme \<Rightarrow> bool) \<Rightarrow> ('w, 'x) rsync_scheme \<Rightarrow> bool" where
  "closing i P s \<longleftrightarrow> openRows s \<in> {None, Some i} \<and> P (s\<lparr>openRows := None\<rparr>)"

lemma within_closing [safe_intros]:
  assumes c: "connected P"
  shows "within P (closing i P)"
  unfolding within_def closing_def
proof (intro allI impI conjI)
  fix s assume s: "P s"
  then have o: "openRows s = None" using connectedD(2) [OF c] by blast
  then have same: "s\<lparr>openRows := None\<rparr> = s" by simp
  show "P (s\<lparr>openRows := None\<rparr>)" unfolding same by (rule s)
  from o show "openRows s \<in> {None, Some i}" by simp
qed

lemma within_reading [safe_intros]: "within (reading i P) (closing i P)"
  by (auto simp: within_def closing_def reading_def)

lemma within_refl [safe_intros]: "within P P"
  by (simp add: within_def)

lemma safe_call: "safe X P' P m (\<lambda>_. P') \<Longrightarrow> safe X R P (call m) (\<lambda>_. P')"
  unfolding safe_def by (auto simp: wpo_call elim!: wpo_mono goes.elims)

lemma safe_deferred:
  assumes "safe X R' P m Q" and "\<And>s. R' s \<Longrightarrow> \<exists>e t. d s = (Val e, t) \<and> R t"
  shows "safe X R P (deferred d m) Q"
proof (rule safeI)
  fix s assume s: "P s"
  obtain r t where m: "m s = (r, t)" by fastforce
  from safeD [OF assms(1) s m] assms(2) [of t] m show "wpo (deferred d m) (goes X Q R) s"
    by (cases r) (auto simp: wpo_def deferred_def)
qed

lemma rows_Close_closing:
  assumes "connected P" "closing i P s"
  shows "\<exists>e t. rows_Close E i s = (Val e, t) \<and> P t"
proof (cases "openRows s = Some i")
  case True
  with assms reading_none [OF assms(1), of i s] show ?thesis
    by (auto simp: rows_Close_def closing_def reading_def split: prod.splits)
next
  case False
  with assms(2) have "openRows s = None" "P (s\<lparr>openRows := None\<rparr>)" by (auto simp: closing_def)
  moreover from this have same: "s\<lparr>openRows := None\<rparr> = s" by simp
  ultimately have "P s" unfolding same by blast
  with \<open>openRows s = None\<close> show ?thesis by (simp add: rows_Close_def)
qed

lemma stmt_Close_connected:
  assumes "connected P" "P s"
  shows "\<exists>e t. stmt_Close E st s = (Val e, t) \<and> P t"
  using assms by (cases st) (auto simp: connected_def split: prod.splits)

lemma safe_deferred_rows:
  "connected P \<Longrightarrow> within P R \<Longrightarrow> safe X (closing i P) (reading i P) m Q \<Longrightarrow>
     safe X R (reading i P) (deferred (rows_Close E i) m) Q"
  by (erule safe_deferred, drule (1) rows_Close_closing) (auto simp: within_def)

lemma safe_deferred_stmt:
  "connected P \<Longrightarrow> within P R \<Longrightarrow> safe X P P m Q \<Longrightarrow> safe X R P (deferred (stmt_Close E st) m) Q"
  by (erule safe_deferred, drule (1) stmt_Close_connected [where st = st]) (auto simp: within_def)

lemma typed_send_entries [safe_intros]: "typed X (closing i r_open) (reading i r_open) (send_entries E rows ex)"
proof (induction rows arbitrary: ex)
  case Nil
  show ?case unfolding send_entries.simps by (intro safe_intros)
next
  case (Cons row rows)
  have "typed X (closing i r_open) (reading i r_open) (send_entry E row ex)"
    unfolding send_entry_def by (intro safe_intros; simp add: reading_def r_typing)
  then show ?case unfolding send_entries.simps by (rule safe_seq) (rule Cons)
qed

lemma safe_stmt_Query:
  assumes "connected P" and "\<And>e. safe X R P (k1 e) Q" and "\<And>i rs. safe X R (reading i P) (k2 i rs) Q"
  shows "safe X R P (seq (stmt_Query E (Some st) args) (\<lambda>q. case q of Inl e \<Rightarrow> k1 e | Inr (i, rs) \<Rightarrow> k2 i rs)) Q"
  using assms by (cases st) (auto simp: stmt_Query_def intro!: safe_db_Query)

lemma typed_sendHashMessages [safe_intros]: "typed X R r_open (sendHashMessages E i n)"
  unfolding sendHashMessages_def
  by (rule safe_call, rule safe_seq, (intro safe_intros)[1], rule safe_deferred_stmt, (intro safe_intros)[1], (intro safe_intros)[1],
      rule safe_stmt_Query, (intro safe_intros)[1], (intro safe_intros)[1],
      rule safe_deferred_rows, (intro safe_intros)[1], (intro safe_intros)[1], rule safe_seq, (intro safe_intros)[1],
      rule safe_modify_bind [where P' = r_open], simp add: reading_def)
    (intro safe_intros; simp add: r_typing)+

text \<open>The handler of ORIGIN_BEGIN.\<close>

definition r_pre :: "'w replica \<Rightarrow> bool" where
  "r_pre s \<longleftrightarrow> r_base s \<and> pow2_size (pageSize s)"

lemma pre_frames [safe_intros]: "wire_free r_pre" "within r_pre r_left"
  by (auto simp: wire_free_def within_def r_typing r_pre_def)

lemma typed_first_entries [safe_intros]: "typed X r_left r_open (first_entries E n)"
  unfolding first_entries_def by (intro safe_intros)

lemma typed_memory_bind:
  assumes "\<And>e. f (Some e) = fail ReplicaError (t e)" and "f None = ret ()" and "safe X r_left r_open k Q"
  shows "safe X r_left r_pre (seq (openDb E path) (\<lambda>err. seq (f err) (\<lambda>_. k))) Q"
proof (rule safe_bind)
  show "safe X r_left r_pre (openDb E path) (\<lambda>e s. r_pre s \<and> (e = None \<longrightarrow> db s))"
    by (auto intro!: safeI simp: wpo_def openDb_def r_pre_def r_typing split: prod.splits option.splits)
  fix e
  have "safe X r_left (\<lambda>s. r_pre s \<and> (e = None \<longrightarrow> db s)) (f e) (\<lambda>_. r_open)"
  proof (cases e)
    case None
    then show ?thesis by (auto intro: safe_ret simp: r_pre_def r_open_def assms(2))
  next
    case (Some x)
    have "safe X r_left r_pre (fail ReplicaError t) (\<lambda>_. r_open)" for t by (intro safe_intros)
    then show ?thesis using Some by (auto elim: safe_conseq simp: assms(1))
  qed
  then show "safe X r_left (\<lambda>s. r_pre s \<and> (e = None \<longrightarrow> db s)) (seq (f e) (\<lambda>_. k)) Q"
    by (rule safe_bind) (rule assms(3))
qed

lemma typed_open_replica: "safe X r_left r_pre (open_replica E) (\<lambda>_. r_open)"
  unfolding open_replica_def by (rule typed_memory_bind, simp, simp, intro safe_intros)

lemma typed_propose: "typed X r_left r_fresh_run propose_protocol"
  unfolding propose_protocol_def by (intro safe_intros)

lemma typed_closeDb: "safe X r_left r_unpaged (closeDb E) (\<lambda>_ s. r_unpaged s \<and> \<not> db s)"
  by (auto intro!: safeI simp: wpo_def closeDb_def r_typing split: prod.splits)

lemma typed_on_origin_begin: "safe X r_left r_unpaged (on_origin_begin E) (\<lambda>_. r_typed)"
  unfolding on_origin_begin_def
proof (rule safe_bind [where M = "\<lambda>_ s. r_unpaged s \<and> \<not> db s"])
  show "safe X r_left r_unpaged (try_err (closeDb E)) (\<lambda>_ s. r_unpaged s \<and> \<not> db s)"
    unfolding try_err_def by (rule safe_bind [OF typed_closeDb], rule typed_chk) (auto simp: within_def r_typing)
  have adopt: "safe X r_left r_fresh_run (seq (gets protocol) (\<lambda>p. if int (unat proto) > p then propose_protocol
      else seq (modify (\<lambda>s. s\<lparr>protocol := int (unat proto), pageCount := n, pageSize := sz\<rparr>)) (\<lambda>_. open_replica E))) (\<lambda>_. r_typed)"
    if "pow2_size sz" for proto :: byte and sz n
  proof (rule safe_gets_eq)
    fix p
    have "safe X r_left r_fresh_run propose_protocol (\<lambda>_. r_typed)"
      by (rule safe_conseq [OF typed_propose]) (auto simp: r_typing)
    moreover have "safe X r_left (\<lambda>s. r_fresh_run s \<and> protocol s = p \<and> int (unat proto) \<le> p)
        (seq (modify (\<lambda>s. s\<lparr>protocol := int (unat proto), pageCount := n, pageSize := sz\<rparr>)) (\<lambda>_. open_replica E)) (\<lambda>_. r_typed)"
      using that by (intro safe_modify_bind [where P' = r_pre] safe_conseq [OF typed_open_replica])
        (auto simp: r_typing r_pre_def)
    ultimately show "safe X r_left (\<lambda>s. r_fresh_run s \<and> protocol s = p) (if int (unat proto) > p then propose_protocol
        else seq (modify (\<lambda>s. s\<lparr>protocol := int (unat proto), pageCount := n, pageSize := sz\<rparr>)) (\<lambda>_. open_replica E)) (\<lambda>_. r_typed)"
      by (intro safe_if) (auto elim: safe_conseq)
  qed
  show "safe X r_left (\<lambda>s. r_unpaged s \<and> \<not> db s) (seq (modify (\<lambda>s. s\<lparr>pIns := None\<rparr>)) (\<lambda>_. seq rd_byte (\<lambda>proto.
      seq rd_pow2 (\<lambda>szOPage. seq rd_u32 (\<lambda>nOPage. seq (gets protocol) (\<lambda>p. if int (unat proto) > p then propose_protocol
      else seq (modify (\<lambda>s. s\<lparr>protocol := int (unat proto), pageCount := nOPage, pageSize := szOPage\<rparr>)) (\<lambda>_. open_replica E))))))) (\<lambda>_. r_typed)"
    by (rule safe_modify_bind [where P' = r_fresh_run], simp add: r_typing, rule safe_seq, (intro safe_intros)[1],
        rule safe_value_bind [OF _ rd_pow2_Val], (intro safe_intros)[1], assumption, rule safe_seq, (intro safe_intros)[1],
        rule adopt)
qed

section \<open>The order of the origin's messages\<close>

text \<open>
  What the replica needs of its peer: no page, detail, ready or transaction before an accepted
  ORIGIN_BEGIN, and no ORIGIN_BEGIN once pages were received.
\<close>

definition may_take :: "'w replica \<Rightarrow> byte \<Rightarrow> bool" where
  "may_take s c \<longleftrightarrow> (c \<in> {OriginPage, OriginTxn, OriginDetail, OriginReady} \<longrightarrow> db s) \<and>
     (c = OriginBegin \<longrightarrow> ClosePIns \<notin> set (defers s))"

lemma typed_on_origin_txn: "typed X r_left r_open (on_origin_txn E)"
  unfolding on_origin_txn_def truncate_replica_def
  by (rule safe_seq, (intro safe_intros)[1], rule safe_gets_bind) (intro safe_intros; simp add: r_typing)

lemma typed_prepare_insert:
  "safe X r_left (\<lambda>s. r_open s \<and> pIns s = v) (cond (v = None) (seq (try_val (prepare E insertPageSQL)) (\<lambda>st.
     seq (modify (\<lambda>s. s\<lparr>pIns := Some st\<rparr>)) (\<lambda>_. push_defer ClosePIns)))) (\<lambda>_. r_paged)"
proof (cases v)
  case None
  have "safe X r_left r_open (seq (try_val (prepare E insertPageSQL)) (\<lambda>st.
     seq (modify (\<lambda>s. s\<lparr>pIns := Some st\<rparr>)) (\<lambda>_. push_defer ClosePIns))) (\<lambda>_. r_paged)"
    by (rule safe_prepare_bind, (intro safe_intros)[1], (intro safe_intros)[1], rule safe_modify_bind [where P' = r_paged])
      (auto simp: r_typing holds_def intro!: typed_push_defer)
  with None show ?thesis by (auto elim: safe_conseq)
next
  case (Some st)
  then show ?thesis by (auto simp: r_typing holds_def intro!: safe_ret)
qed

lemma typed_on_origin_page: "safe {outOfRange} r_left r_open (on_origin_page E) (\<lambda>_. r_open)"
proof -
  have "safe {outOfRange} r_left r_open (on_origin_page E) (\<lambda>_. r_paged)"
    unfolding on_origin_page_def
    by (rule safe_seq, (intro safe_intros)[1], rule safe_gets_eq, rule safe_bind [OF typed_prepare_insert],
        rule safe_seq, rule typed_gets, rule safe_seq, (intro safe_intros)[1], rule safe_seq, rule typed_gets,
        rule safe_seq, (intro safe_intros; simp add: outOfRange_def)[1], rule safe_seq, (intro safe_intros; simp add: outOfRange_def)[1],
        rule safe_seq, rule typed_modify, simp add: r_typing, rule safe_gets_bind)
      (intro safe_intros; simp add: r_typing holds_def, blast?)
  then show ?thesis by (rule safe_conseq) (simp_all add: r_paged_def)
qed

lemma typed_replica_handle: "safe {outOfRange} r_left (\<lambda>s. r_typed s \<and> may_take s c) (replica_handle E c) (\<lambda>_. r_typed)"
proof -
  let ?P = "\<lambda>s. r_typed s \<and> may_take s c"
  have open_rule: "safe {outOfRange} r_left ?P m (\<lambda>_. r_typed)"
    if "safe {outOfRange} r_left r_open m (\<lambda>_. r_open)" "c \<in> {OriginPage, OriginTxn, OriginDetail, OriginReady}" for m
    by (rule safe_conseq [OF that(1)]) (use that(2) in \<open>auto simp: r_typed_def r_open_def may_take_def\<close>)
  have any_rule: "safe {outOfRange} r_left ?P m (\<lambda>_. r_typed)" if "safe {outOfRange} r_left r_typed m (\<lambda>_. r_typed)" for m
    by (rule safe_conseq [OF that]) simp_all
  have begin_rule: "safe {outOfRange} r_left ?P (on_origin_begin E) (\<lambda>_. r_typed)" if "c = OriginBegin"
    by (rule safe_conseq [OF typed_on_origin_begin]) (use that in \<open>auto simp: r_typing may_take_def\<close>)
  show ?thesis
    unfolding replica_handle_def on_origin_detail_def on_origin_ready_def
    by (rule safe_if, rule any_rule, (intro safe_intros)[1], rule safe_if, rule any_rule, (intro safe_intros)[1],
        rule safe_if, rule any_rule, (intro safe_intros)[1], rule safe_if, rule begin_rule, assumption,
        rule safe_if, rule open_rule, (intro safe_intros)[1], simp,
        rule safe_if, rule open_rule, (intro safe_intros)[1], simp,
        rule safe_if, rule open_rule, rule typed_on_origin_txn, simp,
        rule safe_if, rule open_rule, rule typed_on_origin_page, simp, rule any_rule, intro safe_intros)
qed

text \<open>Along a run: every message that is taken is one the replica may take.\<close>

primrec ordered :: "'w env \<Rightarrow> nat \<Rightarrow> 'w replica \<Rightarrow> bool" where
  "ordered E 0 s = True"
| "ordered E (Suc n) s =
     (case next_message s of
        (Val c, u) \<Rightarrow> may_take u c \<and> (case replica_handle E c u of (Val _, t) \<Rightarrow> ordered E n t | _ \<Rightarrow> True)
      | _ \<Rightarrow> True)"

definition ordered_run :: "'w env \<Rightarrow> 'w replica \<Rightarrow> bool" where
  "ordered_run E s = (case replica_prologue E s of (Val _, t) \<Rightarrow> ordered E (Suc (left t)) t | _ \<Rightarrow> True)"

lemma typed_next_message: "next_message s = (r, t) \<Longrightarrow> r_typed s \<Longrightarrow> goes X (\<lambda>_. r_typed) r_left r t"
  by (rule safeD [of X r_left r_typed next_message]) (intro safe_intros)

lemma ordered_loop:
  "r_typed s \<Longrightarrow> ordered E n s \<Longrightarrow> replica_loop E n s = (r, t) \<Longrightarrow> goes {outOfRange, outOfFuel} (\<lambda>_. r_typed) r_left r t"
proof (induction n arbitrary: s)
  case (Suc n)
  obtain x u where x: "next_message s = (x, u)" by fastforce
  note g = typed_next_message [OF x Suc.prems(1), of "{outOfRange, outOfFuel}"]
  show ?case
  proof (cases x)
    case (Val c)
    obtain y v where y: "replica_handle E c u = (y, v)" by fastforce
    from Suc.prems(2) x Val have "may_take u c" by simp
    with g Val have "goes {outOfRange} (\<lambda>_. r_typed) r_left y v" by (intro safeD [OF typed_replica_handle _ y]) simp
    with Suc x y Val show ?thesis by (cases y) (auto simp: replica_step_def seq_def)
  next
    case (Return e)
    with Suc.prems x g show ?thesis by (auto simp: replica_step_def seq_def)
  next
    case (Panic p)
    with Suc.prems x g show ?thesis by (auto simp: replica_step_def seq_def)
  qed
qed auto

lemma run_defers_pins:
  assumes "ClosePIns \<in> set ds \<longrightarrow> pIns s \<noteq> None"
  shows "\<exists>e t. run_defers E pIns ds err s = (Return e, t)"
  using assms
proof (induction ds arbitrary: err s)
  case (Cons d ds)
  have "\<exists>e t. do_defer E pIns d s = (Val e, t) \<and> pIns t = pIns s"
  proof (cases d)
    case CloseDb
    then show ?thesis by (auto simp: closeDb_def split: prod.splits)
  next
    case (CloseStmt st)
    then show ?thesis by (cases st) (auto split: prod.splits)
  next
    case (CloseRows i)
    then show ?thesis by (auto simp: rows_Close_def split: prod.splits)
  next
    case ClosePIns
    with Cons.prems obtain st where st: "pIns s = Some st" by auto
    with ClosePIns show ?thesis by (cases st) (auto simp: seq_def gets_def split: prod.splits)
  qed
  then obtain e t where "do_defer E pIns d s = (Val e, t)" "pIns t = pIns s" by blast
  with Cons show ?case by (simp add: seq_def)
qed simp

definition r_before :: "'w replica \<Rightarrow> bool" where
  "r_before s \<longleftrightarrow> openRows s = None \<and> 0 \<le> protocol s \<and> protocol s \<le> ProtocolVersion \<and> defers s = [] \<and> pIns s = None \<and> \<not> db s"

lemma typed_replica_prologue: "safe {} r_left r_before (replica_prologue E) (\<lambda>_. r_typed)"
proof -
  have r: "typed {} r_left r_before (hash_Register E)"
    by (auto intro!: safeI simp: wpo_def hash_Register_def r_before_def split: prod.splits)
  have w: "wire_free r_fresh_run" "within r_fresh_run r_left" "within r_before r_left"
    by (auto simp: wire_free_def within_def r_typing r_before_def)
  have c: "safe {} r_left r_fresh_run (replica_commCheck E) (\<lambda>_. r_typed)"
    unfolding replica_commCheck_def by (intro safe_intros w)
  show ?thesis
    unfolding replica_prologue_def replica_setup_def
    by (rule safe_seq, rule typed_try_err, rule r, rule w, rule safe_modify_bind [where P' = r_fresh_run],
        simp add: r_before_def r_typing, rule safe_seq, rule typed_gets, rule safe_if, rule c,
        rule safe_seq, rule typed_modify, simp add: r_typing ProtocolVersion_def)
      (auto intro!: safeI simp: push_defer_def r_typing)
qed

lemma replica_returns:
  assumes "r_before s" and "ordered_run E s"
  shows "fst (replicaSide E s) \<in> insert (Panic outOfRange) (range Return)"
proof -
  let ?body = "role_body (replica_prologue E) (replica_loop E)"
  obtain x u where p: "replica_prologue E s = (x, u)" by fastforce
  note gp = safeD [OF typed_replica_prologue assms(1) p]
  obtain r t where b: "?body s = (r, t)" by fastforce
  have g: "goes {outOfRange, outOfFuel} (\<lambda>_. r_typed) r_left r t"
  proof (cases x)
    case (Val y)
    with b p have "replica_loop E (Suc (left u)) u = (r, t)" by (simp add: role_body_def seq_def left_def gets_def)
    with ordered_loop [of u E "Suc (left u)" r t] gp Val assms(2) p show ?thesis by (simp add: ordered_run_def)
  qed (use b p gp in \<open>auto simp: role_body_def seq_def\<close>)
  have fuel: "fst (replicaSide E s) \<noteq> Panic outOfFuel" by (rule replica_process.side_fuel)
  have side: "replicaSide E s = seq (call ?body) (\<lambda>err. seq (gets defers) (\<lambda>ds. run_defers E pIns ds err)) s"
    unfolding replica_process.side_body with_defers_def ..
  have "\<exists>e v. replicaSide E s = (Return e, v)" if "r_left t" "r = Val () \<or> r = Return y" for y
    using run_defers_pins [of "defers t" t E "None"] run_defers_pins [of "defers t" t E y] that b side
    by (auto simp: seq_def call_def gets_def r_left_def)
  moreover have "replicaSide E s = (r, t)" if "r = Panic q" for q
    using side b that by (simp add: seq_def call_def)
  moreover have "r_left t" if "r_typed t" using that by (simp add: r_typing)
  ultimately show ?thesis using g fuel by (cases r) force+
qed

section \<open>What a disordered peer does\<close>

text \<open>
  A message that needs the connection, taken before an ORIGIN_BEGIN was accepted: its operands are read,
  then the nil connection is dereferenced.
\<close>

definition operand_size :: "byte \<Rightarrow> nat" where
  "operand_size c = (if c = OriginDetail then 8 else if c = OriginReady then 0 else 4)"

lemma nil_db_calls:
  assumes "\<not> db s"
  shows "run E sql args s = (Panic nilPointer, s)" "prepare E sql s = (Panic nilPointer, s)"
    "sendHashMessages E i n s = (Panic nilPointer, s)" "subdivideHashRange E i n s = (Panic nilPointer, s)"
proof -
  have n: "on_db f s = (Panic nilPointer, s)" for f :: "'a \<Rightarrow> 'a \<times> 'c" using assms by (simp add: on_db_def)
  then show r: "run E sql args s = (Panic nilPointer, s)" for sql args by (simp add: run_def db_Exec_def seq_def on_db_def assms)
  show p: "prepare E sql s = (Panic nilPointer, s)" for sql
    using assms by (simp add: prepare_def db_Prepare_def seq_def on_db_def)
  then show "sendHashMessages E i n s = (Panic nilPointer, s)" by (simp add: sendHashMessages_def call_def try_val_def seq_def)
  show "subdivideHashRange E i n s = (Panic nilPointer, s)" using r by (simp add: subdivideHashRange_def Let_def)
qed

lemma four_bytes: "length d = 4 \<Longrightarrow> \<exists>x. d = put_u32 x"
  by (metis put_get_u32)

lemma disorder_page:
  assumes "\<not> db s" "pIns s = None" "r_live (rs_r s)" "r_avail (rs_r s) = put_u32 x @ rest"
  shows "wpo (on_origin_page E) (\<lambda>r _. r = Panic nilPointer) s"
  unfolding on_origin_page_def wpo_seq
  by (rule wpo_rd_u32 [OF assms(3,4)]) (simp add: wpo_seq assms wpo_def try_val_def seq_def nil_db_calls)

lemma disorder_txn:
  assumes "\<not> db s" "pIns s = None" "r_live (rs_r s)" "r_avail (rs_r s) = put_u32 x @ rest"
  shows "wpo (on_origin_txn E) (\<lambda>r _. r = Panic nilPointer) s"
  unfolding on_origin_txn_def wpo_seq
  by (rule wpo_rd_u32 [OF assms(3,4)]) (simp add: wpo_seq assms wpo_def try_err_def seq_def nil_db_calls)

lemma disorder_detail:
  assumes "\<not> db s" "r_live (rs_r s)" "r_avail (rs_r s) = put_u32 x @ put_u32 y @ rest"
  shows "wpo (on_origin_detail E) (\<lambda>r _. r = Panic nilPointer) s"
  unfolding on_origin_detail_def
  by (rule wpo_seq [THEN iffD2], rule wpo_rd_u32 [OF assms(2,3)], simp only: outcome.case, rule wpo_seq [THEN iffD2],
      rule wpo_rd_u32 [where x = y and rest = rest]) (simp_all add: r_now_def wpo_def try_err_def seq_def nil_db_calls assms)

lemma disorder_ready: "\<not> db s \<Longrightarrow> wpo (on_origin_ready E) (\<lambda>r _. r = Panic nilPointer) s"
  by (simp add: on_origin_ready_def wpo_def try_err_def seq_def nil_db_calls)

lemma disorder_handle:
  assumes s: "\<not> db s" "pIns s = None" "r_live (rs_r s)" "r_avail (rs_r s) = ops @ rest"
    and c: "c \<in> {OriginPage, OriginTxn, OriginDetail, OriginReady}" and ops: "length ops = operand_size c"
  shows "wpo (replica_handle E c) (\<lambda>r _. r = Panic nilPointer) s"
proof (cases "c \<in> {OriginPage, OriginTxn}")
  case True
  with ops four_bytes [of ops] obtain x where "ops = put_u32 x" by (auto simp: operand_size_def msg_byte_defs)
  with True s disorder_page [OF s(1,2,3), of x rest] disorder_txn [OF s(1,2,3), of x rest] show ?thesis
    by (auto simp: replica_handle_def msg_byte_defs)
next
  case False
  show ?thesis
  proof (cases "c = OriginDetail")
    case True
    with ops have l: "length (take 4 ops) = 4" "length (drop 4 ops) = 4" by (simp_all add: operand_size_def)
    obtain x y where "take 4 ops = put_u32 x" "drop 4 ops = put_u32 y" using four_bytes [OF l(1)] four_bytes [OF l(2)] by blast
    then have "ops = put_u32 x @ put_u32 y" by (metis append_take_drop_id)
    with True s disorder_detail [OF s(1,3), of x y rest] show ?thesis by (simp add: replica_handle_def msg_byte_defs)
  next
    case no_detail: False
    with c False s disorder_ready [OF s(1)] show ?thesis by (auto simp: replica_handle_def msg_byte_defs)
  qed
qed

lemma disorder_step:
  assumes s: "\<not> db s" "pIns s = None" "r_live (rs_r s)" "r_avail (rs_r s) = c # ops @ rest"
    and c: "c \<in> {OriginPage, OriginTxn, OriginDetail, OriginReady}" "length ops = operand_size c"
  shows "fst (replica_step E s) = Panic nilPointer"
proof -
  have "wpo (replica_step E) (\<lambda>r _. r = Panic nilPointer) s"
    unfolding replica_step_def wpo_seq
    by (rule wpo_next_message [OF s(3,4)]) (simp add: r_now_def s(1,2) disorder_handle [OF _ _ _ _ c])
  then show ?thesis by (simp add: wpo_def split: prod.splits)
qed

text \<open>The closure deferred by the first page closes the variable, which a later ORIGIN_BEGIN has set to nil.\<close>

lemma run_defers_nil:
  assumes "ClosePIns \<in> set ds" and "pIns s = None"
  shows "fst (run_defers E pIns ds err s) = Panic nilPointer"
  using assms
proof (induction ds arbitrary: err s)
  case (Cons d ds)
  show ?case
  proof (cases "d = ClosePIns")
    case True
    with Cons.prems show ?thesis by (simp add: seq_def gets_def panic_def)
  next
    case False
    have "\<exists>e t. do_defer E pIns d s = (Val e, t) \<and> pIns t = pIns s"
    proof (cases d)
      case (CloseStmt st)
      then show ?thesis by (cases st) (auto split: prod.splits)
    qed (use False in \<open>auto simp: closeDb_def rows_Close_def split: prod.splits\<close>)
    then obtain e t where "do_defer E pIns d s = (Val e, t)" "pIns t = pIns s" by blast
    with Cons False show ?thesis by (simp add: seq_def)
  qed
qed simp

text \<open>An ORIGIN_BEGIN that is cut off ends the run.\<close>

lemma begin_cut:
  assumes s: "r_live (rs_r s)" "r_avail (rs_r s) = [OriginBegin]" and close: "snd (e_close E (world s)) = None"
  shows "wpo (replica_step E) (\<lambda>r _. \<exists>e. r = Return e) s"
  unfolding replica_step_def wpo_seq
proof (rule wpo_next_message [OF s])
  fix r1 assume "r_now (rs_r s) [] r1"
  then have r1: "r_live r1" "r_avail r1 = []" by (simp_all add: r_now_def)
  obtain w where w: "e_close E (world s) = (w, None)" using close by (cases "e_close E (world s)") simp
  from ReadByte_end [OF r1] obtain r2 where r2: "ReadByte r1 = (r2, Inl (r_end r1))" by blast
  have "wpo (on_origin_begin E) (\<lambda>r _. \<exists>e. r = Return e) (s\<lparr>rs_r := r1\<rparr>)"
    using w r2
    by (cases "db s") (simp_all add: on_origin_begin_def wpo_def seq_def try_err_def rd_byte_def try_val_def r_op_def
        closeDb_def modify_def)
  then show "case Val OriginBegin of Val c \<Rightarrow> wpo (replica_handle E c) (\<lambda>r _. \<exists>e. r = Return e) (s\<lparr>rs_r := r1\<rparr>)
    | Return e \<Rightarrow> \<exists>e'. Return e = Return e' | Panic p \<Rightarrow> \<exists>e. Panic p = Return e"
    by (simp add: replica_handle_def msg_byte_defs)
qed

end
