(* ===== verification/Faults.thy ===== *)
theory Faults
  imports ReplicaTyping
begin

text \<open>
  The databases when things go wrong. The engines here may fail at every call (\<open>origin_engine\<close> and
  \<open>replica_engine\<close> only say that what succeeds does what the statement means), the streams may break
  and the peer may send anything. Still the replica's file changes in no other way than by the COMMIT of
  an ORIGIN_TXN, and then as a whole; and the origin's pages never change.
\<close>

section \<open>What the replica's connection keeps\<close>

text \<open>
  A property of the database under the connection, together with what \<open>pIns\<close> may hold; \<open>harmless D st\<close>:
  the statement keeps the property.
\<close>

definition holding :: "('w \<Rightarrow> rdb) \<Rightarrow> (rdb \<Rightarrow> bool) \<Rightarrow> 'w replica \<Rightarrow> bool" where
  "holding rdb_of D s \<longleftrightarrow> D (rdb_of (world s)) \<and> (pIns s = None \<or> holds (pIns s) insertPageSQL)"

definition harmless :: "(rdb \<Rightarrow> bool) \<Rightarrow> rstmt \<Rightarrow> bool" where
  "harmless D st \<longleftrightarrow> st \<noteq> RCommit \<and> (\<forall>d d'. D d \<longrightarrow> r_exec st d = Done d' \<longrightarrow> D d')"

text \<open>The file as it was; the file and the pages the connection shows as they were.\<close>

definition file_is :: "pages \<Rightarrow> rdb \<Rightarrow> bool" where
  "file_is F d \<longleftrightarrow> r_file d = F"

definition views :: "pages \<Rightarrow> pages \<Rightarrow> rdb \<Rightarrow> bool" where
  "views F W d \<longleftrightarrow> r_file d = F \<and> r_work d = W"

text \<open>
  What an ORIGIN_TXN that announces \<open>n\<close> pages commits: what the connection shows, cut when pages were
  received. Afterwards the file is the old one or that with the stamp of a commit; after a success it is
  the latter.
\<close>

definition committed :: "('w \<Rightarrow> rdb) \<Rightarrow> 'w replica \<Rightarrow> u32 \<Rightarrow> pages" where
  "committed rdb_of s n = (if pIns s = None \<or> n = 0xffffffff then r_work (rdb_of (world s))
     else take (unat n) (r_work (rdb_of (world s))))"

definition txn_done :: "('w \<Rightarrow> rdb) \<Rightarrow> 'w replica \<Rightarrow> u32 \<Rightarrow> unit outcome \<Rightarrow> 'w replica \<Rightarrow> bool" where
  "txn_done rdb_of s n r t \<longleftrightarrow>
     (r_file (rdb_of (world t)) = r_file (rdb_of (world s)) \<or> restamped (committed rdb_of s n) (r_file (rdb_of (world t)))) \<and>
     (r = Val () \<longrightarrow> restamped (committed rdb_of s n) (r_file (rdb_of (world t))))"

lemma option_done_eq [simp]: "option_done x = Done y \<longleftrightarrow> x = Some y"
  by (cases x) simp_all

lemma harmless_file: "st \<noteq> RCommit \<Longrightarrow> harmless (file_is F) st"
proof -
  assume st: "st \<noteq> RCommit"
  have "r_file d' = r_file d" if "r_exec st d = Done d'" for d d'
    using st that by (cases st) (auto simp: attach_file_def bind_eq_Some_conv split: if_splits)
  with st show ?thesis by (simp add: harmless_def file_is_def)
qed

lemma harmless_views:
  "harmless (views F W) RDeleteSend" "harmless (views F W) (RSubdivide a k b e k')"
  by (auto simp: harmless_def views_def split: if_splits)

lemma keeps_gets_bind: "(\<And>s. P s \<Longrightarrow> keeps P (k (f s))) \<Longrightarrow> keeps P (seq (gets f) k)"
  by (auto simp: keeps_def seq_def)

lemma keeps_call [keeps_intros]: "keeps P m \<Longrightarrow> keeps P (call m)"
  by (auto simp: keeps_def call_def split: prod.splits outcome.splits)

lemma keeps_deferred [keeps_intros]: "keeps P m \<Longrightarrow> keeps P d \<Longrightarrow> keeps P (deferred d m)"
  unfolding keeps_def deferred_def by (auto split: prod.splits outcome.splits)

lemma keeps_try_err [keeps_intros]: "keeps P m \<Longrightarrow> keeps P (try_err m)"
  unfolding try_err_def by (intro keeps_intros)

lemma keeps_try_val [keeps_intros]: "keeps P m \<Longrightarrow> keeps P (try_val m)"
  unfolding try_val_def by (intro keeps_intros)

text \<open>Nothing that happens on the streams touches the database.\<close>

lemma holding_streams [simp]:
  "holding rdb_of D (s\<lparr>rs_r := r\<rparr>) = holding rdb_of D s" "holding rdb_of D (s\<lparr>rs_w := w\<rparr>) = holding rdb_of D s"
  by (simp_all add: holding_def)

lemma keeps_streams [keeps_intros]:
  fixes rdb_of :: "'w \<Rightarrow> rdb" and D :: "rdb \<Rightarrow> bool" and P
  defines "P \<equiv> holding rdb_of D"
  shows "keeps P rd_byte" "keeps P rd_u32" "keeps P rd_pow2" "keeps P (rd_bytes n)" "keeps P rd_message" "keeps P next_message"
    "keeps P (wr_byte b)" "keeps P (wr_u32 x)" "keeps P (wr_bytes p)" "keeps P wr_flush" "keeps P (w_op g)"
    "keeps P (wr_message m q)" "keeps P (write_error m t)" "keeps P (fail m t)"
proof -
  have r: "keeps P (r_op f)" for f :: "Reader \<Rightarrow> Reader \<times> 'c" by (auto simp: P_def keeps_def r_op_def split: prod.splits)
  have w: "keeps P (w_op g)" for g :: "Writer \<Rightarrow> Writer \<times> 'd" by (auto simp: P_def keeps_def w_op_def split: prod.splits)
  show "keeps P rd_byte" "keeps P rd_u32" "keeps P rd_pow2" "keeps P (rd_bytes n)" "keeps P rd_message" "keeps P next_message"
    unfolding rd_byte_def rd_u32_def rd_pow2_def rd_bytes_def rd_message_def next_message_def by (intro keeps_intros r)+
  show "keeps P (wr_byte b)" "keeps P (wr_u32 x)" "keeps P (wr_bytes p)" "keeps P wr_flush" "keeps P (w_op g)"
    "keeps P (wr_message m q)" "keeps P (write_error m t)" "keeps P (fail m t)"
    unfolding wr_byte_def wr_u32_def wr_bytes_def wr_flush_def wr_message_def write_error_def fail_def
    by (intro keeps_intros w)+
qed

context replica_engine
begin

abbreviation keeping :: "(rdb \<Rightarrow> bool) \<Rightarrow> ('w replica, 'a) gom \<Rightarrow> bool" where
  "keeping D \<equiv> keeps (holding rdb_of D)"

lemma keeping_on_db:
  "(\<And>w. D (rdb_of w) \<Longrightarrow> D (rdb_of (fst (f w)))) \<Longrightarrow> keeping D (on_db f)"
  by (auto simp: keeps_def on_db_def holding_def split: prod.splits) (metis fst_conv)+

lemma keeping_exec:
  assumes "harmless D st"
  shows "keeping D (db_Exec E (rsql st) (rargs st))"
  unfolding db_Exec_def
proof (rule keeping_on_db)
  fix w assume d: "D (rdb_of w)"
  obtain w' e where e: "e_exec E w (rsql st) (rargs st) = (w', e)" by fastforce
  show "D (rdb_of (fst (e_exec E w (rsql st) (rargs st))))"
    using r_exec_ok [of w st w'] r_exec_err [of w st w'] assms d e by (cases e) (auto simp: harmless_def)
qed

lemma keeping_run:
  assumes "harmless D st"
  shows "keeping D (run E (rsql st) (rargs st))"
  unfolding run_def by (intro keeps_intros keeping_exec assms) (simp add: holding_def)

lemma keeping_query:
  "keeping D (db_Query E (rsql st) (rargs st))"
proof -
  have o: "keeping D (on_db (\<lambda>w. e_query E w (rsql st) (rargs st)))"
    by (rule keeping_on_db) (metis r_query prod.collapse)
  show ?thesis unfolding db_Query_def
    by (intro keeps_intros o) (simp add: keeps_def holding_def)
qed

lemma keeping_rows_Close [keeps_intros]: "keeping D (rows_Close E i)"
proof (rule keepsI)
  fix s assume s: "holding rdb_of D s"
  obtain w e where w: "e_rows_close E (world s) = (w, e)" by fastforce
  with r_rows_close [of "world s"] s show "holding rdb_of D (snd (rows_Close E i s))"
    by (simp add: rows_Close_def holding_def)
qed

lemma keeping_row:
  "keeping D (db_QueryRow E (rsql st) (rargs st) scan)"
  unfolding db_QueryRow_def by (intro keeps_intros keeping_query) (simp add: holding_def)

lemma keeping_returns:
  assumes "rargs st = []"
  shows "keeping D (runReturnUInt E (rsql st))" "keeping D (runReturnText E (rsql st))"
  unfolding runReturnUInt_def runReturnText_def
  by (intro keeps_intros keeping_row [of D st, unfolded assms])+

lemma keeping_prepare [keeps_intros]: "keeping D (prepare E sql)"
proof -
  have o: "keeping D (on_db (\<lambda>w. e_prepare E w sql))" by (rule keeping_on_db) (simp add: r_prepare)
  show ?thesis unfolding prepare_def db_Prepare_def
    by (intro keeps_intros o) (simp add: keeps_def holding_def)
qed

lemma keeping_stmt_Close [keeps_intros]: "keeping D (stmt_Close E st)"
proof (rule keepsI)
  fix s assume s: "holding rdb_of D s"
  obtain k sql where st: "st = Stmt k sql" by (cases st)
  obtain w e where w: "e_stmt_close E (world s) sql = (w, e)" by fastforce
  with r_stmt_close [of "world s" sql] s show "holding rdb_of D (snd (stmt_Close E st s))"
    by (simp add: st holding_def)
qed

lemma keeping_insert:
  assumes "harmless D (RInsertPage p d)"
  shows "keeping D (stmt_Exec E (Some (Stmt i insertPageSQL)) [SInt p, SBlob d])"
  unfolding stmt_Exec_def using keeping_exec [OF assms] by simp

lemma keeping_truncate:
  assumes "harmless D (RTruncate p)"
  shows "keeping D (stmt_Exec E (Some (Stmt i insertPageSQL)) [SInt p, SNull])"
  unfolding stmt_Exec_def using keeping_exec [OF assms] by simp

text \<open>The statements of the handlers, one by one.\<close>

lemmas keeping_runs =
  keeping_run [of _ RWritable, unfolded rsql.simps rargs.simps] keeping_run [of _ "RAttach path" for path, unfolded rsql.simps rargs.simps]
  keeping_run [of _ REncodingLE, unfolded rsql.simps rargs.simps] keeping_run [of _ REncodingBE, unfolded rsql.simps rargs.simps]
  keeping_run [of _ RCreateSend, unfolded rsql.simps rargs.simps] keeping_run [of _ "RSetPageSize n" for n, unfolded rsql.simps rargs.simps]
  keeping_run [of _ RReadSchema, unfolded rsql.simps rargs.simps] keeping_run [of _ RBeginImm, unfolded rsql.simps rargs.simps]
  keeping_run [of _ "RAllPages n" for n, unfolded rsql.simps rargs.simps] keeping_run [of _ RFirstPage, unfolded rsql.simps rargs.simps]
  keeping_run [of _ "RSubdivide a k b e k'" for a k b e k', unfolded rsql.simps rargs.simps]
  keeping_run [of _ RDeleteSend, unfolded rsql.simps rargs.simps]

lemmas keeping_pragmas [keeps_intros] =
  keeping_returns(1) [of RPageCount, unfolded rsql.simps rargs.simps, OF refl]
  keeping_returns(2) [of RJournalMode, unfolded rsql.simps rargs.simps, OF refl]
  keeping_returns(1) [of RPageSize, unfolded rsql.simps rargs.simps, OF refl]

section \<open>The handlers of the replica\<close>

lemma keeping_prepare_bind:
  assumes "\<And>i. keeping D (k (Stmt i sql))"
  shows "keeping D (seq (try_val (prepare E sql)) k)"
proof (rule keepsI)
  fix s assume s: "holding rdb_of D s"
  have p: "keeping D (try_val (prepare E sql))" by (intro keeps_intros)
  obtain r t where r: "try_val (prepare E sql) s = (r, t)" by fastforce
  have t: "holding rdb_of D t" using keepsD [OF p s] by (simp add: r)
  show "holding rdb_of D (snd (seq (try_val (prepare E sql)) k s))"
  proof (cases r)
    case (Val st)
    with prepare_Val [of E sql s st t] r obtain i where "st = Stmt i sql" by (auto simp: holds_def)
    with Val r keepsD [OF assms t] show ?thesis by (simp add: seq_def)
  qed (simp_all add: seq_def r t)
qed

lemma keeping_openRows [keeps_intros]: "keeping D (modify (\<lambda>s. s\<lparr>openRows := x\<rparr>))"
  by (intro keeps_intros) (simp add: holding_def)

lemma keeping_push_defer [keeps_intros]: "keeping D (push_defer d)"
  unfolding push_defer_def by (intro keeps_intros) (simp add: holding_def)

lemma keeping_send_entries [keeps_intros]: "keeping D (send_entries E rows ex)"
proof (induction rows arbitrary: ex)
  case Nil
  show ?case unfolding send_entries.simps by (intro keeps_intros)
next
  case (Cons row rows)
  have "keeping D (send_entry E row ex)"
    unfolding send_entry_def by (intro keeps_intros) (simp_all add: holding_def)
  then show ?case unfolding send_entries.simps by (rule keeps_seq) (rule Cons)
qed

lemma keeping_sendHashMessages:
  assumes "harmless D RDeleteSend"
  shows "keeping D (sendHashMessages E i n)"
proof -
  have q: "keeping D (stmt_Query E (Some (Stmt k sendHashSQL)) [])" for k
    unfolding stmt_Query_def using keeping_query [of D RSendHash] by simp
  show ?thesis
    unfolding sendHashMessages_def
    by (rule keeps_call, rule keeping_prepare_bind)
      (intro keeps_intros q keeping_runs assms; simp add: holding_def)
qed

lemma keeping_subdivide:
  assumes "\<And>a k b e k'. harmless D (RSubdivide a k b e k')"
  shows "keeping D (subdivideHashRange E f n)"
  unfolding subdivideHashRange_def Let_def by (intro keeping_runs assms)

lemma keeping_detail_ready:
  assumes "\<And>a k b e k'. harmless D (RSubdivide a k b e k')" and "harmless D RDeleteSend"
  shows "keeping D (on_origin_detail E)" "keeping D (on_origin_ready E)"
  unfolding on_origin_detail_def on_origin_ready_def
  by (intro keeps_intros keeping_subdivide keeping_sendHashMessages assms)+

lemma keeping_closeDb:
  assumes "\<And>d. D d \<Longrightarrow> D (r_close d)"
  shows "keeping D (closeDb E)" "keeping D (openDb E path)"
proof -
  show "keeping D (closeDb E)"
  proof (rule keepsI)
    fix s assume s: "holding rdb_of D s"
    obtain w e where w: "e_close E (world s) = (w, e)" by fastforce
    with r_close [of "world s"] s assms show "holding rdb_of D (snd (closeDb E s))"
      by (simp add: closeDb_def holding_def)
  qed
  show "keeping D (openDb E path)"
  proof (rule keepsI)
    fix s assume s: "holding rdb_of D s"
    obtain w e where w: "e_open E (world s) path = (w, e)" by fastforce
    from r_open [OF this] w s assms show "holding rdb_of D (snd (openDb E path s))"
      by (cases e) (simp_all add: openDb_def holding_def)
  qed
qed

lemma keeping_begin:
  assumes "\<And>d. D d \<Longrightarrow> D (r_close d)" and "\<And>st. st \<noteq> RCommit \<Longrightarrow> harmless D st"
  shows "keeping D (on_origin_begin E)"
proof -
  have h: "harmless D RWritable" "harmless D (RAttach p)" "harmless D REncodingLE" "harmless D REncodingBE"
    "harmless D RCreateSend" "harmless D (RSetPageSize n)" "harmless D RReadSchema" "harmless D RBeginImm"
    "harmless D (RAllPages n)" "harmless D RFirstPage" "harmless D (RSubdivide a k b e k')" "harmless D RDeleteSend"
    for p n a k b e k'
    by (rule assms(2), simp)+
  note s = keeping_closeDb [where D = D, OF assms(1)] keeping_runs h keeping_subdivide keeping_sendHashMessages
  have a: "keeping D (attach_replica E)"
    unfolding attach_replica_def by (rule keeps_gets_bind) (intro keeps_intros s; simp add: holding_def)
  have o: "keeping D (open_replica E)"
    unfolding open_replica_def init_empty_replica_def check_replica_wal_def first_entries_def
    by (intro keeps_intros s a; simp add: holding_def)
  show ?thesis
    unfolding on_origin_begin_def propose_protocol_def
    by (intro keeps_intros s o; simp add: holding_def)
qed

lemma keeping_page:
  assumes "\<And>p d. harmless D (RInsertPage p d)"
  shows "keeping D (on_origin_page E)"
proof -
  have prep: "keeping D (seq (try_val (prepare E insertPageSQL)) (\<lambda>st. seq (modify (\<lambda>s. s\<lparr>pIns := Some st\<rparr>)) (\<lambda>_. push_defer ClosePIns)))"
    by (rule keeping_prepare_bind) (intro keeps_intros; simp add: holding_def holds_def)
  have ins: "keeping D (seq (gets pIns) (\<lambda>v. seq (stmt_Exec E v [SInt p, SBlob d]) k))"
    if "\<And>x. keeping D (k x)" for p d and k :: "goerr option \<Rightarrow> ('w replica, unit) gom"
  proof (rule keeps_gets_bind)
    fix s assume "holding rdb_of D s"
    then consider "pIns s = None" | i where "pIns s = Some (Stmt i insertPageSQL)" by (auto simp: holding_def holds_def)
    then show "keeping D (seq (stmt_Exec E (pIns s) [SInt p, SBlob d]) k)"
    proof cases
      case 1
      then show ?thesis by (simp add: stmt_Exec_def keeps_panic)
    next
      case (2 i)
      then show ?thesis by (simp only: 2) (intro keeps_intros keeping_insert assms that)
    qed
  qed
  show ?thesis
    unfolding on_origin_page_def
    by (rule keeps_seq, intro keeps_intros, rule keeps_seq, intro keeps_intros, rule keeps_seq, rule keeps_cond, rule prep,
        rule keeps_seq, intro keeps_intros, rule keeps_seq, intro keeps_intros, rule keeps_seq, intro keeps_intros,
        rule keeps_seq, intro keeps_intros, rule keeps_seq, intro keeps_intros, rule keeps_seq, rule keeps_modify,
        simp add: holding_def, rule ins, intro keeps_intros)
qed

text \<open>What one statement can have done to the database, whether it succeeded or not.\<close>

lemma exec_cases:
  assumes "db_Exec E (rsql st) (rargs st) s = (r, t)"
  obtains (unchanged) "rdb_of (world t) = rdb_of (world s)" "r \<noteq> Val None"
  | (done_) "r = Val None" "r_effect st (rdb_of (world s)) (rdb_of (world t))"
  | (failed_commit) e where "st = RCommit" "r = Val (Some e)" "restamped (r_work (rdb_of (world s))) (r_file (rdb_of (world t)))"
proof -
  obtain w x where w: "e_exec E (world s) (rsql st) (rargs st) = (w, x)" by fastforce
  show thesis
  proof (cases "db s \<and> openRows s = None")
    case False
    with assms have "t = s" "r \<noteq> Val None" by (auto simp: db_Exec_def on_db_def split: if_splits)
    with unchanged show thesis by simp
  next
    case True
    with assms w have r: "r = Val x" "world t = w" by (auto simp: db_Exec_def on_db_def)
    show thesis
    proof (cases x)
      case None
      with r w r_exec_ok [of "world s" st w] show thesis by (intro done_) auto
    next
      case (Some e)
      with w r_exec_err [of "world s" st w e]
      have "rdb_of w = rdb_of (world s) \<or> st = RCommit \<and> restamped (r_work (rdb_of (world s))) (r_file (rdb_of w))" by simp
      then show thesis
      proof
        assume "rdb_of w = rdb_of (world s)"
        with r Some show thesis by (intro unchanged) simp_all
      next
        assume "st = RCommit \<and> restamped (r_work (rdb_of (world s))) (r_file (rdb_of w))"
        with r Some show thesis by (intro failed_commit) simp_all
      qed
    qed
  qed
qed

lemma commit_effect:
  assumes "run E commitSQL [] s = (r, t)"
  shows "(r_file (rdb_of (world t)) = r_file (rdb_of (world s)) \<or> restamped (r_work (rdb_of (world s))) (r_file (rdb_of (world t)))) \<and>
    (r = Val None \<longrightarrow> restamped (r_work (rdb_of (world s))) (r_file (rdb_of (world t))))"
proof -
  obtain x u where x: "db_Exec E commitSQL [] s = (x, u)" by fastforce
  have "\<not> prefix ''ATTACH '' commitSQL" by (simp add: commitSQL_def)
  then have t: "world t = world u \<and> (r = Val None \<longrightarrow> x = Val None)"
    using assms x by (cases x) (auto simp: run_def seq_def gets_def write_error_def w_op_def split: option.splits prod.splits)
  from x have "db_Exec E (rsql RCommit) (rargs RCommit) s = (x, u)" by simp
  then show ?thesis
  proof (cases rule: exec_cases)
    case done_
    then have "restamped (r_work (rdb_of (world s))) (r_file (rdb_of (world u)))" by (simp add: commits_def)
    with t show ?thesis by simp
  qed (use t in auto)
qed

lemma truncate_effect:
  assumes "truncate_replica E v n s = (r, t)" and "holds v insertPageSQL"
  shows "r_file (rdb_of (world t)) = r_file (rdb_of (world s)) \<and>
    (r = Val () \<longrightarrow> r_work (rdb_of (world t)) =
       (if n = 0xffffffff then r_work (rdb_of (world s)) else take (unat n) (r_work (rdb_of (world s)))))"
proof (cases "n < 0xffffffff")
  case False
  moreover have "n \<le> 0xffffffff" using unsigned_less [where w = n and 'a = nat] by (simp add: word_le_nat_alt)
  ultimately have "n = 0xffffffff" by simp
  with assms show ?thesis by (simp add: truncate_replica_def ret_def)
next
  case True
  let ?p = "uint n + 1"
  obtain i where v: "v = Some (Stmt i insertPageSQL)" using assms(2) by (auto simp: holds_def)
  obtain x u where x: "db_Exec E insertPageSQL [SInt ?p, SNull] s = (x, u)" by fastforce
  have t: "world t = world u \<and> (r = Val () \<longrightarrow> x = Val None)"
    using assms(1) x True
    by (cases x) (auto simp: truncate_replica_def v stmt_Exec_def seq_def fail_def write_error_def w_op_def stop_def
        split: option.splits prod.splits)
  from x have "db_Exec E (rsql (RTruncate ?p)) (rargs (RTruncate ?p)) s = (x, u)" by simp
  then show ?thesis
  proof (cases rule: exec_cases)
    case done_
    then have "rdb_of (world u) = (rdb_of (world s))\<lparr>r_work := take (nat (uint n)) (r_work (rdb_of (world s)))\<rparr>"
      by (simp split: if_splits)
    with t True show ?thesis by auto
  qed (use t in auto)
qed

lemma txn_effect:
  assumes "on_origin_txn E s = (r, t)" and "pIns s = None \<or> holds (pIns s) insertPageSQL"
  shows "(\<exists>n u. rd_u32 s = (Val n, u) \<and> txn_done rdb_of s n r t) \<or> r_file (rdb_of (world t)) = r_file (rdb_of (world s)) \<and> r \<noteq> Val ()"
proof -
  obtain x u where x: "rd_u32 s = (x, u)" by fastforce
  then have u: "world u = world s \<and> pIns u = pIns s"
    by (auto simp: rd_u32_def try_val_def r_op_def seq_def stop_def ret_def split: prod.splits sum.splits)
  show ?thesis
  proof (cases x)
    case (Val n)
    have "txn_done rdb_of s n r t"
    proof (cases "pIns s = None")
      case True
      obtain y w where y: "run E commitSQL [] u = (y, w)" by fastforce
      with assms(1) x Val u True have "world t = world w \<and> (r = Val () \<longrightarrow> y = Val None)"
        by (cases y) (auto simp: on_origin_txn_def seq_def gets_def try_err_def chk_def stop_def ret_def split: option.splits)
      with commit_effect [OF y] u True show ?thesis by (auto simp: txn_done_def committed_def)
    next
      case False
      obtain y w where y: "truncate_replica E (pIns s) n u = (y, w)" by fastforce
      note e = truncate_effect [OF y] 
      show ?thesis
      proof (cases "y = Val ()")
        case True
        obtain z v where z: "run E commitSQL [] (w\<lparr>pageCount := n\<rparr>) = (z, v)" by fastforce
        with assms(1) x Val u False y True have t: "world t = world v \<and> (r = Val () \<longrightarrow> z = Val None)"
          by (cases z) (auto simp: on_origin_txn_def seq_def gets_def try_err_def chk_def stop_def ret_def modify_def
              split: option.splits)
        from e assms(2) False True u have "r_file (rdb_of (world w)) = r_file (rdb_of (world s))"
          "r_work (rdb_of (world w)) = committed rdb_of s n" by (auto simp: committed_def)
        with commit_effect [OF z] t show ?thesis by (auto simp: txn_done_def)
      next
        case bad: False
        with assms(1) x Val u False y have "world t = world w \<and> r \<noteq> Val ()"
          by (cases y) (auto simp: on_origin_txn_def seq_def gets_def)
        with e assms(2) False u show ?thesis by (auto simp: txn_done_def)
      qed
    qed
    with x Val show ?thesis by blast
  qed (use assms(1) x u in \<open>auto simp: on_origin_txn_def seq_def\<close>)
qed

text \<open>Every message but ORIGIN_TXN leaves the file alone; most leave the pages alone as well.\<close>

lemma keeping_handle:
  assumes "c \<noteq> OriginTxn"
  shows "keeping (file_is F) (replica_handle E c)"
proof -
  have close: "file_is F d \<Longrightarrow> file_is F (r_close d)" for d by (simp add: file_is_def r_close_def)
  show ?thesis
    unfolding replica_handle_def
    by (intro keeps_intros keeping_begin keeping_detail_ready keeping_page harmless_file close) (simp_all add: assms)
qed

lemma keeping_pages:
  assumes "c \<notin> {OriginTxn, OriginBegin, OriginPage}"
  shows "keeping (views F W) (replica_handle E c)"
  unfolding replica_handle_def
  by (intro keeps_intros keeping_detail_ready harmless_views) (use assms in simp_all)

lemma registers_nothing: "rdb_of (fst (registerFunctions (e_scalar E) (e_aggregate E) w)) = rdb_of w"
proof -
  obtain w1 x where w1: "e_scalar E w ''hash'' 1 = (w1, x)" by fastforce
  have "rdb_of w1 = rdb_of w" using r_scalar [of w "''hash''" 1] w1 by simp
  with w1 r_aggregate [of w1 "''agghash''" 1 True] show ?thesis by (cases x) (simp_all add: registerFunctions_def)
qed

lemma keeping_register [keeps_intros]: "keeping D (hash_Register E)"
proof (rule keepsI)
  fix s assume s: "holding rdb_of D s"
  obtain d e where d: "registerFunctions (e_scalar E) (e_aggregate E) (world s) = (d, e)" by fastforce
  with registers_nothing [of "world s"] s show "holding rdb_of D (snd (hash_Register E s))"
    by (simp add: hash_Register_def Register_def holding_def)
qed

lemma keeping_prologue [keeps_intros]: "keeping D (replica_prologue E)"
  unfolding replica_prologue_def replica_commCheck_def replica_setup_def
  by (intro keeps_intros) (simp_all add: holding_def)

lemma keeping_defers [keeps_intros]:
  assumes "\<And>d. D d \<Longrightarrow> D (r_close d)"
  shows "keeping D (run_defers E pIns ds err)"
proof (induction ds arbitrary: err)
  case Nil
  show ?case unfolding run_defers.simps by (intro keeps_intros)
next
  case (Cons d ds)
  have "keeping D (do_defer E pIns d)"
    by (cases d) (simp_all, (intro keeps_intros keeping_closeDb assms; assumption)+)
  then show ?case unfolding run_defers.simps by (intro keeps_intros Cons)
qed

end

section \<open>A page that was accepted\<close>

lemma seq_Val_elim:
  assumes "seq m k s = (Val x, t)"
  obtains y u where "m s = (Val y, u)" "k y u = (Val x, t)"
  using assms by (auto simp: seq_def split: prod.splits outcome.splits)

lemma cond_Val_elim:
  assumes "seq (cond b m) k s = (Val x, t)"
  obtains u where "k () u = (Val x, t)" "b \<and> m s = (Val (), u) \<or> \<not> b \<and> u = s"
  using assms by (cases b) (auto simp: ret_def elim: seq_Val_elim)

lemma rd_u32_took: "rd_u32 s = (Val x, t) \<Longrightarrow> \<exists>r. t = s\<lparr>rs_r := r\<rparr> \<and> took (rs_r s) (put_u32 x) r"
  unfolding rd_u32_def by (drule try_val_Val) (auto simp: r_op_def dest!: ReadUint32_ok split: prod.splits)

lemma rd_bytes_took: "rd_bytes n s = (Val d, t) \<Longrightarrow> \<exists>r. t = s\<lparr>rs_r := r\<rparr> \<and> took (rs_r s) d r \<and> int (length d) = n"
  unfolding rd_bytes_def by (drule try_val_Val) (auto simp: r_op_def dest!: ReadBytes_ok split: prod.splits)

text \<open>
  The transaction shows the former pages with the received one in place. The one exception is page 1 of
  a replica in WAL mode: its version bytes 18 and 19, when the received page says 1 there, are 2.
\<close>

definition page_written :: "('w \<Rightarrow> rdb) \<Rightarrow> 'w replica \<Rightarrow> 'w replica \<Rightarrow> bool" where
  "page_written rdb_of s t \<longleftrightarrow>
     (\<exists>p d. r_avail (rs_r s) = put_u32 p @ d @ r_avail (rs_r t) \<and> int (length d) = pageSize s \<and>
        r_work (rdb_of (world t)) = write_page (r_psize (rdb_of (world s))) (uint p)
          (if p = 1 \<and> jMode s = 2 \<and> d ! 18 = 1 then d[18 := 2, 19 := 2] else d) (r_work (rdb_of (world s))))"

context replica_engine
begin

lemma prepare_keeps:
  assumes "prepare E sql s = (Val (Inr st), t)"
  shows "rdb_of (world t) = rdb_of (world s) \<and> rs_r t = rs_r s \<and> jMode t = jMode s \<and> pageSize t = pageSize s \<and> pIns t = pIns s"
  using assms r_prepare [of "world s" sql]
  by (auto simp: prepare_def db_Prepare_def on_db_def seq_def gets_def ret_def write_error_def w_op_def
      split: prod.splits option.splits sum.splits outcome.splits if_splits)

lemma exec_success:
  assumes "db_Exec E (rsql st) (rargs st) s = (Val None, t)" and "st \<noteq> RCommit"
  shows "r_exec st (rdb_of (world s)) = Done (rdb_of (world t)) \<and> rs_r t = rs_r s"
proof
  show "r_exec st (rdb_of (world s)) = Done (rdb_of (world t))" using assms(1) by (cases rule: exec_cases) (use assms(2) in auto)
  show "rs_r t = rs_r s" using assms(1) by (auto simp: db_Exec_def on_db_def split: if_splits prod.splits)
qed

lemma insert_success:
  assumes "stmt_Exec E v [SInt p, SBlob d] s = (Val None, t)" and "v = None \<or> holds v insertPageSQL"
  shows "r_work (rdb_of (world t)) = write_page (r_psize (rdb_of (world s))) p d (r_work (rdb_of (world s))) \<and>
    rs_r t = rs_r s"
proof -
  from assms have "db_Exec E (rsql (RInsertPage p d)) (rargs (RInsertPage p d)) s = (Val None, t)"
    by (auto simp: stmt_Exec_def holds_def panic_def)
  from exec_success [OF this] show ?thesis by (auto split: if_splits dest!: sym [of _ "rdb_of (world t)"])
qed

lemma prepare_insert_effect:
  assumes "cond (v = None) (seq (try_val (prepare E insertPageSQL)) (\<lambda>st.
      seq (modify (\<lambda>s. s\<lparr>pIns := Some st\<rparr>)) (\<lambda>_. push_defer ClosePIns))) s = (Val x, t)"
    and "v = pIns s" and "pIns s = None \<or> holds (pIns s) insertPageSQL"
  shows "rdb_of (world t) = rdb_of (world s) \<and> rs_r t = rs_r s \<and> jMode t = jMode s \<and> pageSize t = pageSize s \<and>
    holds (pIns t) insertPageSQL"
proof (cases "v = None")
  case True
  with assms(1) obtain st u where st: "try_val (prepare E insertPageSQL) s = (Val st, u)"
    and t: "t = u\<lparr>pIns := Some st, defers := ClosePIns # defers u\<rparr>"
    by (auto simp: push_defer_def modify_def elim!: seq_Val_elim)
  from prepare_Val [OF st] prepare_keeps [OF try_val_Val [OF st]] t show ?thesis by (simp add: holds_def)
next
  case False
  with assms(1) have "t = s" by (simp add: cond_def ret_def)
  with False assms(2,3) show ?thesis by auto
qed

lemma guard_Val: "cond b (panic p) s = (Val x, t) \<Longrightarrow> t = s"
  by (cases b) (simp_all add: panic_def ret_def)

lemma page_effect:
  assumes "on_origin_page E s = (Val (), t)" and ok: "pIns s = None \<or> holds (pIns s) insertPageSQL"
  shows "page_written rdb_of s t"
proof -
  from assms(1) obtain p u ub d ud yj uj where
    1: "rd_u32 s = (Val p, u)" and
    2: "cond (pIns u = None) (seq (try_val (prepare E insertPageSQL)) (\<lambda>st.
      seq (modify (\<lambda>s. s\<lparr>pIns := Some st\<rparr>)) (\<lambda>_. push_defer ClosePIns))) u = (Val (), ub)" and
    3: "rd_bytes (pageSize ub) ub = (Val d, ud)" and
    4: "stmt_Exec E (pIns ud) [SInt (uint p), SBlob (wal_header p (jMode ud) d)]
      (ud\<lparr>pageUpdates := pageUpdates ud + 1\<rparr>) = (Val yj, uj)" and
    5: "(case yj of None \<Rightarrow> ret () | Some e \<Rightarrow> fail ReplicaError (''SQL statement ['' @ insertPageSQL @
        ''] failed (pgno='' @ show_nat (unat p) @ ''): '' @ err_text e)) uj = (Val (), t)"
    unfolding on_origin_page_def
    by (elim seq_Val_elim) (auto simp: gets_def modify_def dest!: guard_Val)
  from rd_u32_took [OF 1] obtain r1 where u: "u = s\<lparr>rs_r := r1\<rparr>" "took (rs_r s) (put_u32 p) r1" by blast
  from prepare_insert_effect [OF 2 refl] u(1) ok have ub: "rdb_of (world ub) = rdb_of (world s)" "rs_r ub = r1"
    "jMode ub = jMode s" "pageSize ub = pageSize s" "holds (pIns ub) insertPageSQL" by simp_all
  from rd_bytes_took [OF 3] ub obtain r2 where ud: "ud = ub\<lparr>rs_r := r2\<rparr>" "took r1 d r2" "int (length d) = pageSize s" by auto
  have yj: "yj = None \<and> uj = t" using 5
    by (cases yj) (auto simp: ret_def fail_def write_error_def w_op_def seq_def stop_def split: prod.splits)
  with insert_success [of "pIns ud" "uint p" _ _ t] 4 ud(1) ub
  have "r_work (rdb_of (world t)) = write_page (r_psize (rdb_of (world s))) (uint p) (wal_header p (jMode s) d)
      (r_work (rdb_of (world s)))" "rs_r t = r2" by simp_all
  moreover have "r_avail (rs_r s) = put_u32 p @ d @ r_avail r2" using u(2) ud(2) by (simp add: took_def)
  ultimately show ?thesis using ud(3) unfolding page_written_def wal_header_kept by (auto simp: kept_wal_def)
qed

end

section \<open>The runs of the replica that commit nothing\<close>

text \<open>Whether a run takes an ORIGIN_TXN message.\<close>

primrec takes_txn :: "'w env \<Rightarrow> nat \<Rightarrow> 'w replica \<Rightarrow> bool" where
  "takes_txn E 0 s = False"
| "takes_txn E (Suc n) s =
     (case next_message s of
        (Val c, u) \<Rightarrow> c = OriginTxn \<or> (case replica_handle E c u of (Val _, t) \<Rightarrow> takes_txn E n t | _ \<Rightarrow> False)
      | _ \<Rightarrow> False)"

definition run_takes_txn :: "'w env \<Rightarrow> 'w replica \<Rightarrow> bool" where
  "run_takes_txn E s = (case replica_prologue E s of (Val _, t) \<Rightarrow> takes_txn E (Suc (left t)) t | _ \<Rightarrow> False)"

context replica_engine
begin

lemma loop_keeps_file:
  "\<not> takes_txn E n s \<Longrightarrow> holding rdb_of (file_is F) s \<Longrightarrow> holding rdb_of (file_is F) (snd (replica_loop E n s))"
proof (induction n arbitrary: s)
  case (Suc n)
  obtain x u where x: "next_message s = (x, u)" by fastforce
  have u: "holding rdb_of (file_is F) u"
    using keepsD [OF keeps_streams(6) Suc.prems(2)] x by simp
  show ?case
  proof (cases x)
    case (Val c)
    obtain y v where y: "replica_handle E c u = (y, v)" by fastforce
    from Suc.prems(1) x Val have c: "c \<noteq> OriginTxn" by simp
    have "holding rdb_of (file_is F) v" using keepsD [OF keeping_handle [OF c] u] y by simp
    with Suc x y Val show ?thesis by (cases y) (auto simp: replica_step_def seq_def)
  qed (use x u in \<open>simp_all add: replica_step_def seq_def\<close>)
qed simp

lemma side_keeps_file:
  assumes "\<not> run_takes_txn E s" and "holding rdb_of (file_is F) s"
  shows "holding rdb_of (file_is F) (snd (replicaSide E s))"
proof -
  let ?body = "role_body (replica_prologue E) (replica_loop E)"
  have close: "file_is F d \<Longrightarrow> file_is F (r_close d)" for d by (simp add: file_is_def r_close_def)
  obtain x u where x: "replica_prologue E s = (x, u)" by fastforce
  have u: "holding rdb_of (file_is F) u" using keepsD [OF keeping_prologue assms(2)] x by simp
  have "holding rdb_of (file_is F) (snd (?body s))"
    using x u assms(1) loop_keeps_file [of "Suc (left u)" u F]
    by (cases x) (simp_all add: role_body_def seq_def gets_def left_def run_takes_txn_def)
  then have b: "holding rdb_of (file_is F) (snd (call ?body s))"
    by (auto simp: call_def split: prod.splits outcome.splits)
  obtain y v where y: "call ?body s = (y, v)" by fastforce
  have "holding rdb_of (file_is F) (snd (seq (gets defers) (\<lambda>ds. run_defers E pIns ds e) v))" for e
    by (rule keepsD [of "holding rdb_of (file_is F)"]) (intro keeps_intros close, use b y in simp_all)
  with y b show ?thesis
    unfolding replica_process.side_body with_defers_def by (cases y) (simp_all add: seq_def)
qed

end

end
