(* ===== verification/Streams.thy ===== *)
theory Streams
  imports Faults
begin

text \<open>
  What a role can do to its two streams. A relation between readers and one between writers that every
  read of bytes, every write and every flush respects is respected by a whole call, however it ends
  (\<open>stream_relation\<close>). It is interpreted on the relations of a cancelled context: from then on nothing is
  taken from the transport and nothing is handed to it.
\<close>

section \<open>The interface\<close>

locale stream_relation =
  fixes rr :: "Reader \<Rightarrow> Reader \<Rightarrow> bool" and ww :: "Writer \<Rightarrow> Writer \<Rightarrow> bool"
  assumes rr_refl: "rr r r" and rr_trans: "rr r r1 \<Longrightarrow> rr r1 r2 \<Longrightarrow> rr r r2"
    and rr_read: "rr r (r\<lparr>rd := fst (io_ReadFull (rd r) n)\<rparr>)" and rr_count: "rr r (r\<lparr>bytesRead := k\<rparr>)"
    and ww_refl: "ww w w" and ww_trans: "ww w w1 \<Longrightarrow> ww w1 w2 \<Longrightarrow> ww w w2"
    and ww_write: "ww w (w\<lparr>wr := fst (bufWriter_Write (wr w) p)\<rparr>)"
    and ww_flush: "ww w (w\<lparr>wr := fst (bufWriter_Flush (wr w))\<rparr>)" and ww_count: "ww w (w\<lparr>bytesWritten := k\<rparr>)"
begin

lemma rr_counted: "rr r (r\<lparr>rd := fst (io_ReadFull (rd r) n), bytesRead := k\<rparr>)"
  using rr_trans [OF rr_read [where r = r and n = n] rr_count [where k = k]] by simp

lemma ww_counted: "ww w (w\<lparr>wr := fst (bufWriter_Write (wr w) p), bytesWritten := k\<rparr>)"
  using ww_trans [OF ww_write [where w = w and p = p] ww_count [where k = k]] by simp

lemma rr_methods: "rr r (fst (ReadByte r))" "rr r (fst (ReadUint32 r))" "rr r (fst (ReadPow2 r))"
  "rr r (fst (ReadBytes r n))" "rr r (fst (ReadMessage r))"
proof -
  show b: "rr r (fst (ReadByte r))" for r using rr_read [where r = r and n = 1] rr_counted [where r = r and n = 1]
    by (auto simp: ReadByte_def split: prod.splits option.splits)
  show u: "rr r (fst (ReadUint32 r))" for r using rr_read [where r = r and n = 4] rr_counted [where r = r and n = 4]
    by (auto simp: ReadUint32_def split: prod.splits option.splits)
  show n: "rr r (fst (ReadBytes r n))" for r n using rr_read [where r = r and n = "nat n"] rr_counted [where r = r and n = "nat n"]
    by (auto simp: ReadBytes_def rr_refl split: prod.splits option.splits)
  show "rr r (fst (ReadPow2 r))" using b [of r] by (auto simp: ReadPow2_def split: prod.splits sum.splits)
  show "rr r (fst (ReadMessage r))" using u [of r] n
    by (auto simp: ReadMessage_def split: prod.splits sum.splits intro: rr_trans)
qed

lemma ww_methods: "ww w (fst (WriteByte w b))" "ww w (fst (WriteUint32 w x))" "ww w (fst (WritePow2 w v))"
  "ww w (fst (WriteBytes w p))" "ww w (fst (Flush w))" "ww w (fst (WriteMessage w m p))" "ww w (fst (WriteError w m t))"
proof -
  show b: "ww w (fst (WriteByte w b))" for b using ww_counted [where w = w and p = "[b]"]
    by (auto simp: WriteByte_def split: prod.splits)
  show p: "ww w (fst (WriteBytes w p))" for w p using ww_write [where w = w and p = p] ww_counted [where w = w and p = p]
    by (auto simp: WriteBytes_def split: prod.splits option.splits)
  show u: "ww w (fst (WriteUint32 w x))" for w x using p by (simp add: WriteUint32_def)
  show "ww w (fst (WritePow2 w v))" using b by (simp add: WritePow2_def ww_refl)
  show f: "ww w (fst (Flush w))" for w using ww_flush [of w] by (auto simp: Flush_def split: prod.splits)
  show m: "ww w (fst (WriteMessage w m p))" for p
  proof -
    obtain o1 e1 where 1: "bufWriter_Write (wr w) [m] = (o1, e1)" by fastforce
    obtain w2 e2 where 2: "WriteUint32 (w\<lparr>wr := o1\<rparr>) (of_nat (length p)) = (w2, e2)" by fastforce
    obtain w3 e3 where 3: "WriteBytes w2 p = (w3, e3)" by fastforce
    have c1: "ww w (w\<lparr>wr := o1\<rparr>)" using ww_write [where w = w and p = "[m]"] 1 by simp
    have c2: "ww w w2" using ww_trans [OF c1 u] 2 by (metis fst_conv)
    have c3: "ww w w3" using ww_trans [OF c2 p] 3 by (metis fst_conv)
    from c1 c2 c3 ww_trans [OF c3 f] 1 2 3 show ?thesis
      by (auto simp: WriteMessage_def split: option.splits)
  qed
  show "ww w (fst (WriteError w m t))" using m [of "bytes_of t"] by (auto simp: WriteError_def split: prod.splits)
qed

section \<open>Computations\<close>

definition since :: "Reader \<Rightarrow> Writer \<Rightarrow> ('w, 'x) rsync_scheme \<Rightarrow> bool" where
  "since r w s \<longleftrightarrow> rr r (rs_r s) \<and> ww w (rs_w s)"

lemma since_ops:
  "(\<And>r. rr r (fst (f r))) \<Longrightarrow> keeps (since r0 w0) (r_op f)" "(\<And>w. ww w (fst (g w))) \<Longrightarrow> keeps (since r0 w0) (w_op g)"
  by (auto intro!: keepsI simp: r_op_def w_op_def since_def split: prod.splits) (metis fst_conv rr_trans ww_trans)+

lemma since_reads [keeps_intros]: "keeps (since r0 w0) rd_byte" "keeps (since r0 w0) rd_u32" "keeps (since r0 w0) rd_pow2"
  "keeps (since r0 w0) (rd_bytes n)" "keeps (since r0 w0) rd_message" "keeps (since r0 w0) next_message"
  unfolding rd_byte_def rd_u32_def rd_pow2_def rd_bytes_def rd_message_def next_message_def
  by (intro keeps_intros since_ops rr_methods)+

lemma since_writes [keeps_intros]: "keeps (since r0 w0) (wr_byte b)" "keeps (since r0 w0) (wr_u32 x)"
  "keeps (since r0 w0) (wr_pow2 v)" "keeps (since r0 w0) (wr_bytes p)" "keeps (since r0 w0) (wr_message m p)"
  "keeps (since r0 w0) wr_flush" "keeps (since r0 w0) (write_error m t)" "keeps (since r0 w0) (fail m t)"
  "keeps (since r0 w0) (w_op Flush)" "keeps (since r0 w0) (w_op (\<lambda>w. WriteByte w b))" 
  unfolding wr_byte_def wr_u32_def wr_pow2_def wr_bytes_def wr_message_def wr_flush_def write_error_def fail_def
  by (intro keeps_intros since_ops ww_methods)+

lemma since_fields [simp]:
  "since r0 w0 (s\<lparr>world := v\<rparr>) = since r0 w0 s" "since r0 w0 (s\<lparr>db := b\<rparr>) = since r0 w0 s"
  "since r0 w0 (s\<lparr>openRows := q\<rparr>) = since r0 w0 s" "since r0 w0 (s\<lparr>nextId := i\<rparr>) = since r0 w0 s"
  "since r0 w0 (s\<lparr>closedStmts := c\<rparr>) = since r0 w0 s" "since r0 w0 (s\<lparr>defers := ds\<rparr>) = since r0 w0 s"
  "since r0 w0 (s\<lparr>registerOnce := o1, registerResult := e\<rparr>) = since r0 w0 s" "since r0 w0 (s\<lparr>wrongEnc := b\<rparr>) = since r0 w0 s"
  by (simp_all add: since_def)

lemma since_calls [keeps_intros]: "keeps (since r0 w0) (on_db f)" "keeps (since r0 w0) (rows_Close E i)"
  "keeps (since r0 w0) (stmt_Close E st)" "keeps (since r0 w0) (closeDb E)" "keeps (since r0 w0) (openDb E path)"
  "keeps (since r0 w0) (hash_Register E)" "keeps (since r0 w0) (push_defer d)" "keeps (since r0 w0) (db_Exec E sql args)"
  by (cases st; auto simp: keeps_def on_db_def rows_Close_def closeDb_def openDb_def hash_Register_def push_defer_def
      modify_def db_Exec_def since_def split: prod.splits option.splits)+

lemma since_queries [keeps_intros]: "keeps (since r0 w0) (db_Query E sql args)" "keeps (since r0 w0) (db_Prepare E sql)"
  unfolding db_Query_def db_Prepare_def
  by (intro keeps_intros; simp add: keeps_def split: prod.splits)+

lemma since_rows [keeps_intros]:
  "(\<And>row. keeps (since r0 w0) (body row)) \<Longrightarrow> keeps (since r0 w0) (rows_loop q body)"
  "keeps (since r0 w0) (db_QueryRow E sql args scan)"
  unfolding rows_loop_def db_QueryRow_def by (intro keeps_intros; simp)+

lemma since_stmts [keeps_intros]: "keeps (since r0 w0) (stmt_Exec E v args)" "keeps (since r0 w0) (stmt_Query E v args)"
  "keeps (since r0 w0) (stmt_QueryRow E v args scan)"
  unfolding stmt_Exec_def stmt_Query_def stmt_QueryRow_def
  by (cases v; simp add: keeps_panic; split stmt.split; intro allI impI; intro keeps_intros)+

lemma since_sql [keeps_intros]: "keeps (since r0 w0) (prepare E sql)" "keeps (since r0 w0) (run E sql args)"
  "keeps (since r0 w0) (runReturnUInt E sql)" "keeps (since r0 w0) (runReturnText E sql)" "keeps (since r0 w0) (o_fail t)"
  unfolding prepare_def run_def runReturnUInt_def runReturnText_def o_fail_def by (intro keeps_intros; simp)+

section \<open>The roles\<close>

lemma since_entries [keeps_intros]: "keeps (since r0 w0) (send_entries E rows ex)"
proof (induction rows arbitrary: ex)
  case Nil
  show ?case unfolding send_entries.simps by (intro keeps_intros)
next
  case (Cons row rows)
  have "keeps (since r0 w0) (send_entry E row ex)"
    unfolding send_entry_def by (intro keeps_intros) (simp_all add: since_def)
  then show ?case unfolding send_entries.simps by (rule keeps_seq) (rule Cons)
qed

lemma since_origin_parts [keeps_intros]: "keeps (since r0 w0) send_begin" "keeps (since r0 w0) (first_hash E)"
  "keeps (since r0 w0) (match_multi E h)" "keeps (since r0 w0) (match_single E h)" "keeps (since r0 w0) (record_mismatch E)"
  "keeps (since r0 w0) (send_detail E row)" "keeps (since r0 w0) (send_page E row)" "keeps (since r0 w0) (fill_tail E)"
  "keeps (since r0 w0) (check_wal E)" "keeps (since r0 w0) (modify next_range)"
  unfolding send_begin_def first_hash_def match_multi_def match_single_def record_mismatch_def send_detail_def send_page_def
    fill_tail_def check_wal_def
  by (intro keeps_intros; simp add: since_def next_range_def Let_def)+

lemma since_origin_rounds [keeps_intros]: "keeps (since r0 w0) (send_details E)" "keeps (since r0 w0) (send_pages E)"
  unfolding send_details_def send_pages_def by (intro keeps_intros; simp)+

lemma since_origin_step: "keeps (since r0 w0) (origin_step E)"
  unfolding origin_step_def origin_handle_def on_replica_begin_def on_replica_config_def on_replica_hash_def on_replica_ready_def
  by (intro keeps_intros; simp add: since_def)

lemma since_origin_prologue: "keeps (since r0 w0) (origin_prologue E)"
  unfolding origin_prologue_def origin_commCheck_def origin_setup_def
  by (intro keeps_intros; (simp add: since_def keeps_def split: prod.splits)?)

lemma since_rounds [keeps_intros]: "keeps (since r0 w0) (sendHashMessages E i n)" "keeps (since r0 w0) (subdivideHashRange E f k)"
  unfolding sendHashMessages_def subdivideHashRange_def Let_def by (intro keeps_intros; simp add: since_def)+

lemma since_replica_parts [keeps_intros]: "keeps (since r0 w0) (attach_replica E)" "keeps (since r0 w0) (init_empty_replica E)"
  "keeps (since r0 w0) (check_replica_wal E n)" "keeps (since r0 w0) (first_entries E n)"
  "keeps (since r0 w0) propose_protocol" "keeps (since r0 w0) (truncate_replica E v n)"
  unfolding attach_replica_def init_empty_replica_def check_replica_wal_def first_entries_def propose_protocol_def truncate_replica_def
  by (intro keeps_intros; simp add: since_def)+

lemma since_open_replica [keeps_intros]: "keeps (since r0 w0) (open_replica E)"
  unfolding open_replica_def by (intro keeps_intros; simp)

lemma since_replica_step: "keeps (since r0 w0) (replica_step E)"
  unfolding replica_step_def replica_handle_def on_origin_begin_def on_origin_detail_def on_origin_ready_def on_origin_txn_def
    on_origin_page_def
  by (intro keeps_intros; simp add: since_def)

lemma since_replica_prologue: "keeps (since r0 w0) (replica_prologue E)"
  unfolding replica_prologue_def replica_commCheck_def replica_setup_def
  by (intro keeps_intros; simp add: since_def)

lemma since_do_defer [keeps_intros]: "keeps (since r0 w0) (do_defer E pins d)"
  by (cases d) (simp; intro keeps_intros; simp)+

lemma since_run_defers [keeps_intros]: "keeps (since r0 w0) (run_defers E pins ds e)"
  by (induction ds arbitrary: e) (simp; intro keeps_intros; simp)+

lemma since_loops: "keeps (since r0 w0) (origin_loop E n)" "keeps (since r0 w0) (replica_loop E n)"
  by (induction n) (simp_all add: keeps_panic keeps_seq since_origin_step since_replica_step)

lemma since_sides: "keeps (since r0 w0) (originSide E)" "keeps (since r0 w0) (replicaSide E)"
  unfolding originSide_def replicaSide_def origin_body_prologue replica_body_prologue with_defers_def
  by (intro keeps_intros since_loops since_origin_prologue since_replica_prologue)+

lemmas since_all = since_sides since_loops since_origin_step since_replica_step since_origin_prologue since_replica_prologue

lemma sinceD: "keeps (since (rs_r s) (rs_w s)) m \<Longrightarrow> m s = (x, t) \<Longrightarrow> rr (rs_r s) (rs_r t) \<and> ww (rs_w s) (rs_w t)"
  using keepsD [of "since (rs_r s) (rs_w s)" m s] by (simp add: since_def rr_refl ww_refl)

end

end
