(* ===== verification/Cancel.thy ===== *)
theory Cancel
  imports Streams Adequacy
begin

text \<open>
  A cancelled context. The stream below both \<open>bufio\<close> buffers refuses every further read and write, so all
  a role can still do is work off the bytes it has buffered: nothing is sent any more, and what is left of
  the buffer bounds the messages it can still handle.
\<close>

section \<open>The relations of a cancelled context\<close>

definition r_cancelled :: "Reader \<Rightarrow> bool" where
  "r_cancelled r \<longleftrightarrow> passes (in_ctx (br_src (rd r))) = Some 0"

definition w_cancelled :: "Writer \<Rightarrow> bool" where
  "w_cancelled w \<longleftrightarrow> passes (out_ctx (bw_out (wr w))) = Some 0"

definition r_fits :: "Reader \<Rightarrow> bool" where
  "r_fits r \<longleftrightarrow> length (br_buf (rd r)) \<le> bufSize"

definition idle_r :: "Reader \<Rightarrow> Reader \<Rightarrow> bool" where
  "idle_r r r' \<longleftrightarrow> (r_fits r \<longrightarrow> r_fits r') \<and> (r_cancelled r \<longrightarrow> br_src (rd r') = br_src (rd r))"

definition idle_w :: "Writer \<Rightarrow> Writer \<Rightarrow> bool" where
  "idle_w w w' \<longleftrightarrow> (w_cancelled w \<longrightarrow> bw_out (wr w') = bw_out (wr w))"

lemma ctx_Err_cancelled: "passes c = Some 0 \<Longrightarrow> ctx_Err c = (c, Some (ctx_error c))"
  by (simp add: ctx_Err_def)

lemma ctxStream_cancelled:
  "passes (in_ctx i) = Some 0 \<Longrightarrow> ctxStream_Read i n = (i, [], Some (ctx_error (in_ctx i)))"
  "passes (out_ctx s) = Some 0 \<Longrightarrow> ctxStream_Write s p = (s, 0, Some (ctx_error (out_ctx s)))"
  by (simp_all add: ctxStream_Read_def ctxStream_Write_def ctx_Err_cancelled)

lemma ctxStream_Read_idle:
  "ctxStream_Read i n = (i', d, e) \<Longrightarrow> length d \<le> n \<and> (passes (in_ctx i) = Some 0 \<longrightarrow> i' = i)"
  by (auto simp: ctx_Err_cancelled ctxStream_Read_def rw_Read_def split: prod.splits option.splits list.splits if_splits)

lemma bufReader_Read_idle:
  assumes "bufReader_Read b n = (b', d, e)"
  shows "(length (br_buf b) \<le> bufSize \<longrightarrow> length (br_buf b') \<le> bufSize) \<and>
    (passes (in_ctx (br_src b)) = Some 0 \<longrightarrow> br_src b' = br_src b)"
  using assms
  by (auto simp: bufReader_Read_def ctxStream_cancelled split: if_splits prod.splits option.splits
      dest!: ctxStream_Read_idle)

lemma ReadFull_loop_idle:
  "ReadFull_loop b n acc = (b', d, e) \<Longrightarrow> (length (br_buf b) \<le> bufSize \<longrightarrow> length (br_buf b') \<le> bufSize) \<and>
    (passes (in_ctx (br_src b)) = Some 0 \<longrightarrow> br_src b' = br_src b)"
proof (induction b n acc rule: ReadFull_loop.induct)
  case (1 b n acc)
  show ?case
  proof (cases "n \<le> length acc")
    case True
    with 1 show ?thesis by (auto simp: ReadFull_loop.simps)
  next
    case False
    obtain b1 d1 e1 where r: "bufReader_Read b (n - length acc) = (b1, d1, e1)" by (metis prod_cases3)
    from False r "1.prems" "1.IH" [OF False r [symmetric] refl] bufReader_Read_idle [OF r] show ?thesis
      by (cases e1) (auto simp: ReadFull_loop.simps [of b])
  qed
qed

lemma bufWriter_Flush_idle:
  "passes (out_ctx (bw_out b)) = Some 0 \<Longrightarrow> bw_out (fst (bufWriter_Flush b)) = bw_out b"
  by (simp add: bufWriter_Flush_def ctxStream_cancelled Let_def split: option.splits)

lemma bufWriter_Write_idle:
  "passes (out_ctx (bw_out b)) = Some 0 \<Longrightarrow> bw_out (fst (bufWriter_Write b p)) = bw_out b"
proof (induction b p rule: bufWriter_Write.induct)
  case (1 b p)
  show ?case
  proof (cases "length p > bufSize - length (bw_buf b) \<and> bw_err b = None")
    case False
    then show ?thesis by (cases "bw_err b") (auto simp: bufWriter_Write.simps [of b])
  next
    case spill: True
    show ?thesis
    proof (cases "bw_buf b = []")
      case True
      from "1.IH"(1) [OF spill True ctxStream_cancelled(2) [OF "1.prems", symmetric] refl] spill True "1.prems"
      show ?thesis by (simp add: bufWriter_Write.simps [of b] ctxStream_cancelled)
    next
      case False
      from "1.IH"(2) [OF spill False refl] spill False "1.prems"
      show ?thesis by (simp add: bufWriter_Write.simps [of b] bufWriter_Flush_idle Let_def)
    qed
  qed
qed

interpretation cancelled: stream_relation idle_r idle_w
proof unfold_locales
  show "idle_r r (r\<lparr>rd := fst (io_ReadFull (rd r) n)\<rparr>)" for r n
    using ReadFull_loop_idle [of "rd r" n "[]"]
    by (cases "ReadFull_loop (rd r) n []") (simp add: idle_r_def r_fits_def r_cancelled_def io_ReadFull_def)
qed (auto simp: idle_r_def idle_w_def r_fits_def r_cancelled_def w_cancelled_def bufWriter_Flush_idle bufWriter_Write_idle)

section \<open>Working off the buffer\<close>

lemma cancelled_steps:
  assumes step: "\<And>s t. step s = (Val (), t) \<Longrightarrow> left t < left s"
    and idle: "\<And>r w. keeps (cancelled.since r w) step"
    and "((\<lambda>s t. step s = (Val (), t)) ^^ n) s t" and "r_cancelled (rs_r s)"
  shows "idle_r (rs_r s) (rs_r t) \<and> idle_w (rs_w s) (rs_w t) \<and> n + length (br_buf (rd (rs_r t))) \<le> length (br_buf (rd (rs_r s)))"
  using assms(3)
proof (induction n arbitrary: t)
  case 0
  then show ?case by (simp add: cancelled.rr_refl cancelled.ww_refl)
next
  case (Suc n)
  then obtain u where u: "((\<lambda>s t. step s = (Val (), t)) ^^ n) s u" "step u = (Val (), t)" by auto
  note h = Suc.IH [OF u(1)] and d = cancelled.sinceD [OF idle u(2)]
  from h assms(4) have "r_cancelled (rs_r u)" by (simp add: idle_r_def r_cancelled_def)
  with d h assms(4) step [OF u(2)] have "length (br_buf (rd (rs_r t))) < length (br_buf (rd (rs_r u)))"
    by (simp add: idle_r_def left_def r_avail_def avail_def)
  with h cancelled.rr_trans [OF conjunct1 [OF h] conjunct1 [OF d]] cancelled.ww_trans [OF _ conjunct2 [OF d]] show ?case
    by auto
qed

section \<open>Never nil\<close>

text \<open>Computations that do not return nil.\<close>

definition failing :: "('s, 'a) gom \<Rightarrow> bool" where
  "failing m \<longleftrightarrow> (\<forall>s t. m s \<noteq> (Return None, t))"

named_theorems failing_intros

lemma failing_basic [failing_intros]: "failing (ret x)" "failing (panic p)" "failing (gets f)" "failing (modify g)"
  "failing (stop (Some e))" "failing (r_op h)" "failing (w_op k)" "failing (on_db q)" "failing (push_defer d)"
  "failing (call m)" "failing (openDb E path)" "failing (hash_Register E)" "failing (rows_Close E i)"
  by (auto simp: failing_def r_op_def w_op_def on_db_def push_defer_def modify_def call_def openDb_def hash_Register_def
      rows_Close_def split: prod.splits outcome.splits option.splits)

lemma failing_seq [failing_intros]: "failing m \<Longrightarrow> (\<And>x. failing (k x)) \<Longrightarrow> failing (seq m k)"
  unfolding failing_def seq_def by (auto split: prod.splits outcome.splits) (metis not_Some_eq)

lemma failing_cases [failing_intros]:
  "failing a \<Longrightarrow> failing b \<Longrightarrow> failing (if c then a else b)" "failing d \<Longrightarrow> failing (cond c d)"
  "failing a \<Longrightarrow> (\<And>x. failing (f x)) \<Longrightarrow> failing (case v of None \<Rightarrow> a | Some x \<Rightarrow> f x)"
  "(\<And>e. failing (g e)) \<Longrightarrow> (\<And>x. failing (h x)) \<Longrightarrow> failing (case u of Inl e \<Rightarrow> g e | Inr x \<Rightarrow> h x)"
  "(\<And>x y. failing (j x y)) \<Longrightarrow> failing (case p of (x, y) \<Rightarrow> j x y)"
  "failing a \<Longrightarrow> (\<And>x xs. failing (l x xs)) \<Longrightarrow> failing (case ys of [] \<Rightarrow> a | x # xs \<Rightarrow> l x xs)"
  by (auto simp: cond_def failing_basic split: option.splits sum.splits prod.splits list.splits)

lemma failing_try [failing_intros]: "failing m \<Longrightarrow> failing (try_val m)" "failing n \<Longrightarrow> failing (try_err n)"
  "failing (write_error b t)" "failing (fail b t)" "failing (o_fail t)"
  unfolding try_val_def try_err_def chk_def write_error_def fail_def o_fail_def by (auto intro!: failing_intros)

lemma failing_sql [failing_intros]: "failing (db_Exec E sql args)" "failing (db_Query E sql args)" "failing (run E sql args)"
  "failing (runReturnUInt E sql)" "failing (runReturnText E sql)"
proof -
  show q: "failing (db_Query E sql args)" for args
    unfolding db_Query_def by (intro failing_intros; simp add: failing_def split: prod.splits)
  show "failing (db_Exec E sql args)" "failing (run E sql args)"
    unfolding run_def db_Exec_def by (intro failing_intros)+
  show "failing (runReturnUInt E sql)" "failing (runReturnText E sql)"
    unfolding runReturnUInt_def runReturnText_def db_QueryRow_def by (intro failing_intros q)+
qed

lemma failing_writes [failing_intros]: "failing (wr_byte b)" "failing (wr_u32 x)" "failing (wr_pow2 v)" "failing wr_flush"
  "failing send_begin"
  unfolding wr_byte_def wr_u32_def wr_pow2_def wr_flush_def send_begin_def by (intro failing_intros)+

lemma failing_setups: "failing (origin_setup E)" "failing (replica_setup E)"
  unfolding origin_setup_def replica_setup_def check_wal_def
  by (intro failing_intros; simp add: failing_def split: prod.splits)+

lemma no_check_bind:
  assumes "\<not> commCheck s"
  shows "seq (try_err (hash_Register E)) (\<lambda>_. seq (modify (\<lambda>s. s\<lparr>isReplica := b\<rparr>)) (\<lambda>_.
      seq (gets commCheck) (\<lambda>cc. if cc then m else n))) s =
    seq (try_err (hash_Register E)) (\<lambda>_. seq (modify (\<lambda>s. s\<lparr>isReplica := b\<rparr>)) (\<lambda>_. n)) s"
proof -
  have k: "keeps (\<lambda>s. \<not> commCheck s) (try_err (hash_Register E))"
    by (intro keeps_try_err keepsI) (simp add: hash_Register_def case_prod_beta)
  obtain x u where m: "try_err (hash_Register E) s = (x, u)" by fastforce
  have "\<not> commCheck u" using keepsD [OF k assms] m by simp
  with m show ?thesis by (cases x) (simp_all add: seq_def modify_def gets_def)
qed

lemma prologues_no_check:
  "\<not> commCheck s \<Longrightarrow> origin_prologue E s =
     seq (try_err (hash_Register E)) (\<lambda>_. seq (modify (\<lambda>s. s\<lparr>isReplica := False\<rparr>)) (\<lambda>_. origin_setup E)) s"
  "\<not> commCheck t \<Longrightarrow> replica_prologue E t =
     seq (try_err (hash_Register E)) (\<lambda>_. seq (modify (\<lambda>s. s\<lparr>isReplica := True\<rparr>)) (\<lambda>_. replica_setup E)) t"
  unfolding origin_prologue_def replica_prologue_def by (erule no_check_bind)+

lemma failing_fst: "failing m \<longleftrightarrow> (\<forall>s. fst (m s) \<noteq> Return None)"
  unfolding failing_def by (metis prod.collapse fst_conv)

lemma failing_prologues:
  "\<not> commCheck s \<Longrightarrow> fst (origin_prologue E s) \<noteq> Return None" "\<not> commCheck t \<Longrightarrow> fst (replica_prologue E t) \<noteq> Return None"
proof -
  have "failing (seq (try_err (hash_Register E)) (\<lambda>_. seq (modify (\<lambda>s. s\<lparr>isReplica := False\<rparr>)) (\<lambda>_. origin_setup E)))"
    "failing (seq (try_err (hash_Register E)) (\<lambda>_. seq (modify (\<lambda>s. s\<lparr>isReplica := True\<rparr>)) (\<lambda>_. replica_setup E)))"
    by (intro failing_intros failing_setups)+
  then show "\<not> commCheck s \<Longrightarrow> fst (origin_prologue E s) \<noteq> Return None"
    "\<not> commCheck t \<Longrightarrow> fst (replica_prologue E t) \<noteq> Return None"
    by (simp_all only: prologues_no_check failing_fst not_False_eq_True)
qed

text \<open>The first read of a loop then reports the context's error.\<close>

lemma next_message_cancelled:
  assumes "r_cancelled (rs_r s)" and "br_buf (rd (rs_r s)) = []" and "\<not> is_eof (ctx_error (in_ctx (br_src (rd (rs_r s)))))"
  shows "\<exists>t e. next_message s = (Return (Some e), t)"
proof -
  let ?e = "ctx_error (in_ctx (br_src (rd (rs_r s))))"
  have "bufReader_Read (rd (rs_r s)) 1 = (rd (rs_r s), [], Some ?e)"
    using assms(1,2) by (simp add: bufReader_Read_def ctxStream_cancelled r_cancelled_def bufSize_def)
  then have "io_ReadFull (rd (rs_r s)) 1 = (rd (rs_r s), [], Some ?e)"
    unfolding io_ReadFull_def by (subst ReadFull_loop.simps) simp
  then have "ReadByte (rs_r s) = (rs_r s, Inl ?e)" by (simp add: ReadByte_def)
  with assms(3) show ?thesis by (simp add: next_message_def r_op_def seq_def stop_def)
qed

lemma run_defers_not_nil:
  "run_defers E pins ds (Some e) s = (x, t) \<Longrightarrow> x \<noteq> Return None \<and> x \<noteq> Val ()"
proof (induction ds arbitrary: e s)
  case Nil
  then show ?case by (auto simp: stop_def)
next
  case (Cons d ds)
  have st: "failing (stmt_Close E st)" for st
    by (cases st) (auto simp: failing_def split: prod.splits)
  have f: "failing (do_defer E pins d)"
    by (cases d) (use st in \<open>auto simp: failing_def closeDb_def rows_Close_def seq_def gets_def split: prod.splits option.splits\<close>)
  obtain y u where y: "do_defer E pins d s = (y, u)" by fastforce
  have j: "\<exists>e'. join_errs [Some e, z] = Some e'" for z
    using join_errs_None [of "[Some e, z]"] by (cases "join_errs [Some e, z]") auto
  show ?case
  proof (cases y)
    case (Val z)
    with y have "run_defers E pins ds (join_errs [Some e, z]) u = (x, t)" using Cons.prems by (simp add: seq_def)
    with j [of z] Cons.IH show ?thesis by metis
  qed (use Cons.prems y f in \<open>auto simp: seq_def failing_def\<close>)
qed

lemma cancelled_side:
  assumes "quiet prologue" and "fst (prologue s) \<noteq> Return None" and "r_cancelled (rs_r s)" and "br_buf (rd (rs_r s)) = []"
    and "\<not> is_eof (ctx_error (in_ctx (br_src (rd (rs_r s)))))"
    and "\<And>n. loop (Suc n) = seq (seq next_message handle) (\<lambda>_. loop n)"
    and "with_defers E pins (role_body prologue loop) s = (x, t)"
  shows "x \<noteq> Return None \<and> x \<noteq> Val ()"
proof -
  obtain y u where y: "prologue s = (y, u)" by fastforce
  have "rs_r u = rs_r s" using quietD [OF assms(1) y] by simp
  with next_message_cancelled [of u] assms(3-5) obtain v e where "next_message u = (Return (Some e), v)" by auto
  then have l: "loop (Suc n) u = (Return (Some e), v)" for n by (simp add: assms(6) seq_def)
  have b: "role_body prologue loop s = (case y of Val _ \<Rightarrow> (Return (Some e), v) | _ \<Rightarrow> (y, u))"
    using y l by (cases y) (simp_all add: role_body_def seq_def gets_def)
  have "y \<noteq> Return None" using assms(2) y by simp
  with b obtain z where "(\<exists>e. call (role_body prologue loop) s = (Val (Some e), z)) \<or>
      (\<exists>p. call (role_body prologue loop) s = (Panic p, z))"
    by (cases y) (auto simp: call_def)
  with assms(7) show ?thesis
    by (auto simp: with_defers_def seq_def gets_def dest: run_defers_not_nil)
qed

end
