(* ===== verification/Flushing.thy ===== *)
theory Flushing
  imports Cancel
begin

text \<open>
  Nothing is held back. Every handler that writes flushes before it ends, and the others do not write, so
  between two messages the write buffer is empty: a role never waits for an answer to bytes that are still
  in its own buffer. \<open>mute\<close> computations leave the writer alone when they end in a value, \<open>flushing\<close> ones
  leave its buffer empty.
\<close>

definition empty_buf :: "('w, 'x) rsync_scheme \<Rightarrow> bool" where
  "empty_buf s \<longleftrightarrow> w_buf (rs_w s) = []"

definition mute :: "(('w, 'x) rsync_scheme, 'a) gom \<Rightarrow> bool" where
  "mute m \<longleftrightarrow> (\<forall>s x t. m s = (Val x, t) \<longrightarrow> rs_w t = rs_w s)"

definition flushing :: "(('w, 'x) rsync_scheme, 'a) gom \<Rightarrow> bool" where
  "flushing m \<longleftrightarrow> (\<forall>s x t. m s = (Val x, t) \<longrightarrow> empty_buf t)"

definition clean :: "(('w, 'x) rsync_scheme, 'a) gom \<Rightarrow> bool" where
  "clean m \<longleftrightarrow> (\<forall>s x t. empty_buf s \<longrightarrow> m s = (Val x, t) \<longrightarrow> empty_buf t)"

named_theorems mute_intros
named_theorems flush_intros

section \<open>Mute computations\<close>

lemma mute_basic [mute_intros]: "mute (ret x)" "mute (stop e)" "mute (panic p)" "mute (gets f)" "mute (r_op g)"
  "mute (on_db q)" "mute (rows_Close E i)" "mute (openDb E path)" "mute (closeDb E)" "mute (push_defer d)"
  by (auto simp: mute_def r_op_def on_db_def rows_Close_def openDb_def closeDb_def push_defer_def modify_def
      split: prod.splits option.splits)

lemma mute_modify [mute_intros]: "(\<And>s. rs_w (f s) = rs_w s) \<Longrightarrow> mute (modify f)"
  by (simp add: mute_def modify_def)

lemma mute_seq [mute_intros]: "mute m \<Longrightarrow> (\<And>x. mute (k x)) \<Longrightarrow> mute (seq m k)"
  unfolding mute_def seq_def by (auto split: prod.splits outcome.splits)

lemma mute_cases [mute_intros]:
  "mute a \<Longrightarrow> mute b \<Longrightarrow> mute (if c then a else b)" "mute u \<Longrightarrow> mute (cond c u)"
  "mute a \<Longrightarrow> (\<And>x. mute (f x)) \<Longrightarrow> mute (case v of None \<Rightarrow> a | Some x \<Rightarrow> f x)"
  "(\<And>e. mute (g e)) \<Longrightarrow> (\<And>x. mute (h x)) \<Longrightarrow> mute (case y of Inl e \<Rightarrow> g e | Inr x \<Rightarrow> h x)"
  "(\<And>x y. mute (j x y)) \<Longrightarrow> mute (case p of (x, y) \<Rightarrow> j x y)"
  "mute a \<Longrightarrow> (\<And>x xs. mute (l x xs)) \<Longrightarrow> mute (case ys of [] \<Rightarrow> a | x # xs \<Rightarrow> l x xs)"
  by (auto simp: cond_def mute_basic split: option.splits sum.splits prod.splits list.splits)

lemma mute_then_stop [mute_intros]: "mute (seq m (\<lambda>x. stop (f x)))"
  by (auto simp: mute_def seq_def stop_def split: prod.splits outcome.splits)

lemma mute_fail [mute_intros]: "mute (fail b t)" "mute (o_fail t)"
  unfolding fail_def o_fail_def by (intro mute_intros)+

lemma mute_try: "mute m \<Longrightarrow> mute (try_val m)" "mute n \<Longrightarrow> mute (try_err n)"
  unfolding try_val_def try_err_def chk_def by (auto intro!: mute_intros)

lemma mute_reads [mute_intros]: "mute rd_byte" "mute rd_u32" "mute rd_pow2" "mute (rd_bytes n)" "mute rd_message" "mute next_message"
  unfolding rd_byte_def rd_u32_def rd_pow2_def rd_bytes_def rd_message_def next_message_def by (intro mute_intros mute_try)+

lemmas mute_tries [mute_intros] = mute_try(2) [OF mute_basic(7)] mute_try(2) [OF mute_basic(9)]

text \<open>The methods of sql.go write only when they fail, and then their callers return.\<close>

lemma mute_or_fail:
  assumes "mute m" and "\<And>z. mute (k (Inr z))" and "\<And>e s x t. k (Inl e) s \<noteq> (Val (Inr x), t)"
  shows "mute (try_val (seq m k))"
  unfolding mute_def
proof (intro allI impI)
  fix s x t assume v: "try_val (seq m k) s = (Val x, t)"
  then obtain y u where y: "m s = (Val y, u)" "k y u = (Val (Inr x), t)"
    by (auto simp: try_val_def seq_def stop_def ret_def split: prod.splits outcome.splits sum.splits)
  with assms(3) obtain z where "y = Inr z" by (cases y) auto
  with y assms(1) assms(2) [of z] show "rs_w t = rs_w s" by (simp add: mute_def)
qed

lemma mute_queries [mute_intros]: "mute (db_Exec E sql args)" "mute (db_Query E sql args)" "mute (db_QueryRow E sql args scan)"
  "mute (db_Prepare E sql)"
proof -
  show q: "mute (db_Query E sql args)" for args
    unfolding db_Query_def by (intro mute_intros; simp add: mute_def split: prod.splits)
  show "mute (db_Exec E sql args)" "mute (db_QueryRow E sql args scan)" "mute (db_Prepare E sql)"
    unfolding db_Exec_def db_QueryRow_def db_Prepare_def by (intro mute_intros q; simp add: mute_def split: prod.splits)+
qed

lemma mute_stmts [mute_intros]: "mute (stmt_Exec E v args)" "mute (stmt_Query E v args)" "mute (stmt_QueryRow E v args scan)"
  unfolding stmt_Exec_def stmt_Query_def stmt_QueryRow_def
  by (cases v; simp add: mute_basic; split stmt.split; intro allI impI; intro mute_intros)+

lemma mute_sql [mute_intros]: "mute (try_val (prepare E sql))" "mute (try_val (runReturnUInt E sql))"
  "mute (try_val (runReturnText E sql))" "mute (try_err (run E sql args))"
proof -
  have *: "seq (gets errMsgByte) (\<lambda>m. seq (write_error m t) (\<lambda>e'. ret (Inl e'))) s \<noteq> (Val (Inr x), u)" for t s x u
    by (auto simp: seq_def gets_def ret_def split: prod.splits outcome.splits)
  show "mute (try_val (prepare E sql))" "mute (try_val (runReturnUInt E sql))" "mute (try_val (runReturnText E sql))"
    unfolding prepare_def runReturnUInt_def runReturnText_def
    by (rule mute_or_fail, intro mute_intros, simp add: mute_basic, simp only: sum.case, rule *)+
  show "mute (try_err (run E sql args))"
    unfolding run_def try_err_def seq_assoc
  proof (rule mute_seq)
    fix x :: "goerr option"
    show "mute (seq (case x of None \<Rightarrow> ret None | Some e \<Rightarrow> if prefix ''ATTACH '' sql \<and> contains (err_text e) ''must use the same text encoding''
        then seq (modify (\<lambda>s. s\<lparr>wrongEnc := True\<rparr>)) (\<lambda>_. ret None)
        else seq (gets errMsgByte) (\<lambda>m. seq (write_error m (statement_failed sql e)) (\<lambda>e'. ret (Some e')))) chk)"
      by (cases x) (auto simp: mute_def seq_def ret_def chk_def stop_def modify_def gets_def split: prod.splits outcome.splits)
  qed (intro mute_intros)
qed

section \<open>Flushing computations\<close>

lemma flushing_seq [flush_intros]: "(\<And>x. flushing (k x)) \<Longrightarrow> flushing (seq m k)"
  unfolding flushing_def seq_def by (auto split: prod.splits outcome.splits)

lemma flushing_fail [flush_intros]: "flushing (fail b t)" "flushing (o_fail t)" "flushing (panic p)" "flushing (stop e)"
  by (auto simp: flushing_def fail_def o_fail_def seq_def stop_def split: prod.splits outcome.splits)

lemma Flush_empty: "Flush w = (w', None) \<Longrightarrow> w_buf w' = []"
  using bufWriter_Flush_spec [of "wr w"] by (auto simp: Flush_def w_buf_def split: prod.splits)

lemma flushing_flush [flush_intros]: "flushing wr_flush"
  using Flush_empty
  by (auto simp: flushing_def wr_flush_def try_err_def w_op_def seq_def chk_def stop_def ret_def empty_buf_def
      split: prod.splits option.splits)

text \<open>The ways in which a function that flushes before it returns nil can be composed.\<close>

definition nil_flushed :: "(('w, 'x) rsync_scheme, 'a) gom \<Rightarrow> bool" where
  "nil_flushed m \<longleftrightarrow> (\<forall>s t. m s = (Return None, t) \<longrightarrow> empty_buf t) \<and> (\<forall>s x t. m s \<noteq> (Val x, t))"

lemma nil_flushed_seq: "failing m \<Longrightarrow> (\<And>x. nil_flushed (k x)) \<Longrightarrow> nil_flushed (seq m k)"
  unfolding nil_flushed_def failing_def seq_def by (auto split: prod.splits outcome.splits)

lemma nil_flushed_fail: "nil_flushed (fail b t)"
  by (auto simp: nil_flushed_def fail_def write_error_def w_op_def seq_def stop_def split: prod.splits outcome.splits)

lemma nil_flushed_end: "nil_flushed (seq (w_op Flush) (\<lambda>ferr. stop (join_errs [err, ferr])))"
  using Flush_empty by (auto simp: nil_flushed_def w_op_def seq_def stop_def empty_buf_def split: prod.splits)

lemma nil_flushed_deferred:
  assumes "nil_flushed m" and "\<And>s. \<exists>e u. d s = (Val e, u) \<and> rs_w u = rs_w s"
  shows "nil_flushed (deferred d m)"
  unfolding nil_flushed_def
proof (intro conjI allI impI)
  fix s t assume t: "deferred d m s = (Return None, t)"
  obtain r u where m: "m s = (r, u)" by fastforce
  from assms(2) [of u] obtain e v where "d u = (Val e, v)" "rs_w v = rs_w u" by blast
  with t m assms(1) show "empty_buf t" by (cases r) (auto simp: deferred_def nil_flushed_def empty_buf_def)
next
  fix s x t show "deferred d m s \<noteq> (Val x, t)"
    using assms(1) by (auto simp: deferred_def nil_flushed_def split: prod.splits outcome.splits)
qed

lemma flushing_call [flush_intros]: "nil_flushed m \<Longrightarrow> flushing (try_err (call m))"
  by (auto simp: flushing_def nil_flushed_def try_err_def call_def seq_def chk_def stop_def ret_def
      split: prod.splits outcome.splits option.splits)

lemma closes_mute: "\<exists>e u. stmt_Close E st s = (Val e, u) \<and> rs_w u = rs_w s" "\<exists>e u. rows_Close E i s = (Val e, u) \<and> rs_w u = rs_w s"
  by (cases st; auto split: prod.splits) (auto simp: rows_Close_def split: prod.splits)

lemma failing_calls [failing_intros]: "failing (prepare E sql)" "failing (stmt_Query E v args)" "failing (wr_bytes p)"
proof -
  show "failing (prepare E sql)"
    unfolding prepare_def db_Prepare_def by (intro failing_intros; simp add: failing_def split: prod.splits)
  show "failing (stmt_Query E v args)"
    unfolding stmt_Query_def by (cases v; simp add: failing_basic; split stmt.split; intro allI impI; intro failing_intros)
  show "failing (wr_bytes p)" unfolding wr_bytes_def by (intro failing_intros)
qed

lemma failing_entries: "failing (send_entries E rows ex)"
proof (induction rows arbitrary: ex)
  case Nil
  show ?case unfolding send_entries.simps by (intro failing_intros)
next
  case (Cons row rows)
  have "failing (send_entry E row ex)" unfolding send_entry_def by (intro failing_intros)
  then show ?case unfolding send_entries.simps by (rule failing_seq) (rule Cons)
qed

lemma flushing_sendHashMessages [flush_intros]: "flushing (try_err (sendHashMessages E i n))"
proof -
  have "nil_flushed (case rs_err rs of Some e \<Rightarrow> fail ReplicaError (t e) | None \<Rightarrow>
      seq (try_err (run E deleteSendHashSQL [])) (\<lambda>_. seq (w_op (\<lambda>w. WriteByte w ReplicaReady)) (\<lambda>err.
      seq (modify g) (\<lambda>_. seq (w_op Flush) (\<lambda>ferr. stop (join_errs [err, ferr]))))))" for rs t g
    by (cases "rs_err rs"; simp only: option.case)
      (intro nil_flushed_seq nil_flushed_end failing_intros nil_flushed_fail)+
  then have "nil_flushed (deferred (rows_Close E k) (seq (send_entries E (rs_rows rs) (i, n)) (\<lambda>_.
      seq (modify (\<lambda>s. s\<lparr>openRows := None\<rparr>)) (\<lambda>_. case rs_err rs of
        Some e \<Rightarrow> fail ReplicaError (statement_failed sendHashSQL e) | None \<Rightarrow>
          seq (try_err (run E deleteSendHashSQL [])) (\<lambda>_. seq (w_op (\<lambda>w. WriteByte w ReplicaReady)) (\<lambda>err.
          seq (modify (\<lambda>s. s\<lparr>hashRounds := hashRounds s + 1\<rparr>)) (\<lambda>_. seq (w_op Flush) (\<lambda>ferr. stop (join_errs [err, ferr])))))))))" for k rs
    by (intro nil_flushed_deferred nil_flushed_seq failing_entries failing_intros closes_mute)
  then have rows: "nil_flushed (case q of Inl e \<Rightarrow> fail ReplicaError (statement_failed sendHashSQL e)
      | Inr (k, rs) \<Rightarrow> deferred (rows_Close E k) (seq (send_entries E (rs_rows rs) (i, n)) (\<lambda>_.
      seq (modify (\<lambda>s. s\<lparr>openRows := None\<rparr>)) (\<lambda>_. case rs_err rs of
        Some e \<Rightarrow> fail ReplicaError (statement_failed sendHashSQL e) | None \<Rightarrow>
          seq (try_err (run E deleteSendHashSQL [])) (\<lambda>_. seq (w_op (\<lambda>w. WriteByte w ReplicaReady)) (\<lambda>err.
          seq (modify (\<lambda>s. s\<lparr>hashRounds := hashRounds s + 1\<rparr>)) (\<lambda>_. seq (w_op Flush) (\<lambda>ferr. stop (join_errs [err, ferr])))))))))" for q
    by (cases q) (simp_all only: sum.case case_prod_beta nil_flushed_fail)
  show ?thesis
    unfolding sendHashMessages_def
    by (rule flushing_call, rule nil_flushed_seq, intro failing_intros, rule nil_flushed_deferred,
        rule nil_flushed_seq, intro failing_intros, rule rows, rule closes_mute(1))
qed

section \<open>The roles\<close>

lemma cleanD: "clean m \<Longrightarrow> empty_buf s \<Longrightarrow> m s = (Val x, t) \<Longrightarrow> empty_buf t"
  by (simp add: clean_def)

lemma clean_mute: "mute m \<Longrightarrow> clean m"
  by (auto simp: mute_def clean_def empty_buf_def)

lemma clean_flushing: "flushing m \<Longrightarrow> clean m"
  by (auto simp: flushing_def clean_def)

lemma clean_seq: "clean m \<Longrightarrow> (\<And>x. clean (k x)) \<Longrightarrow> clean (seq m k)"
  unfolding clean_def
proof (intro allI impI)
  fix s x t
  assume m: "\<forall>s x t. empty_buf s \<longrightarrow> m s = (Val x, t) \<longrightarrow> empty_buf t"
    and k: "\<And>x. \<forall>s x' t. empty_buf s \<longrightarrow> k x s = (Val x', t) \<longrightarrow> empty_buf t" and s: "empty_buf s" and v: "seq m k s = (Val x, t)"
  from v obtain y u where "m s = (Val y, u)" "k y u = (Val x, t)"
    by (auto simp: seq_def split: prod.splits outcome.splits)
  with m k s show "empty_buf t" by blast
qed

lemma clean_if: "clean a \<Longrightarrow> clean b \<Longrightarrow> clean (if c then a else b)"
  by simp

lemma flushing_send_begin [flush_intros]: "flushing send_begin"
  unfolding send_begin_def by (intro flush_intros)

lemma clean_on_replica_begin: "clean on_replica_begin"
  unfolding on_replica_begin_def
  by (intro clean_seq clean_if clean_flushing [OF flushing_send_begin] clean_mute mute_intros) simp

lemma mute_on_replica_hash: "mute (on_replica_hash E)"
  unfolding on_replica_hash_def first_hash_def match_multi_def match_single_def record_mismatch_def
  by (intro mute_intros; simp add: next_range_def Let_def)

lemma flushing_on_replica_ready: "flushing (on_replica_ready E)"
  unfolding on_replica_ready_def by (intro flush_intros)

lemma clean_origin_step: "clean (origin_step E)"
proof -
  have m: "mute (seq rd_message (\<lambda>_. ret ()))" "mute (seq rd_message (\<lambda>msg. stop (f msg)))" "mute (stop e)" "mute on_replica_config"
    "mute (o_fail t)" for f e t
    unfolding on_replica_config_def by (intro mute_intros; simp)+
  have "clean (origin_handle E c)" for c
    unfolding origin_handle_def
    by (intro clean_if m [THEN clean_mute] clean_on_replica_begin mute_on_replica_hash [THEN clean_mute]
        flushing_on_replica_ready [THEN clean_flushing])
  then show ?thesis unfolding origin_step_def by (intro clean_seq clean_mute [OF mute_reads(6)])
qed

lemma clean_on_origin_begin: "clean (on_origin_begin E)"
proof -
  have "flushing (open_replica E)" "flushing propose_protocol"
    unfolding open_replica_def propose_protocol_def by (intro flush_intros)+
  then have b: "clean (if c then propose_protocol else seq (modify f) (\<lambda>_. open_replica E))" for c f
    by (intro clean_if clean_flushing flushing_seq)
  have m: "clean (try_err (closeDb E))" "clean (modify (\<lambda>s. s\<lparr>pIns := None\<rparr>))" "clean rd_byte" "clean rd_pow2" "clean rd_u32"
    "clean (gets f)" for f
    by (rule clean_mute, intro mute_intros; simp)+
  show ?thesis unfolding on_origin_begin_def by (intro clean_seq m b)
qed

lemma clean_replica_step: "clean (replica_step E)"
proof -
  have m: "mute (on_origin_detail E)" "mute (on_origin_txn E)" "mute (on_origin_page E)"
    "mute (seq rd_message (\<lambda>_. ret ()))" "mute (seq rd_message (\<lambda>msg. stop (f msg)))" "mute (stop e)" "mute (fail b t)" for f e b t
    unfolding on_origin_detail_def subdivideHashRange_def Let_def on_origin_txn_def truncate_replica_def on_origin_page_def
    by (intro mute_intros; simp)+
  have r: "flushing (on_origin_ready E)" unfolding on_origin_ready_def by (intro flush_intros)
  have "clean (replica_handle E c)" for c
    unfolding replica_handle_def
    by (intro clean_if m [THEN clean_mute] clean_on_origin_begin r [THEN clean_flushing])
  then show ?thesis unfolding replica_step_def by (intro clean_seq clean_mute [OF mute_reads(6)])
qed

text \<open>The prologues: that of the origin ends by flushing ORIGIN_BEGIN.\<close>

lemma clean_prologues: "clean (origin_prologue E)" "clean (replica_prologue E)"
proof -
  have reg: "mute (try_err (hash_Register E))" for E :: "'x env"
    by (intro mute_try) (auto simp: mute_def hash_Register_def split: prod.splits)
  have stops: "flushing (origin_commCheck E)" "flushing (replica_commCheck E')" for E :: "'x env" and E' :: "'y env"
    unfolding origin_commCheck_def replica_commCheck_def by (intro flush_intros)+
  have stat: "clean (\<lambda>s. case e_stat E (world s) p of (w, e) \<Rightarrow> (Val e, s\<lparr>world := w\<rparr>))" for E :: "'x env" and p
    by (rule clean_mute) (auto simp: mute_def split: prod.splits)
  have wal: "mute (cond b (check_wal E))" for E :: "'x env" and b
    unfolding check_wal_def by (intro mute_intros)
  have m: "mute (gets f)" "mute (push_defer d)" "mute (openDb E path)" "mute (case e of None \<Rightarrow> ret () | Some x \<Rightarrow> o_fail (g x))"
    "mute (try_err (run E sql args))" "mute (try_val (runReturnUInt E sql))" "mute (panic q)" for f d path e g E sql args q
    by (intro mute_intros)+
  have s: "clean (origin_setup E)" for E :: "'x env"
    unfolding origin_setup_def
    by (intro clean_seq clean_if stat m [THEN clean_mute] wal [THEN clean_mute] flushing_send_begin [THEN clean_flushing])
      (rule clean_mute, rule mute_modify, simp)+
  have r: "clean (replica_setup E)" for E :: "'x env"
    unfolding replica_setup_def by (intro clean_seq m [THEN clean_mute]) (rule clean_mute, rule mute_modify, simp)
  show "clean (origin_prologue E)" "clean (replica_prologue E)"
    unfolding origin_prologue_def replica_prologue_def
    by (intro clean_seq clean_if reg [THEN clean_mute] stops [THEN clean_flushing] m [THEN clean_mute] s r;
        (rule clean_mute, rule mute_modify, simp)?)+
qed

end
