(* ===== verification/Resources.thy ===== *)
theory Resources
  imports ReplicaTyping
begin

text \<open>
  What a role holds, it gives back. Every connection, every \<open>Rows\<close> and every statement in a variable of
  a role has its deferred call on the stack by the time anything can return (\<open>o_owned\<close>, \<open>r_owned\<close>), and
  the deferred calls close them all: when a call returns, however it went, nothing is left open.
  Panics are not considered here, so the judgement is \<open>safe UNIV\<close>: no order of messages is assumed.
\<close>

section \<open>Predicates that calls on the database and the streams respect\<close>

definition framed :: "(('w, 'x) rsync_scheme \<Rightarrow> bool) \<Rightarrow> bool" where
  "framed P \<longleftrightarrow> wire_free P \<and> (\<forall>s. P s \<longrightarrow> P (s\<lparr>openRows := None\<rparr>) \<and>
     (\<forall>w e n c. P (s\<lparr>world := w\<rparr>) \<and> P (s\<lparr>wrongEnc := e\<rparr>) \<and> P (s\<lparr>nextId := n\<rparr>) \<and> P (s\<lparr>closedStmts := c\<rparr>)))"

lemma framedD:
  "framed P \<Longrightarrow> wire_free P"
  "framed P \<Longrightarrow> P s \<Longrightarrow> P (s\<lparr>openRows := None\<rparr>)"
  "framed P \<Longrightarrow> P s \<Longrightarrow> P (s\<lparr>world := w\<rparr>)"
  "framed P \<Longrightarrow> P s \<Longrightarrow> P (s\<lparr>wrongEnc := e\<rparr>)"
  "framed P \<Longrightarrow> P s \<Longrightarrow> P (s\<lparr>nextId := n\<rparr>)"
  "framed P \<Longrightarrow> P s \<Longrightarrow> P (s\<lparr>closedStmts := c\<rparr>)"
  by (auto simp: framed_def)

text \<open>\<open>owns P m\<close>: unless it panics, \<open>m\<close> ends in a state with \<open>P\<close>, by a value or by a return.\<close>

abbreviation owns :: "('s \<Rightarrow> bool) \<Rightarrow> ('s, 'a) gom \<Rightarrow> bool" where
  "owns P m \<equiv> safe UNIV P P m (\<lambda>_. P)"

named_theorems owns_intros \<open>one rule per call\<close>

lemmas [owns_intros] = safe_seq safe_if safe_option safe_sum safe_prod typed_cond typed_chk typed_try_val typed_try_err
  typed_foreach typed_ret safe_stop typed_gets typed_modify typed_push_defer typed_reads typed_writes safe_fail
  safe_o_fail within_refl

lemma owns_panic [owns_intros]: "owns P (panic p)"
  by (rule safe_panic) simp

lemma owns_on_db: "framed P \<Longrightarrow> owns P (on_db f)"
  by (auto intro!: safeI simp: wpo_def on_db_def framedD split: prod.splits)

lemma owns_db_Exec [owns_intros]: "framed P \<Longrightarrow> owns P (db_Exec E sql args)"
  unfolding db_Exec_def by (rule owns_on_db)

lemma owns_db_Prepare [owns_intros]: "framed P \<Longrightarrow> owns P (db_Prepare E sql)"
  unfolding db_Prepare_def
  by (intro safe_intros owns_on_db) (auto intro!: safeI simp: wpo_def framedD)

lemma owns_rows_Close [owns_intros]: "framed P \<Longrightarrow> owns P (rows_Close E i)"
  by (auto intro!: safeI simp: wpo_def rows_Close_def framedD openRows_updates split: prod.splits)

lemma owns_stmt_Close [owns_intros]: "framed P \<Longrightarrow> owns P (stmt_Close E st)"
  by (cases st) (auto intro!: safeI simp: wpo_def framedD split: prod.splits)

text \<open>
  A query opens a \<open>Rows\<close>: what follows is either told of an error or starts with that \<open>Rows\<close> open on a
  connection that was free.
\<close>

definition using_rows :: "nat \<Rightarrow> (('w, 'x) rsync_scheme \<Rightarrow> bool) \<Rightarrow> ('w, 'x) rsync_scheme \<Rightarrow> bool" where
  "using_rows i P s \<longleftrightarrow> (\<exists>s0. P s0 \<and> openRows s0 = None \<and> s = s0\<lparr>openRows := Some i\<rparr>)"

lemma safe_query:
  assumes "framed P" and "\<And>e. safe UNIV R P (k (Inl e)) Q" and "\<And>i rs. safe UNIV R (using_rows i P) (k (Inr (i, rs))) Q"
  shows "safe UNIV R P (seq (db_Query E sql args) k) Q"
proof (rule safeI)
  fix s assume s: "P s"
  obtain w x where q: "e_query E (world s) sql args = (w, x)" by fastforce
  show "wpo (seq (db_Query E sql args) k) (goes UNIV Q R) s"
  proof (cases "db s \<and> openRows s = None")
    case False
    then have "\<exists>p. seq (db_Query E sql args) k s = (Panic p, s)" by (auto simp: db_Query_def on_db_def seq_def)
    then show ?thesis by (auto simp: wpo_def)
  next
    case free: True
    show ?thesis
    proof (cases x)
      case (Inl e)
      with q free have "seq (db_Query E sql args) k s = k (Inl e) (s\<lparr>world := w\<rparr>)"
        by (simp add: db_Query_def on_db_def seq_def)
      with assms(2) framedD(3) [OF assms(1) s, of w] show ?thesis by (simp add: safe_def wpo_def)
    next
      case (Inr rs)
      let ?s0 = "s\<lparr>world := w, nextId := Suc (nextId s)\<rparr>"
      from Inr q free have "seq (db_Query E sql args) k s =
          k (Inr (nextId s, rs)) (s\<lparr>world := w, openRows := Some (nextId s), nextId := Suc (nextId s)\<rparr>)"
        by (simp add: db_Query_def on_db_def seq_def)
      moreover have "P ?s0" using framedD(5) [OF assms(1) framedD(3) [OF assms(1) s]] .
      then have "using_rows (nextId s) P (s\<lparr>world := w, openRows := Some (nextId s), nextId := Suc (nextId s)\<rparr>)"
        using free unfolding using_rows_def by (intro exI [of _ ?s0]) simp
      ultimately show ?thesis using assms(3) [of "nextId s" rs] by (simp add: safe_def wpo_def)
    qed
  qed
qed

lemma safe_using_none: "framed P \<Longrightarrow> safe X R (using_rows i P) (modify (\<lambda>s. s\<lparr>openRows := None\<rparr>)) (\<lambda>_. P)"
  by (rule safe_modify) (auto simp: using_rows_def framedD)

lemma safe_using_Close: "framed P \<Longrightarrow> safe X R (using_rows i P) (rows_Close E i) (\<lambda>_. P)"
  by (rule safeI) (auto simp: wpo_def rows_Close_def using_rows_def framedD openRows_updates split: prod.splits)

lemma owns_db_QueryRow [owns_intros]:
  assumes f: "framed P"
  shows "owns P (db_QueryRow E sql args scan)"
  unfolding db_QueryRow_def
proof (rule safe_query [OF f])
  fix i rs
  show "safe UNIV P (using_rows i P) (case Inr (i, rs) of Inl e \<Rightarrow> ret (Inl e)
      | Inr (i, rs) \<Rightarrow> (case rs_rows rs of [] \<Rightarrow> seq (modify (\<lambda>s. s\<lparr>openRows := None\<rparr>))
            (\<lambda>_. ret (Inl (case rs_err rs of None \<Rightarrow> ErrNoRows | Some e \<Rightarrow> e)))
        | row # _ \<Rightarrow> seq (rows_Close E i) (\<lambda>closeErr. ret (case scan row of Inl e \<Rightarrow> Inl e
            | Inr v \<Rightarrow> (case closeErr of None \<Rightarrow> Inr v | Some e \<Rightarrow> Inl e))))) (\<lambda>_. P)"
    by (cases "rs_rows rs")
      (auto intro!: safe_bind [OF safe_using_none [OF f]] safe_bind [OF safe_using_Close [OF f]] typed_ret)
qed (simp_all add: typed_ret)

lemma owns_stmt [owns_intros]:
  assumes "framed P"
  shows "owns P (stmt_Exec E v args)" "owns P (stmt_QueryRow E v args scan)"
  using assms
  by (auto simp: stmt_Exec_def stmt_QueryRow_def intro!: owns_intros split: option.splits stmt.splits)

lemma owns_sql [owns_intros]:
  assumes f: "framed P"
  shows "owns P (prepare E sql)" "owns P (run E sql args)" "owns P (runReturnUInt E sql)" "owns P (runReturnText E sql)"
    "owns P (subdivideHashRange E a n)"
proof -
  note w = framedD(1) [OF f]
  show "owns P (prepare E sql)" "owns P (runReturnUInt E sql)" "owns P (runReturnText E sql)"
    unfolding prepare_def runReturnUInt_def runReturnText_def by (intro owns_intros w f within_refl)+
  show r: "owns P (run E sql args)" for sql args
    unfolding run_def by (intro owns_intros w f within_refl) (rule framedD(4) [OF f])
  show "owns P (subdivideHashRange E a n)" unfolding subdivideHashRange_def Let_def by (rule r)
qed

text \<open>A variable is assigned and the closing of its value deferred, with nothing in between.\<close>

lemma owns_assign:
  "(\<And>s. P s \<Longrightarrow> P ((f s)\<lparr>defers := d # defers (f s)\<rparr>)) \<Longrightarrow> owns P (seq (modify f) (\<lambda>_. push_defer d))"
  by (auto intro!: safeI simp: wpo_def push_defer_def seq_def)

lemma owns_assign_bind:
  "(\<And>s. P s \<Longrightarrow> P ((f s)\<lparr>defers := d # defers (f s)\<rparr>)) \<Longrightarrow> owns P k \<Longrightarrow>
     owns P (seq (modify f) (\<lambda>_. seq (push_defer d) (\<lambda>_. k)))"
  by (rule safe_modify_bind [where P' = "\<lambda>s. P (s\<lparr>defers := d # defers s\<rparr>)"])
    (auto simp: push_defer_def intro: safe_modify_bind)

section \<open>The origin\<close>

definition o_owned :: "'w origin \<Rightarrow> bool" where
  "o_owned s \<longleftrightarrow> CloseDb \<in> set (defers s) \<and> (\<forall>i. openRows s = Some i \<longrightarrow> CloseRows i \<in> set (defers s)) \<and>
     (\<forall>st. Some st \<in> {pCkHash s, pCkHashN s, pInsHash s} \<longrightarrow> CloseStmt st \<in> set (defers s))"

lemma o_owned_frames [owns_intros]: "framed o_owned" "wire_free o_owned" "within o_owned o_owned"
  by (auto simp: framed_def wire_free_def within_def o_owned_def)

text \<open>The closing of the rows of a query is deferred before they are read.\<close>

lemma owns_rows_query [owns_intros]:
  assumes "\<And>row. owns o_owned (body row)" and "\<And>e. safe UNIV o_owned o_owned (k1 e) Q"
    and "\<And>i rs e. safe UNIV o_owned o_owned (k2 i rs e) Q"
  shows "safe UNIV o_owned o_owned (seq (db_Query E sql args) (\<lambda>q. case q of Inl e \<Rightarrow> k1 e | Inr (i, rs) \<Rightarrow>
      seq (push_defer (CloseRows i)) (\<lambda>_. seq (rows_loop (i, rs) body) (k2 i rs)))) Q"
proof (rule safe_query, rule o_owned_frames)
  fix i :: nat and rs
  have "safe UNIV o_owned (using_rows i o_owned) (push_defer (CloseRows i)) (\<lambda>_. o_owned)"
    unfolding push_defer_def by (rule safe_modify) (auto simp: using_rows_def o_owned_def)
  moreover have "owns o_owned (rows_loop (i, rs) body)"
    unfolding rows_loop_def by (intro safe_intros assms(1)) (rule framedD(2) [OF o_owned_frames(1)])
  ultimately show "safe UNIV o_owned (using_rows i o_owned) (case Inr (i, rs) of Inl e \<Rightarrow> k1 e | Inr (i, rs) \<Rightarrow>
      seq (push_defer (CloseRows i)) (\<lambda>_. seq (rows_loop (i, rs) body) (k2 i rs))) Q"
    unfolding sum.case prod.case by - (rule safe_bind, assumption, rule safe_bind, assumption, rule assms(3))
qed (simp add: assms(2))

lemma owns_first_hash [owns_intros]: "owns o_owned (first_hash E)"
  unfolding first_hash_def
  by (rule safe_seq, rule typed_gets, rule typed_cond, rule safe_seq, (intro owns_intros)[1], rule safe_seq, (intro owns_intros)[1],
      rule owns_assign_bind, force simp: o_owned_def, rule safe_seq, (intro owns_intros)[1], rule owns_assign)
    (force simp: o_owned_def)

lemma owns_matches [owns_intros]: "owns o_owned (match_multi E h)" "owns o_owned (match_single E h)"
  "owns o_owned (record_mismatch E)"
proof -
  have "owns o_owned (seq (try_val (prepare E checkHashNSQL)) (\<lambda>st. seq (modify (\<lambda>s. s\<lparr>pCkHashN := Some st\<rparr>))
      (\<lambda>_. push_defer (CloseStmt st))))"
    by (rule safe_seq, (intro owns_intros)[1], rule owns_assign) (force simp: o_owned_def)
  then show "owns o_owned (match_multi E h)"
    unfolding match_multi_def
    by (rule safe_seq [OF typed_gets safe_seq [OF typed_cond]]) (intro owns_intros)
  show "owns o_owned (match_single E h)" "owns o_owned (record_mismatch E)"
    unfolding match_single_def record_mismatch_def by (intro owns_intros)+
qed

lemma owns_origin_handlers [owns_intros]: "owns o_owned (on_replica_hash E)" "owns o_owned on_replica_begin"
  "owns o_owned on_replica_config" "owns o_owned send_begin" "owns o_owned (check_wal E)"
  unfolding on_replica_hash_def on_replica_begin_def on_replica_config_def send_begin_def check_wal_def
  by (intro owns_intros; auto simp: o_owned_def next_range_def Let_def)+

lemma owns_row_bodies [owns_intros]: "owns o_owned (send_detail E row)" "owns o_owned (send_page E row)"
  unfolding send_detail_def send_page_def by (intro owns_intros; simp add: o_owned_def)+

lemma owns_origin_rounds [owns_intros]: "owns o_owned (send_details E)" "owns o_owned (send_pages E)"
  unfolding send_details_def send_pages_def fill_tail_def by (intro owns_intros)+

lemma owns_on_replica_ready [owns_intros]: "owns o_owned (on_replica_ready E)"
  unfolding on_replica_ready_def by (intro owns_intros; simp add: o_owned_def)

lemma owns_origin_step [owns_intros]: "owns o_owned (origin_step E)"
  unfolding origin_step_def origin_handle_def by (intro owns_intros)

text \<open>Before the first call is deferred there is nothing to close.\<close>

definition o_bare :: "'w origin \<Rightarrow> bool" where
  "o_bare s \<longleftrightarrow> \<not> db s \<and> openRows s = None \<and> pCkHash s = None \<and> pCkHashN s = None \<and> pInsHash s = None"

definition o_done :: "'w origin \<Rightarrow> bool" where
  "o_done s \<longleftrightarrow> o_bare s \<or> o_owned s"

lemma o_bare_frames [owns_intros]: "wire_free o_bare" "within o_bare o_done" "within o_owned o_done"
  "within o_done o_done"
  by (auto simp: wire_free_def within_def o_bare_def o_done_def)

lemma safe_weaken: "safe X R P m Q \<Longrightarrow> within R R' \<Longrightarrow> safe X R' P m Q"
  unfolding safe_def within_def by (blast intro: wpo_mono goes_mono)

lemma owned_setup: "safe UNIV o_done o_bare (origin_setup E) (\<lambda>_. o_owned)"
  unfolding origin_setup_def
proof (rule safe_modify_bind [where P' = o_bare], simp add: o_bare_def,
    rule safe_bind [where M = "\<lambda>_. o_owned"])
  show "safe UNIV o_done o_bare (push_defer CloseDb) (\<lambda>_. o_owned)"
    unfolding push_defer_def by (rule safe_modify) (auto simp: o_bare_def o_owned_def)
qed (rule safe_weaken [OF _ o_bare_frames(3)], intro owns_intros;
  (auto intro!: safeI simp: wpo_def openDb_def o_owned_def split: prod.splits option.splits)?)

lemma owned_origin_body: "safe UNIV o_done o_bare (origin_body E) (\<lambda>_. o_done)"
proof -
  have comm: "safe UNIV o_done o_bare (origin_commCheck E) (\<lambda>_. o_done)"
    unfolding origin_commCheck_def by (intro owns_intros)
  have loop: "safe UNIV o_done o_owned (origin_loop E n) (\<lambda>_. o_done)" for n
    by (rule safe_weaken [OF _ o_bare_frames(3)], rule safe_conseq [OF typed_loop [of UNIV o_owned o_owned "origin_step E"]])
      (auto intro: owns_intros simp: o_done_def)
  have reg: "safe UNIV o_done o_bare (hash_Register E) (\<lambda>_. o_bare)"
    by (auto intro!: safeI simp: wpo_def hash_Register_def o_bare_def split: prod.splits)
  show ?thesis
    unfolding origin_body_def
    by (rule safe_seq, intro safe_intros reg owns_intros, intro safe_seq safe_if comm safe_bind [OF owned_setup] loop safe_intros)
      (simp_all add: o_bare_def)
qed

section \<open>The replica\<close>

text \<open>
  Here no rows are open between the calls of a handler: those of a round of hashes are closed by a
  deferred call of \<open>sendHashMessages\<close> itself, whichever way its loop ends. With \<open>c\<close>, the closing of
  \<open>pIns\<close> has been deferred for good; with \<open>n\<close>, the variable is nil.
\<close>

definition r_owned :: "bool \<Rightarrow> bool \<Rightarrow> 'w replica \<Rightarrow> bool" where
  "r_owned c n s \<longleftrightarrow> CloseDb \<in> set (defers s) \<and> openRows s = None \<and>
     (pIns s \<noteq> None \<or> c \<longrightarrow> ClosePIns \<in> set (defers s)) \<and> (n \<longrightarrow> pIns s = None)"

lemma r_owned_frames [owns_intros]: "framed (r_owned c n)" "wire_free (r_owned c n)" "within (r_owned c n) (r_owned c n)"
  by (auto simp: framed_def wire_free_def within_def r_owned_def)

text \<open>While the rows of a round may be open.\<close>

definition r_sending :: "bool \<Rightarrow> bool \<Rightarrow> nat \<Rightarrow> 'w replica \<Rightarrow> bool" where
  "r_sending c n i s \<longleftrightarrow> CloseDb \<in> set (defers s) \<and> openRows s \<in> {None, Some i} \<and>
     (pIns s \<noteq> None \<or> c \<longrightarrow> ClosePIns \<in> set (defers s)) \<and> (n \<longrightarrow> pIns s = None)"

lemma r_sending_frames [owns_intros]: "framed (r_sending c n i)" "wire_free (r_sending c n i)" "within (r_sending c n i) (r_sending c n i)"
  by (auto simp: framed_def wire_free_def within_def r_sending_def)

lemma owns_send_entries [owns_intros]: "owns (r_sending c n i) (send_entries E rows ex)"
proof (induction rows arbitrary: ex)
  case (Cons row rows)
  have "owns (r_sending c n i) (send_entry E row ex)"
    unfolding send_entry_def by (intro owns_intros; simp add: r_sending_def)
  then show ?case unfolding send_entries.simps by (rule safe_seq) (rule Cons)
qed (simp add: typed_ret)

lemma rows_Close_sending: "r_sending c n i s \<Longrightarrow> \<exists>e t. rows_Close E i s = (Val e, t) \<and> r_owned c n t"
  by (auto simp: rows_Close_def r_sending_def r_owned_def split: prod.splits)

lemma stmt_Close_owned: "r_owned c n s \<Longrightarrow> \<exists>e t. stmt_Close E st s = (Val e, t) \<and> r_owned c n t"
  by (cases st) (auto simp: r_owned_def split: prod.splits)

lemma safe_named_query:
  assumes "framed P" and "\<And>e. safe UNIV R P (k1 e) Q" and "\<And>i rs. safe UNIV R (using_rows i P) (k2 i rs) Q"
  shows "safe UNIV R P (seq (stmt_Query E (Some st) args) (\<lambda>q. case q of Inl e \<Rightarrow> k1 e | Inr (i, rs) \<Rightarrow> k2 i rs)) Q"
  using assms by (cases st) (auto simp: stmt_Query_def intro!: safe_query)

lemma owns_sendHashMessages [owns_intros]: "owns (r_owned c n) (sendHashMessages E a k)"
proof -
  have rows: "safe UNIV (r_owned c n) (using_rows i (r_owned c n)) (deferred (rows_Close E i) (
      seq (send_entries E (rs_rows rs) (a, k)) (\<lambda>_. seq (modify (\<lambda>s. s\<lparr>openRows := None\<rparr>)) (\<lambda>_.
      case rs_err rs of Some e \<Rightarrow> fail ReplicaError (statement_failed sendHashSQL e)
      | None \<Rightarrow> seq (try_err (run E deleteSendHashSQL [])) (\<lambda>_. seq (w_op (\<lambda>w. WriteByte w ReplicaReady)) (\<lambda>err.
          seq (modify (\<lambda>s. s\<lparr>hashRounds := hashRounds s + 1\<rparr>)) (\<lambda>_. seq (w_op Flush) (\<lambda>ferr.
          stop (join_errs [err, ferr])))))))))  (\<lambda>_. (r_owned c n))" for i rs
  proof (rule safe_deferred [where R' = "r_sending c n i"])
    let ?body = "seq (send_entries E (rs_rows rs) (a, k)) (\<lambda>_. seq (modify (\<lambda>s. s\<lparr>openRows := None\<rparr>)) (\<lambda>_.
      case rs_err rs of Some e \<Rightarrow> fail ReplicaError (statement_failed sendHashSQL e)
      | None \<Rightarrow> seq (try_err (run E deleteSendHashSQL [])) (\<lambda>_. seq (w_op (\<lambda>w. WriteByte w ReplicaReady)) (\<lambda>err.
          seq (modify (\<lambda>s. s\<lparr>hashRounds := hashRounds s + 1\<rparr>)) (\<lambda>_. seq (w_op Flush) (\<lambda>ferr.
          stop (join_errs [err, ferr])))))))"
    have "safe UNIV (r_sending c n i) (r_sending c n i) ?body (\<lambda>_. (r_owned c n))"
      by (intro owns_intros; simp add: r_sending_def)
    then show "safe UNIV (r_sending c n i) (using_rows i (r_owned c n)) ?body (\<lambda>_. (r_owned c n))"
      by (rule safe_conseq) (auto simp: using_rows_def r_owned_def r_sending_def)
  qed (rule rows_Close_sending)
  show ?thesis
    unfolding sendHashMessages_def
    by (rule safe_call, rule safe_seq, (intro owns_intros)[1],
        rule safe_deferred [where R' = "r_owned c n", OF _ stmt_Close_owned], rule safe_named_query, rule r_owned_frames,
        (intro owns_intros)[1], rule rows)
qed

lemma owns_replica_parts [owns_intros]: "owns (r_owned c n) (attach_replica E)" "owns (r_owned c n) (init_empty_replica E)"
  "owns (r_owned c n) (check_replica_wal E m)" "owns (r_owned c n) (first_entries E m)" "owns (r_owned c n) propose_protocol"
  unfolding attach_replica_def init_empty_replica_def check_replica_wal_def first_entries_def propose_protocol_def
  by (intro owns_intros; simp add: r_owned_def)+

lemma owns_closeDb [owns_intros]: "owns (r_owned c n) (closeDb E)" "owns (r_owned c n) (openDb E dsn)"
  by (auto intro!: safeI simp: wpo_def closeDb_def openDb_def r_owned_def split: prod.splits option.splits)

lemma owns_open_replica [owns_intros]: "owns (r_owned c n) (open_replica E)"
  unfolding open_replica_def by (intro owns_intros)

lemma owns_replica_handlers [owns_intros]: "owns (r_owned c n) (on_origin_begin E)" "owns (r_owned c n) (on_origin_txn E)"
  unfolding on_origin_begin_def on_origin_txn_def truncate_replica_def
  by (intro owns_intros; simp add: r_owned_def)+

lemma owns_on_origin_page:
  fixes E :: "'w env"
  shows "safe UNIV (r_owned c False) (r_owned c False) (on_origin_page E) (\<lambda>_. r_owned True False)"
proof -
  let ?p = "seq (try_val (prepare E insertPageSQL)) (\<lambda>st. seq (modify (\<lambda>s. s\<lparr>pIns := Some st\<rparr>)) (\<lambda>_. push_defer ClosePIns)) :: ('w, unit) r_gom"
  have p: "safe UNIV (r_owned c False) (r_owned c False) ?p (\<lambda>_. r_owned True False)"
    by (rule safe_seq, (intro owns_intros)[1]) (auto intro!: safeI simp: wpo_def r_owned_def push_defer_def modify_def seq_def)
  have c: "safe UNIV (r_owned c False) (r_owned c False) (seq (gets pIns) (\<lambda>v. seq (cond (v = None) ?p) k)) (\<lambda>_. r_owned True False)"
    if k: "owns (r_owned True False) (k ())" for k :: "unit \<Rightarrow> ('w, unit) r_gom"
  proof (rule safeI)
    fix s :: "'w replica" assume s: "r_owned c False s"
    have k': "safe UNIV (r_owned c False) (r_owned True False) (k ()) (\<lambda>_. r_owned True False)"
      by (rule safe_weaken [OF k]) (auto simp: within_def r_owned_def)
    have "safe UNIV (r_owned c False) (\<lambda>t. t = s) (cond (pIns s = None) ?p) (\<lambda>_. r_owned True False)"
    proof (cases "pIns s = None")
      case True
      have "cond True ?p = ?p" by simp
      then show ?thesis using safe_conseq [OF p, of "\<lambda>t. t = s" "\<lambda>_. r_owned True False"] s True by simp
    next
      case False
      then have f: "(pIns s = None) = False" by blast
      have "r_owned True False s" using s False by (simp add: r_owned_def)
      then show ?thesis unfolding f cond_simps by (intro safe_ret) simp
    qed
    from safe_bind [OF this, of k] k' have "safe UNIV (r_owned c False) (\<lambda>t. t = s) (seq (cond (pIns s = None) ?p) k) (\<lambda>_. r_owned True False)"
      by simp
    then show "wpo (seq (gets pIns) (\<lambda>v. seq (cond (v = None) ?p) k)) (goes UNIV (\<lambda>_. r_owned True False) (r_owned c False)) s"
      by (simp add: safe_def)
  qed
  show ?thesis
    unfolding on_origin_page_def
    by (rule safe_seq, (intro owns_intros)[1], rule c) (intro owns_intros, simp_all add: r_owned_def)
qed

text \<open>Every other message keeps what holds of \<open>pIns\<close>.\<close>

lemma owns_replica_handle: "x \<noteq> OriginPage \<Longrightarrow> owns (r_owned c n) (replica_handle E x)"
  unfolding replica_handle_def on_origin_detail_def on_origin_ready_def by (intro owns_intros) simp_all

lemma r_owned_forget: "r_owned c n s \<Longrightarrow> r_owned False False s" "r_owned True n s \<Longrightarrow> r_owned c False s"
  by (auto simp: r_owned_def)

lemma owns_replica_step [owns_intros]: "owns (r_owned c False) (replica_step E)"
proof -
  have "owns (r_owned c False) (replica_handle E x)" for x
  proof (cases "x = OriginPage")
    case True
    have h: "replica_handle E OriginPage = on_origin_page E" by (simp add: replica_handle_def msg_byte_defs)
    show ?thesis unfolding True h by (rule safe_conseq [OF owns_on_origin_page]) (auto intro: r_owned_forget)
  qed (rule owns_replica_handle)
  then show ?thesis unfolding replica_step_def by (intro owns_intros)
qed

definition r_bare :: "'w replica \<Rightarrow> bool" where
  "r_bare s \<longleftrightarrow> \<not> db s \<and> openRows s = None \<and> pIns s = None"

definition r_done :: "'w replica \<Rightarrow> bool" where
  "r_done s \<longleftrightarrow> r_bare s \<or> r_owned False False s"

lemma r_bare_frames [owns_intros]: "wire_free r_bare" "within r_bare r_done" "within (r_owned False False) r_done" "within r_done r_done"
  by (auto simp: wire_free_def within_def r_bare_def r_done_def)

lemma owned_replica_body: "safe UNIV r_done r_bare (replica_body E) (\<lambda>_. r_done)"
proof -
  have comm: "safe UNIV r_done r_bare (replica_commCheck E) (\<lambda>_. r_done)"
    unfolding replica_commCheck_def by (intro owns_intros)
  have start: "safe UNIV r_done r_bare (replica_setup E) (\<lambda>_. r_owned False False)"
    unfolding replica_setup_def push_defer_def
    by (rule safe_modify_bind [where P' = r_bare], simp add: r_bare_def, rule safe_modify) (simp add: r_bare_def r_owned_def)
  have loop: "safe UNIV r_done (r_owned False False) (replica_loop E n) (\<lambda>_. r_done)" for n
    by (rule safe_weaken [OF _ r_bare_frames(3)], rule safe_conseq [OF typed_loop [of UNIV "r_owned False False" "r_owned False False" "replica_step E"]])
      (auto intro: owns_intros simp: r_done_def)
  have reg: "safe UNIV r_done r_bare (hash_Register E) (\<lambda>_. r_bare)"
    by (auto intro!: safeI simp: wpo_def hash_Register_def r_bare_def split: prod.splits)
  show ?thesis
    unfolding replica_body_def
    by (rule safe_seq, intro safe_intros reg owns_intros, intro safe_seq safe_if comm safe_bind [OF start] loop safe_intros)
      (simp_all add: r_bare_def)
qed

section \<open>The deferred calls\<close>

text \<open>What a variable holds has been closed.\<close>

fun is_closed :: "('w, 'x) rsync_scheme \<Rightarrow> stmt option \<Rightarrow> bool" where
  "is_closed s None = True"
| "is_closed s (Some (Stmt i sql)) = (i \<in> set (closedStmts s))"

text \<open>One deferred call closes what it is for, and opens nothing.\<close>

definition released :: "('w, 'x) rsync_scheme \<Rightarrow> ('w, 'x) rsync_scheme \<Rightarrow> bool" where
  "released s t \<longleftrightarrow> (db t \<longrightarrow> db s) \<and> (openRows t = None \<or> openRows t = openRows s) \<and>
     set (closedStmts s) \<subseteq> set (closedStmts t) \<and> rsync.more t = rsync.more s"

lemma released_trans: "released s t \<Longrightarrow> released t u \<Longrightarrow> released s u"
  by (auto simp: released_def)

fun given_back :: "deferral \<Rightarrow> ('w, 'x) rsync_scheme \<Rightarrow> stmt option \<Rightarrow> bool" where
  "given_back CloseDb t pin = (\<not> db t)"
| "given_back (CloseRows i) t pin = (openRows t \<noteq> Some i)"
| "given_back (CloseStmt st) t pin = is_closed t (Some st)"
| "given_back ClosePIns t pin = is_closed t pin"

lemma is_closed_released: "is_closed s v \<Longrightarrow> released s t \<Longrightarrow> is_closed t v"
  by (cases "(s, v)" rule: is_closed.cases) (auto simp: released_def)

lemma given_back_released: "given_back d s pin \<Longrightarrow> released s t \<Longrightarrow> given_back d t pin"
  by (cases d) (auto simp: is_closed_released simp del: is_closed.simps, auto simp: released_def)

lemma do_defer_released:
  assumes "do_defer E pins d s = (Val e, t)"
  shows "released s t \<and> given_back d t (pins s)"
proof (cases d)
  case (CloseStmt st)
  with assms show ?thesis by (cases st) (auto simp: released_def split: if_splits prod.splits)
next
  case ClosePIns
  show ?thesis
  proof (cases "pins s")
    case None
    with assms ClosePIns show ?thesis by (simp add: seq_gets_run)
  next
    case (Some st)
    with assms ClosePIns show ?thesis
      by (cases st) (auto simp: seq_gets_run released_def split: if_splits prod.splits)
  qed
qed (use assms in \<open>auto simp: released_def closeDb_def rows_Close_def split: if_splits prod.splits\<close>)

lemma do_defer_no_return: "do_defer E pins d s \<noteq> (Return e, t)"
proof (cases "d = ClosePIns")
  case True
  show ?thesis
  proof (cases "pins s")
    case (Some st)
    with True stmt_Close_returns [of E st s] show ?thesis by (auto simp: seq_gets_run)
  qed (simp add: True seq_gets_run)
next
  case False
  from do_defer_returns [OF this, of E pins s] show ?thesis by auto
qed

lemma run_defers_released:
  assumes "run_defers E pins ds err s = (Return e, t)"
    and "\<And>s t. rsync.more t = rsync.more s \<Longrightarrow> pins t = pins s"
  shows "released s t \<and> (\<forall>d \<in> set ds. given_back d t (pins s))"
  using assms(1)
proof (induction ds arbitrary: err s)
  case (Cons d ds)
  have "seq (do_defer E pins d) (\<lambda>e. run_defers E pins ds (join_errs [err, e])) s = (Return e, t)"
    using Cons.prems by simp
  then obtain e1 s1 where d: "do_defer E pins d s = (Val e1, s1)" "run_defers E pins ds (join_errs [err, e1]) s1 = (Return e, t)"
  proof (rule seq_cases)
    fix r s' assume "do_defer E pins d s = (Return r, s')"
    then show thesis by (simp add: do_defer_no_return)
  next
    fix p s' assume "(Return e, t) = (Panic p, s' :: ('a, 'b) rsync_scheme)"
    then show thesis by simp
  qed (rule that)
  note r = do_defer_released [OF d(1)]
  from Cons.IH [OF d(2)] have IH: "released s1 t" "\<forall>d \<in> set ds. given_back d t (pins s1)" by simp_all
  have "pins s1 = pins s" using r by (intro assms(2)) (simp add: released_def)
  with IH(2) have "\<forall>d \<in> set ds. given_back d t (pins s)" by (simp only:)
  moreover have "given_back d t (pins s)" using given_back_released [OF conjunct2 [OF r] IH(1)] .
  moreover have "released s t" using released_trans [OF conjunct1 [OF r] IH(1)] .
  ultimately show ?case by (simp only: list.set ball_simps)
qed (simp add: released_def)

section \<open>A call of a role\<close>

lemma with_defers_Return:
  assumes "with_defers E pins body s = (Return e, t)"
  obtains r u err where "body s = (r, u)" "\<forall>p. r \<noteq> Panic p" "run_defers E pins (defers u) err u = (Return e, t)"
proof -
  obtain r u where b: "body s = (r, u)" by fastforce
  have "\<exists>err. (\<forall>p. r \<noteq> Panic p) \<and> run_defers E pins (defers u) err u = (Return e, t)"
    using assms b by (cases r) (auto simp: with_defers_def call_def seq_def)
  with b that show thesis by blast
qed

lemma run_defers_no_Val: "fst (run_defers E pins ds err s) \<noteq> Val x"
proof (induction ds arbitrary: err s)
  case (Cons d ds)
  then show ?case using do_defer_no_return [of E pins d s]
    by (cases "do_defer E pins d s"; cases "fst (do_defer E pins d s)") (auto simp: seq_def)
qed simp

lemma with_defers_no_Val: "with_defers E pins body s \<noteq> (Val x, t)"
proof
  assume a: "with_defers E pins body s = (Val x, t)"
  obtain r u where b: "body s = (r, u)" by fastforce
  from a b have "\<exists>err. run_defers E pins (defers u) err u = (Val x, t)"
    by (cases r) (auto simp: with_defers_def call_def seq_def)
  with run_defers_no_Val show False by (metis fst_conv)
qed

lemma same_variables:
  "rsync.more t = rsync.more s \<Longrightarrow> pIns t = pIns s"
  "rsync.more v = rsync.more u \<Longrightarrow> pCkHash v = pCkHash u \<and> pCkHashN v = pCkHashN u \<and> pInsHash v = pInsHash u"
  by (cases s; cases t; simp) (cases u; cases v; simp)

lemma origin_releases:
  assumes "o_bare s" and "originSide E s = (Return e, t)"
  shows "\<not> db t \<and> openRows t = None \<and> is_closed t (pCkHash t) \<and> is_closed t (pCkHashN t) \<and> is_closed t (pInsHash t)"
proof -
  from assms(2) obtain r u err where b: "origin_body E s = (r, u)" "\<forall>p. r \<noteq> Panic p"
    and d: "run_defers E (\<lambda>_. None) (defers u) err u = (Return e, t)"
    unfolding originSide_def by (rule with_defers_Return)
  have u: "o_done u" using safeD [OF owned_origin_body assms(1) b(1)] b(2) by (cases r) auto
  from run_defers_released [OF d] have rel: "released u t" and gone: "\<And>x. x \<in> set (defers u) \<Longrightarrow> given_back x t None"
    by auto
  have v: "pCkHash t = pCkHash u" "pCkHashN t = pCkHashN u" "pInsHash t = pInsHash u"
    using same_variables(2) rel by (auto simp: released_def)
  show ?thesis
  proof (cases "o_bare u")
    case True
    with rel v show ?thesis by (auto simp: o_bare_def released_def)
  next
    case False
    with u have o: "o_owned u" by (simp add: o_done_def)
    have "is_closed t w" if "w \<in> {pCkHash u, pCkHashN u, pInsHash u}" for w
      using that o gone by (cases w) (auto simp: o_owned_def dest: given_back.simps(3) [THEN iffD1, OF gone])
    moreover have "\<not> db t" using o gone [of CloseDb] by (simp add: o_owned_def)
    moreover have "openRows t = None"
      using o rel gone by (cases "openRows u") (auto simp: o_owned_def released_def dest: given_back.simps(2) [THEN iffD1, OF gone])
    ultimately show ?thesis by (simp add: v)
  qed
qed

lemma replica_releases:
  assumes "r_bare s" and "replicaSide E s = (Return e, t)"
  shows "\<not> db t \<and> openRows t = None \<and> is_closed t (pIns t)"
proof -
  from assms(2) obtain r u err where b: "replica_body E s = (r, u)" "\<forall>p. r \<noteq> Panic p"
    and d: "run_defers E pIns (defers u) err u = (Return e, t)"
    unfolding replicaSide_def by (rule with_defers_Return)
  have u: "r_done u" using safeD [OF owned_replica_body assms(1) b(1)] b(2) by (cases r) auto
  from run_defers_released [OF d same_variables(1)] have rel: "released u t"
    and gone: "\<And>x. x \<in> set (defers u) \<Longrightarrow> given_back x t (pIns u)" by auto
  have v: "pIns t = pIns u" using same_variables(1) rel by (auto simp: released_def)
  show ?thesis
  proof (cases "r_bare u")
    case True
    with rel v show ?thesis by (auto simp: r_bare_def released_def)
  next
    case False
    with u have o: "r_owned False False u" by (simp add: r_done_def)
    have "is_closed t (pIns u)" using o gone [of ClosePIns] by (cases "pIns u") (auto simp: r_owned_def)
    moreover have "\<not> db t" using o gone [of CloseDb] by (simp add: r_owned_def)
    moreover have "openRows t = None" using o rel by (auto simp: r_owned_def released_def)
    ultimately show ?thesis by (simp add: v)
  qed
qed

section \<open>An ORIGIN_BEGIN after a page\<close>

text \<open>
  Once a page was accepted the closing of \<open>pIns\<close> is deferred for good; a further ORIGIN_BEGIN sets the
  variable to nil, and no message but another page sets it again. A run that ends in that state does not
  return: the deferred call dereferences the nil statement.
\<close>

abbreviation goes_on_with :: "'w env \<Rightarrow> 'w replica \<Rightarrow> 'w replica \<Rightarrow> bool" where
  "goes_on_with E \<equiv> (\<lambda>s t. replica_step E s = (Val (), t))\<^sup>*\<^sup>*"

abbreviation dangles :: "unit outcome \<Rightarrow> 'w replica \<Rightarrow> bool" where
  "dangles \<equiv> goes UNIV (\<lambda>_ _. False) (r_owned True True)"

lemma owned_prologue: "safe UNIV r_done r_bare (replica_prologue E) (\<lambda>_. r_owned False False)"
proof -
  have comm: "safe UNIV r_done r_bare (replica_commCheck E) (\<lambda>_. r_owned False False)"
    unfolding replica_commCheck_def by (intro owns_intros)
  have start: "safe UNIV r_done r_bare (replica_setup E) (\<lambda>_. r_owned False False)"
    unfolding replica_setup_def push_defer_def
    by (rule safe_modify_bind [where P' = r_bare], simp add: r_bare_def, rule safe_modify) (simp add: r_bare_def r_owned_def)
  have reg: "safe UNIV r_done r_bare (hash_Register E) (\<lambda>_. r_bare)"
    by (auto intro!: safeI simp: wpo_def hash_Register_def r_bare_def split: prod.splits)
  show ?thesis
    unfolding replica_prologue_def
    by (rule safe_seq, intro safe_intros reg owns_intros, intro safe_seq safe_if comm start safe_intros) (simp_all add: r_bare_def)
qed

lemma owned_steps: "goes_on_with E s t \<Longrightarrow> r_owned c False s \<Longrightarrow> r_owned c False t"
proof (induction rule: rtranclp_induct)
  case (step t u)
  with safeD [OF owns_replica_step, of c t E "Val ()" u] show ?case by simp
qed

lemma owned_next: "next_message s = (x, t) \<Longrightarrow> r_owned c n s \<Longrightarrow> r_owned c n t"
proof -
  have "owns (r_owned c n) next_message" by (intro owns_intros)
  then show "next_message s = (x, t) \<Longrightarrow> r_owned c n s \<Longrightarrow> r_owned c n t"
    by (cases x) (auto dest: safeD simp: next_message_def r_op_def seq_def r_owned_def stop_def ret_def panic_def split: prod.splits sum.splits if_splits)
qed

lemma begin_drops:
  assumes s: "r_owned True False s" and c: "snd (e_close E (world s)) = None" and b: "replica_handle E OriginBegin s = (r, t)"
  shows "goes UNIV (\<lambda>_. r_owned True True) (r_owned True True) r t"
proof -
  obtain w where "e_close E (world s) = (w, None)" using c by (metis prod.collapse)
  then obtain u where u: "closeDb E s = (Val None, u)" by (cases "db s") (simp_all add: closeDb_def)
  have "r_owned True False u" using safeD [OF owns_closeDb(1) s u] by simp
  then have n: "r_owned True True (u\<lparr>pIns := None\<rparr>)" by (simp add: r_owned_def)
  let ?rest = "seq rd_byte (\<lambda>proto. seq rd_pow2 (\<lambda>szOPage. seq rd_u32 (\<lambda>nOPage. seq (gets protocol) (\<lambda>p.
     if int (unat proto) > p then propose_protocol
     else seq (modify (\<lambda>s. s\<lparr>protocol := int (unat proto), pageCount := nOPage, pageSize := szOPage\<rparr>)) (\<lambda>_. open_replica E)))))"
  have o: "owns (r_owned True True) ?rest" by (intro owns_intros; simp add: r_owned_def)
  have "?rest (u\<lparr>pIns := None\<rparr>) = (r, t)"
    using b u by (simp add: replica_handle_def msg_byte_defs on_origin_begin_def seq_def try_err_def modify_def)
  from safeD [OF o n this] show ?thesis .
qed

lemma loop_dangles:
  assumes "r_owned True True s" and "\<And>t u. goes_on_with E s t \<Longrightarrow> next_message t \<noteq> (Val OriginPage, u)"
  shows "wpo (replica_loop E n) dangles s"
  using assms
proof (induction n arbitrary: s)
  case (Suc n)
  obtain x u where x: "next_message s = (x, u)" by fastforce
  note o = owned_next [OF x Suc.prems(1)]
  show ?case
  proof (cases x)
    case (Val c)
    with x Suc.prems(2) [of s] have "c \<noteq> OriginPage" by auto
    note h = owns_replica_handle [OF this, of True True E]
    obtain y v where y: "replica_handle E c u = (y, v)" by fastforce
    note g = safeD [OF h o y]
    have st: "replica_step E s = (y, v)" using x Val y by (simp add: replica_step_def seq_def)
    show ?thesis
    proof (cases y)
      case y1: (Val z)
      have "goes_on_with E s t" if "goes_on_with E v t" for t
        using converse_rtranclp_into_rtranclp [of "\<lambda>s t. replica_step E s = (Val (), t)", OF _ that] st y1 by simp
      with Suc.IH [of v] g y1 Suc.prems(2) have "wpo (replica_loop E n) dangles v" by (metis goes.simps(1))
      with st y1 show ?thesis by (simp add: wpo_seq) (simp add: wpo_def)
    qed (use st g in \<open>simp_all add: wpo_def seq_def\<close>)
  qed (use x o in \<open>simp_all add: wpo_def seq_def replica_step_def\<close>)
qed simp

lemma loop_before:
  assumes "goes_on_with E s t" and "\<And>n. wpo (replica_loop E n) dangles t"
  shows "wpo (replica_loop E n) dangles s"
  using assms
proof (induction arbitrary: n rule: converse_rtranclp_induct)
  case (step s u)
  then show ?case by (cases n) (simp_all add: wpo_seq, simp add: wpo_def)
qed

lemma begin_after_page:
  assumes b: "r_bare s0" and p: "replica_prologue E s0 = (Val (), s)"
    and page: "goes_on_with E s s1" "next_message s1 = (Val OriginPage, s2)" "replica_handle E OriginPage s2 = (Val (), s3)"
    and bg: "goes_on_with E s3 s4" "next_message s4 = (Val OriginBegin, s5)" "snd (e_close E (world s5)) = None"
      "replica_handle E OriginBegin s5 = (r, s6)"
    and no: "\<And>t u. r = Val () \<Longrightarrow> goes_on_with E s6 t \<Longrightarrow> next_message t \<noteq> (Val OriginPage, u)"
  shows "\<exists>q. fst (replicaSide E s0) = Panic q"
proof -
  have s: "r_owned False False s" using safeD [OF owned_prologue b p] by simp
  have "replica_handle E OriginPage = on_origin_page E" by (simp add: replica_handle_def msg_byte_defs)
  with page(3) safeD [OF owns_on_origin_page owned_next [OF page(2) owned_steps [OF page(1) s]]]
  have "r_owned True False s3" by fastforce
  from begin_drops [OF owned_next [OF bg(2) owned_steps [OF bg(1) this]] bg(3,4)]
  have g: "goes UNIV (\<lambda>_. r_owned True True) (r_owned True True) r s6" .
  have st: "replica_step E s4 = (r, s6)" using bg by (simp add: replica_step_def seq_def)
  have page_step: "replica_step E s1 = (Val (), s3)" using page by (simp add: replica_step_def seq_def)
  have 4: "wpo (replica_loop E n) dangles s4" for n
  proof (cases n)
    case (Suc m)
    show ?thesis
    proof (cases r)
      case (Val z)
      with loop_dangles [of s6 E m] g no have "wpo (replica_loop E m) dangles s6" by auto
      with st Val Suc show ?thesis by (simp add: wpo_seq) (simp add: wpo_def)
    qed (use st g Suc in \<open>simp_all add: wpo_def seq_def\<close>)
  qed simp
  have 3: "goes_on_with E s s3"
    using page(1) page_step rtranclp.rtrancl_into_rtrancl [of "\<lambda>s t. replica_step E s = (Val (), t)"] by blast
  from loop_before [OF rtranclp_trans [OF 3 bg(1)] 4] have l: "wpo (replica_loop E n) dangles s" for n .
  obtain x t where x: "replica_body E s0 = (x, t)" by fastforce
  with p have "replica_loop E (Suc (length (r_avail (rs_r s)))) s = (x, t)"
    by (simp add: replica_body_prologue seq_def gets_def del: replica_loop.simps)
  from wpoD [OF l this] have g: "dangles x t" .
  show ?thesis
  proof (cases x)
    case (Return e)
    with g have "ClosePIns \<in> set (defers t)" "pIns t = None" by (simp_all add: r_owned_def)
    from run_defers_nil [OF this] Return x show ?thesis
      by (simp add: replicaSide_def with_defers_def call_def seq_def gets_def)
  qed (use g x in \<open>simp_all add: replicaSide_def with_defers_def call_def seq_def gets_def\<close>)
qed

end
