(* ===== verification/EndToEnd.thy ===== *)
theory EndToEnd
  imports Sync
begin

text \<open>
  The synchronisation as a whole. Over sound engines and streams, every state the two processes can
  reach stands for a state of the abstract protocol (\<open>sync_rel\<close>): the run states for the roles, the bytes
  read ahead and in flight for the messages. So the invariant, the progress and the termination
  argument of the protocol hold of the code, whatever the interleaving and the chunks.
\<close>

section \<open>The bytes in flight\<close>

lemma enc_rmsg_nonempty [simp]: "enc_rmsg m \<noteq> []" "[] \<noteq> enc_rmsg m"
  by (cases m; simp)+

lemma enc_omsg_nonempty [simp]: "enc_omsg m \<noteq> []" "[] \<noteq> enc_omsg m"
  by (cases m; simp)+

text \<open>What has arrived of a sequence of messages: nothing is due, or the first message is complete, or it is not.\<close>

lemma first_message:
  assumes "\<And>m. enc m \<noteq> []" and "a @ b = concat (map enc q)"
  obtains "q = []" "a = []" "b = []"
  | m ms rest where "q = m # ms" "a = enc m @ rest" "rest @ b = concat (map enc ms)"
  | m ms where "q = m # ms" "strict_prefix a (enc m)" "b \<noteq> []"
proof (cases q)
  case Nil
  with assms(2) that(1) show thesis by simp
next
  case (Cons m ms)
  with assms(2) have "a @ b = enc m @ concat (map enc ms)" by simp
  then consider (more) us where "a = enc m @ us" "us @ b = concat (map enc ms)"
    | (less) us where "a @ us = enc m" "b = us @ concat (map enc ms)"
    by (auto simp: append_eq_append_conv2)
  then show thesis
  proof cases
    case more
    with Cons that(2) show thesis by blast
  next
    case less
    show thesis
    proof (cases "us = []")
      case True
      with less Cons that(2) [of m ms "[]"] show thesis by simp
    next
      case False
      with less have "strict_prefix a (enc m)" by (metis prefixI prefix_order.le_neq_trans append_self_conv)
      with Cons False less that(3) show thesis by simp
    qed
  qed
qed

section \<open>The relation to the protocol\<close>

text \<open>Streams over which nothing has passed yet.\<close>

definition streams_fresh :: "('w, 'x) rsync_scheme \<Rightarrow> bool" where
  "streams_fresh s \<longleftrightarrow> r_wait (rs_r s) \<and> r_avail (rs_r s) = [] \<and> bytesRead (rs_r s) = 0 \<and>
     w_live (rs_w s) \<and> w_sent (rs_w s) = [] \<and> w_buf (rs_w s) = [] \<and> bytesWritten (rs_w s) = 0"

text \<open>Two runs that can synchronise their databases.\<close>

definition sync_setting :: "('w \<Rightarrow> odb) \<Rightarrow> ('v \<Rightarrow> rdb) \<Rightarrow> 'w origin \<Rightarrow> 'v replica \<Rightarrow> bool" where
  "sync_setting odb_of rdb_of so sr \<longleftrightarrow>
     (let d = odb_of (world so); d0 = rdb_of (world sr); sz = o_psize d
      in fresh_run so \<and> streams_fresh so \<and> \<not> commCheck so \<and> (walOnly so \<longrightarrow> o_mode d = ''wal'') \<and>
         fresh_run sr \<and> streams_fresh sr \<and> \<not> commCheck sr \<and> pIns sr = None \<and>
         r_close d0 = d0 \<and> replicaPath sr = r_path d0 \<and> startable d0 sz (walOnly sr) \<and>
         setting (o_pages d) (start_pages sz d0) sz (start_mode d0))"

text \<open>The statistics of the two sides, from the protocol's state and the bytes of the streams.\<close>

definition o_stats :: "psys \<Rightarrow> nat \<Rightarrow> nat \<Rightarrow> Stats" where
  "o_stats p sent got =
     \<lparr>st_BytesSent = of_nat sent, st_BytesReceived = of_nat got, st_HashMessages = sp_hashes (p_o p),
      st_HashRounds = sp_rounds (p_o p), st_PageUpdates = sp_sent (p_o p), st_PageCount = sp_count (p_o p),
      st_PageSize = o_psize (sp_db (p_o p)), st_Protocol = sp_proto (p_o p)\<rparr>"

definition r_stats :: "psys \<Rightarrow> nat \<Rightarrow> nat \<Rightarrow> Stats" where
  "r_stats p sent got =
     \<lparr>st_BytesSent = of_nat sent, st_BytesReceived = of_nat got, st_HashMessages = rq_hashes (p_r p),
      st_HashRounds = rq_rounds (p_r p), st_PageUpdates = rq_pages (p_r p), st_PageCount = rq_count (p_r p),
      st_PageSize = rq_size (p_r p), st_Protocol = rq_proto (p_r p)\<rparr>"

definition begin_msg :: "odb \<Rightarrow> int \<Rightarrow> omsg" where
  "begin_msg d p = MBegin (word_of_int p) (o_psize d) (of_nat (length (o_pages d)))"

text \<open>The bytes written on each side; ORIGIN_BEGIN is due as long as the origin has not started.\<close>

abbreviation o_sent :: "('w, 'v) sync \<Rightarrow> bytes" where
  "o_sent x \<equiv> w_sent (rs_w (s_o x))"

abbreviation r_sent :: "('w, 'v) sync \<Rightarrow> bytes" where
  "r_sent x \<equiv> w_sent (rs_w (s_r x))"

definition due :: "('w \<Rightarrow> odb) \<Rightarrow> 'w origin \<Rightarrow> status \<Rightarrow> bytes" where
  "due odb_of so a = (if a = NotStarted then enc_omsg (begin_msg (odb_of (world so)) (protocol so)) else [])"

definition writer_rel :: "Writer \<Rightarrow> bool" where
  "writer_rel w \<longleftrightarrow> w_buf w = [] \<and> bytesWritten w = of_nat (length (w_sent w))"

definition reader_rel :: "Reader \<Rightarrow> nat \<Rightarrow> bool" where
  "reader_rel r got \<longleftrightarrow> bytesRead r + of_nat (length (r_avail r)) = of_nat got"

definition o_side :: "('w \<Rightarrow> odb) \<Rightarrow> 'w origin \<Rightarrow> ('w, 'v) sync \<Rightarrow> psys \<Rightarrow> bool" where
  "o_side odb_of so x p \<longleftrightarrow> writer_rel (rs_w (s_o x)) \<and>
     concat (map enc_omsg (said p)) = o_sent x @ due odb_of so (o_at x) \<and>
     (case o_at x of
        NotStarted \<Rightarrow> (\<exists>r. s_o x = so\<lparr>rs_r := r\<rparr>) \<and> io_ok (s_o x) \<and> p_o p = o_start (odb_of (world so)) (protocol so)
      | Looping \<Rightarrow> o_ok odb_of (s_o x) \<and> io_ok (s_o x) \<and> o_abs odb_of (s_o x) = p_o p
      | Finished e \<Rightarrow> e = None \<and> ended p \<and> returned (r_at x) \<and> stats (s_o x) = o_stats p (length (o_sent x)) (length (r_sent x))
      | Crashed m \<Rightarrow> False)"

definition r_side :: "('v \<Rightarrow> rdb) \<Rightarrow> 'v replica \<Rightarrow> ('w, 'v) sync \<Rightarrow> psys \<Rightarrow> bool" where
  "r_side rdb_of sr x p \<longleftrightarrow> writer_rel (rs_w (s_r x)) \<and> returned (r_at x) = ended p \<and>
     r_file (rdb_of (world (s_r x))) = r_file (rq_db (p_r p)) \<and>
     (case r_at x of
        NotStarted \<Rightarrow> (\<exists>r. s_r x = sr\<lparr>rs_r := r\<rparr>) \<and> io_ok (s_r x) \<and>
          p_r p = r_start (rdb_of (world sr)) (protocol sr) (walOnly sr) (pageSize sr) (pageCount sr) (jMode sr)
      | Looping \<Rightarrow> r_ok rdb_of (s_r x) \<and> io_ok (s_r x) \<and> r_abs rdb_of (s_r x) = p_r p
      | Finished e \<Rightarrow> e = None \<and> stats (s_r x) = r_stats p (length (r_sent x)) (length (o_sent x))
      | Crashed m \<Rightarrow> False)"

definition o_chan :: "('w, 'v) sync \<Rightarrow> psys \<Rightarrow> bool" where
  "o_chan x p \<longleftrightarrow> o_got x \<le> length (r_sent x) \<and>
     (if returned (o_at x) then o_got x = length (r_sent x)
      else reader_rel (rs_r (s_o x)) (o_got x) \<and> r_avail (rs_r (s_o x)) @ to_origin x = concat (map enc_rmsg (to_o p)) \<and>
        (r_end (rs_r (s_o x)) = Blocked \<or> r_end (rs_r (s_o x)) = EOF \<and> returned (r_at x) \<and> to_origin x = []))"

definition r_chan :: "('w \<Rightarrow> odb) \<Rightarrow> 'w origin \<Rightarrow> ('w, 'v) sync \<Rightarrow> psys \<Rightarrow> bool" where
  "r_chan odb_of so x p \<longleftrightarrow> r_got x \<le> length (o_sent x) \<and>
     (if returned (r_at x) then r_got x = length (o_sent x) \<and> o_at x \<noteq> NotStarted
      else reader_rel (rs_r (s_r x)) (r_got x) \<and>
        r_avail (rs_r (s_r x)) @ to_replica x @ due odb_of so (o_at x) = concat (map enc_omsg (to_r p)) \<and>
        r_end (rs_r (s_r x)) = Blocked)"

definition sync_rel ::
  "('w \<Rightarrow> odb) \<Rightarrow> ('v \<Rightarrow> rdb) \<Rightarrow> 'w origin \<Rightarrow> 'v replica \<Rightarrow> ('w, 'v) sync \<Rightarrow> psys \<Rightarrow> bool" where
  "sync_rel odb_of rdb_of so sr x p \<longleftrightarrow>
     protocol_inv (o_pages (odb_of (world so))) (rdb_of (world sr)) (o_psize (odb_of (world so))) p \<and>
     history (o_pages (odb_of (world so))) (rdb_of (world sr)) (o_psize (odb_of (world so))) p \<and>
     tally p \<and> rq_wal (p_r p) = walOnly sr \<and>
     o_side odb_of so x p \<and> r_side rdb_of sr x p \<and> o_chan x p \<and> r_chan odb_of so x p"

section \<open>Readers and the relation\<close>

lemma reader_simps [simp]:
  "o_ok odb_of (s\<lparr>rs_r := r\<rparr>) = o_ok odb_of s" "o_abs odb_of (s\<lparr>rs_r := r\<rparr>) = o_abs odb_of s"
  "r_ok rdb_of (t\<lparr>rs_r := r\<rparr>) = r_ok rdb_of t" "r_abs rdb_of (t\<lparr>rs_r := r\<rparr>) = r_abs rdb_of t"
  by (simp_all add: o_ok_def o_abs_def r_ok_def r_abs_def)

lemma io_ok_reader [simp]: "r_live r = r_live (rs_r s) \<Longrightarrow> io_ok (s\<lparr>rs_r := r\<rparr>) = io_ok s"
  by (simp add: io_ok_def)

lemma stats_reader [simp]: "bytesRead r = bytesRead (rs_r s) \<Longrightarrow> stats (s\<lparr>rs_r := r\<rparr>) = stats s"
  by (simp add: stats_def BytesRead_def)

text \<open>After a message is taken the stream has moved on, and the counters with it.\<close>

lemma moved_reader: "moved s rest d s' \<Longrightarrow> reader_rel (rs_r s) n \<Longrightarrow> reader_rel (rs_r s') n"
  by (simp add: moved_def r_now_def reader_rel_def)

lemma moved_sent: "moved s rest d s' \<Longrightarrow> writer_rel (rs_w s) \<Longrightarrow> w_sent (rs_w s') = w_sent (rs_w s) @ d"
  by (auto simp: moved_def w_now_def writer_rel_def w_queued_sent_buf)

lemma moved_writer: "moved s rest d s' \<Longrightarrow> writer_rel (rs_w s) \<Longrightarrow> writer_rel (rs_w s')"
  using moved_sent [of s rest d s'] by (auto simp: moved_def w_now_def writer_rel_def)

lemma moved_simps: "moved s rest d s' \<Longrightarrow> r_avail (rs_r s') = rest \<and> r_end (rs_r s') = r_end (rs_r s) \<and> io_ok s'"
  by (auto simp: moved_def r_now_def w_now_def io_ok_def)

section \<open>Turns\<close>

lemma settle_Val [simp]: "settle E pins (Val u, s) = Some (Looping, s)"
  by (simp add: settle_def)

lemma settle_Blocked [simp]: "settle E pins (Return (Some Blocked), s) = None"
  by (simp add: settle_def)

lemma settle_Return:
  assumes "e \<noteq> Some Blocked" and "wpo (run_defers E pins (defers s) e) (\<lambda>r s'. r = Return e' \<and> Q s') s"
  shows "\<exists>s'. settle E pins (Return e, s) = Some (Finished e', s') \<and> Q s'"
  using assms by (auto simp: settle_def wpo_def split: prod.splits)

locale sync_engines =
  o: sound_origin_engine E1 odb_of + r: sound_replica_engine E2 rdb_of
  for E1 :: "'w env" and odb_of :: "'w \<Rightarrow> odb" and E2 :: "'v env" and rdb_of :: "'v \<Rightarrow> rdb"
begin

lemma origin_takes:
  assumes "o_ok odb_of s" and "io_ok s" and "o_ready (o_abs odb_of s) m" and "r_avail (rs_r s) = enc_rmsg m @ rest"
  obtains s' out where "origin_turn E1 Looping s = Some (Looping, s')" "o_ok odb_of s'"
    "o_spec (o_abs odb_of s) m (o_abs odb_of s') out" "moved s rest (concat (map enc_omsg out)) s'"
proof -
  obtain r s' where t: "origin_step E1 s = (r, s')" by fastforce
  from wpoD [OF o.origin_step_refines [OF assms] t] t that show thesis
    by (auto simp: o_taken_def origin_turn_def)
qed

lemma origin_waits:
  assumes "o_ok odb_of s" and "io_ok s" and "r_end (rs_r s) = Blocked"
    and "\<And>h. m = NHash h \<Longrightarrow> length h = 20" and "strict_prefix (r_avail (rs_r s)) (enc_rmsg m)"
  shows "origin_turn E1 Looping s = None"
proof -
  have "r_wait (rs_r s)" using assms(2,3) by (simp add: r_wait_def io_ok_def)
  from o.origin_step_waits [OF assms(1) this assms(4,5)] show ?thesis
    by (auto simp: origin_turn_def wpo_def split: prod.splits)
qed

lemma origin_ends:
  assumes ok: "o_ok odb_of s" and io: "io_ok s" and e: "r_end (rs_r s) = EOF" "r_avail (rs_r s) = []"
  obtains s' where "origin_turn E1 Looping s = Some (Finished None, s')" "stats s' = stats s" "rs_w s' = rs_w s"
proof -
  from o.origin_step_ends [of s] io e obtain r' where
    t: "origin_step E1 s = (Return None, s\<lparr>rs_r := r'\<rparr>)" and b: "bytesRead r' = bytesRead (rs_r s)"
    by (auto simp: io_ok_def)
  have "ClosePIns \<notin> set (defers (s\<lparr>rs_r := r'\<rparr>))" "openRows (s\<lparr>rs_r := r'\<rparr>) = None"
    using ok by (simp_all add: o_ok_def)
  note d = o.origin_defers [OF this]
  from settle_Return [OF _ d] t b that show thesis by (auto simp: origin_turn_def)
qed

lemma origin_starts:
  assumes f: "fresh_run s" and io: "io_ok s" and cc: "\<not> commCheck s" and d: "d = odb_of (world s)"
    and sz: "pow2_size (o_psize d)" "length (o_pages d) < 2 ^ 32" and wal: "walOnly s \<longrightarrow> o_mode d = ''wal''"
  obtains s' where "origin_turn E1 NotStarted s = Some (Looping, s')" "o_ok odb_of s'"
    "o_abs odb_of s' = o_start d (protocol s)" "moved s (r_avail (rs_r s)) (enc_omsg (begin_msg d (protocol s))) s'"
proof -
  obtain r s' where t: "origin_prologue E1 s = (r, s')" by fastforce
  from wpoD [OF o.wpo_origin_prologue [OF f io cc d sz wal] t] t io that show thesis
    by (auto simp: origin_turn_def begin_msg_def moved_def r_now_def io_ok_def)
qed

lemma replica_takes:
  assumes "r_ok rdb_of s" and "io_ok s" and "r_ready (r_abs rdb_of s) m" and "r_avail (rs_r s) = enc_omsg m @ rest"
  obtains s' out where "replica_turn E2 Looping s = Some (Looping, s')" "r_ok rdb_of s'"
    "r_spec (r_abs rdb_of s) m (r_abs rdb_of s') out" "moved s rest (concat (map enc_rmsg out)) s'"
proof -
  obtain r s' where t: "replica_step E2 s = (r, s')" by fastforce
  from wpoD [OF r.replica_step_refines [OF assms] t] t that show thesis
    by (auto simp: r_taken_def replica_turn_def)
qed

lemma replica_waits:
  assumes ok: "r_ok rdb_of s" and "io_ok s" and "r_end (rs_r s) = Blocked"
    and rd: "m = MEnd \<or> r_ready (r_abs rdb_of s) m" and pre: "strict_prefix (r_avail (rs_r s)) (enc_omsg m)"
  shows "replica_turn E2 Looping s = None"
proof -
  have w: "r_wait (rs_r s)" using assms(2,3) by (simp add: r_wait_def io_ok_def)
  have "int (length d) = pageSize s \<and> db s" if "m = MPage p d" for p d
  proof -
    from rd that have "on_page (r_abs rdb_of s) p d \<noteq> None" "int (length d) = pageSize s" by (auto simp: r_abs_def)
    then show ?thesis using r_ok_open [OF ok] by (auto simp: on_page_def r_abs_def split: if_splits)
  qed
  moreover have "pow2_size sz" if "m = MBegin p sz n" for p sz n using rd that by auto
  ultimately show ?thesis using r.replica_step_waits [OF ok w _ _ pre]
    by (auto simp: replica_turn_def wpo_def split: prod.splits)
qed

lemma replica_ends:
  assumes ok: "r_ok rdb_of s" and io: "io_ok s" and av: "r_avail (rs_r s) = enc_omsg MEnd"
  obtains s' r' where "replica_turn E2 Looping s = Some (Finished None, s')" "stats s' = stats (s\<lparr>rs_r := r'\<rparr>)"
    "rs_w s' = rs_w s" "r_now (rs_r s) [] r'" "r_file (rdb_of (world s')) = r_file (rdb_of (world s))"
proof -
  obtain x t where st: "replica_step E2 s = (x, t)" by fastforce
  from wpoD [OF r.replica_step_end [OF io, of "[]"] st] av obtain r' where
    t: "x = Return None" "t = s\<lparr>rs_r := r'\<rparr>" "r_now (rs_r s) [] r'" by auto
  have "set (defers t) \<subseteq> {CloseDb, ClosePIns}" "ClosePIns \<in> set (defers t) \<longrightarrow> pIns t \<noteq> None"
    using ok by (simp_all add: r_ok_def t)
  note d = r.replica_defers [OF this]
  from settle_Return [OF _ d] t st that show thesis by (auto simp: replica_turn_def)
qed

lemma replica_starts:
  assumes "fresh_run s" and io: "io_ok s" and "\<not> commCheck s" "pIns s = None"
    and "d = rdb_of (world s)" "r_close d = d" "replicaPath s = r_path d"
  obtains s' where "replica_turn E2 NotStarted s = Some (Looping, s')" "r_ok rdb_of s'"
    "r_abs rdb_of s' = r_start d (protocol s) (walOnly s) (pageSize s) (pageCount s) (jMode s)"
    "moved s (r_avail (rs_r s)) [] s'"
proof -
  obtain r s' where t: "replica_prologue E2 s = (r, s')" by fastforce
  from wpoD [OF r.wpo_replica_prologue [OF assms] t] t io that show thesis
    by (auto simp: replica_turn_def moved_def r_now_def io_ok_def)
qed

end

section \<open>Every step stands for one of the protocol, or none\<close>

definition p_start :: "('w \<Rightarrow> odb) \<Rightarrow> ('v \<Rightarrow> rdb) \<Rightarrow> 'w origin \<Rightarrow> 'v replica \<Rightarrow> psys" where
  "p_start odb_of rdb_of so sr =
     \<lparr>p_o = o_start (odb_of (world so)) (protocol so),
      p_r = r_start (rdb_of (world sr)) (protocol sr) (walOnly sr) (pageSize sr) (pageCount sr) (jMode sr),
      to_o = [], to_r = [begin_msg (odb_of (world so)) (protocol so)], ended = False,
      said = [begin_msg (odb_of (world so)) (protocol so)]\<rparr>"

text \<open>What remains besides the protocol's own steps: to start, to return, to deliver, to close.\<close>

definition rank :: "status \<Rightarrow> nat" where
  "rank a = (case a of NotStarted \<Rightarrow> 2 | Looping \<Rightarrow> 1 | _ \<Rightarrow> 0)"

definition busy :: "('w, 'v) sync \<Rightarrow> nat" where
  "busy x = rank (o_at x) + rank (r_at x)"

definition transit :: "('w, 'v) sync \<Rightarrow> nat" where
  "transit x = length (to_origin x) + length (to_replica x) +
     (if r_end (rs_r (s_o x)) = Blocked then 1 else 0) + (if r_end (rs_r (s_r x)) = Blocked then 1 else 0)"

definition goes_on :: "('w, 'v) sync \<Rightarrow> psys \<Rightarrow> ('w, 'v) sync \<Rightarrow> psys \<Rightarrow> bool" where
  "goes_on x p x' p' \<longleftrightarrow> psys_step p p' \<or> p' = p \<and> (busy x' < busy x \<or> busy x' = busy x \<and> transit x' < transit x)"

lemma fresh_run_reader [simp]: "fresh_run (s\<lparr>rs_r := r\<rparr>) = fresh_run s"
  by (simp add: fresh_run_def)

lemma ended_quiet: "protocol_inv og d0 sz p \<Longrightarrow> ended p \<Longrightarrow> to_o p = []"
  using protocol_inv_ended by blast

lemma end_last: "protocol_inv og d0 sz p \<Longrightarrow> to_r p = MEnd # ms \<Longrightarrow> ms = []"
  by (auto simp: protocol_inv_def phase_begin_def phase_propose_def phase_hash_def phase_detail_def
      detail_rows_def phase_pages_def pages_rows_def phase_committed_def detail_msgs_def page_queue_def
      Cons_eq_append_conv Cons_eq_map_conv split: if_splits)

lemma setting_count: "setting og rp sz jm \<Longrightarrow> length og < 2 ^ 32"
  by (auto simp: setting_def wf_file_def)

lemma settingD:
  assumes "sync_setting odb_of rdb_of so sr"
  shows "setting (o_pages (odb_of (world so))) (start_pages (o_psize (odb_of (world so))) (rdb_of (world sr)))
      (o_psize (odb_of (world so))) (start_mode (rdb_of (world sr)))"
    and "startable (rdb_of (world sr)) (o_psize (odb_of (world so))) (walOnly sr)"
    and "pow2_size (o_psize (odb_of (world so)))"
    and "fresh_run so" "streams_fresh so" "\<not> commCheck so" "walOnly so \<longrightarrow> o_mode (odb_of (world so)) = ''wal''"
    and "fresh_run sr" "streams_fresh sr" "\<not> commCheck sr" "pIns sr = None"
    and "r_close (rdb_of (world sr)) = rdb_of (world sr)" "replicaPath sr = r_path (rdb_of (world sr))"
  using assms by (simp_all add: sync_setting_def Let_def startable_def)

lemma stats_origin:
  assumes "o_ok odb_of s" and "o_abs odb_of s = p_o p" and "writer_rel (rs_w s)" and "reader_rel (rs_r s) got"
    and "r_avail (rs_r s) = []"
  shows "stats s = o_stats p (length (w_sent (rs_w s))) got"
proof -
  have "p_o p = o_abs odb_of s" using assms(2) by simp
  then show ?thesis
    using assms by (simp add: stats_def o_stats_def o_abs_def o_ok_def writer_rel_def reader_rel_def
        BytesRead_def BytesWritten_def)
qed

lemma stats_replica:
  assumes "r_abs rdb_of s = p_r p" and "writer_rel (rs_w s)" and "reader_rel r got" and "r_avail r = []"
  shows "stats (s\<lparr>rs_r := r\<rparr>) = r_stats p (length (w_sent (rs_w s))) got"
proof -
  have "p_r p = r_abs rdb_of s" using assms(1) by simp
  then show ?thesis
    using assms by (simp add: stats_def r_stats_def r_abs_def writer_rel_def reader_rel_def
        BytesRead_def BytesWritten_def)
qed

context sync_engines
begin

abbreviation rel where
  "rel \<equiv> sync_rel odb_of rdb_of"

lemma rel_start:
  assumes "sync_setting odb_of rdb_of so sr"
  shows "rel so sr (sync_start so sr) (p_start odb_of rdb_of so sr)"
proof -
  note s = settingD [OF assms]
  let ?d = "odb_of (world so)"
  have f: "0 < protocol so" "protocol so < 256" "0 < protocol sr" "protocol sr < 256"
    using s(4,8) by (simp_all add: fresh_run_def)
  have "int (unat (word_of_int (protocol so) :: byte)) = protocol so"
    using f by (simp add: unsigned_of_int take_bit_int_eq_self)
  moreover have "uint (of_nat (length (o_pages ?d)) :: u32) = int (length (o_pages ?d))"
    using setting_count [OF s(1)] by (simp add: unsigned_of_nat take_bit_nat_eq_self)
  ultimately have "phase_begin (o_pages ?d) (rdb_of (world sr)) (o_psize ?d) (p_start odb_of rdb_of so sr)"
    using f by (auto simp: phase_begin_def begin_static_def p_start_def origin_const_def o_start_def r_start_def begin_msg_def)
  then have "protocol_inv (o_pages ?d) (rdb_of (world sr)) (o_psize ?d) (p_start odb_of rdb_of so sr)"
    "history (o_pages ?d) (rdb_of (world sr)) (o_psize ?d) (p_start odb_of rdb_of so sr)"
    by (simp_all add: protocol_inv_def history_def early_def p_start_def begin_msg_def)
  moreover have "tally (p_start odb_of rdb_of so sr)"
    by (simp add: tally_def p_start_def o_start_def r_start_def)
  moreover have "io_ok so" "io_ok sr" using s(5,9) by (simp_all add: streams_fresh_def io_ok_def r_wait_def)
  moreover have "\<exists>r. so = so\<lparr>rs_r := r\<rparr>" "\<exists>r. sr = sr\<lparr>rs_r := r\<rparr>" by (metis rsync.surjective rsync.update_convs(2))+
  ultimately show ?thesis
    using s(5,9)
    by (simp add: sync_rel_def o_side_def r_side_def o_chan_def r_chan_def sync_start_def streams_fresh_def
        writer_rel_def reader_rel_def to_origin_def to_replica_def due_def r_wait_def)
      (simp add: p_start_def r_start_def)
qed

lemma rel_origin_start:
  assumes set: "sync_setting odb_of rdb_of so sr" and rel: "rel so sr x p" and at: "o_at x = NotStarted"
  obtains s where "origin_turn E1 (o_at x) (s_o x) = Some (Looping, s)" "rel so sr (x\<lparr>s_o := s, o_at := Looping\<rparr>) p"
proof -
  note st = settingD [OF set]
  from rel at obtain r where so: "s_o x = so\<lparr>rs_r := r\<rparr>" and io: "io_ok (s_o x)"
    and p: "p_o p = o_start (odb_of (world so)) (protocol so)" and wr: "writer_rel (rs_w (s_o x))"
    by (auto simp: sync_rel_def o_side_def)
  obtain s where t: "origin_turn E1 NotStarted (s_o x) = Some (Looping, s)" and ok: "o_ok odb_of s"
    and ab: "o_abs odb_of s = o_start (odb_of (world so)) (protocol so)"
    and mv: "moved (s_o x) (r_avail (rs_r (s_o x))) (enc_omsg (begin_msg (odb_of (world so)) (protocol so))) s"
    by (rule origin_starts [of "s_o x" "odb_of (world so)"])
      (use st(3,4,6,7) io setting_count [OF st(1)] in \<open>simp_all add: so\<close>)
  have nr: "\<not> returned (r_at x)" using rel at by (auto simp: sync_rel_def r_chan_def)
  have "rel so sr (x\<lparr>s_o := s, o_at := Looping\<rparr>) p"
    using rel at nr ok ab p moved_writer [OF mv wr] moved_simps [OF mv] moved_sent [OF mv wr]
      moved_reader [OF mv, of "o_got x"]
    by (auto simp: sync_rel_def o_side_def r_side_def o_chan_def r_chan_def to_origin_def to_replica_def due_def
        split: status.splits)
  with t at that show thesis by simp
qed

text \<open>A turn of the origin's loop takes the first message when it is complete, waits, or ends the run.\<close>

lemma rel_origin_take:
  assumes set: "sync_setting odb_of rdb_of so sr" and rel: "rel so sr x p" and at: "o_at x = Looping"
    and q: "to_o p = m # ms" and av: "r_avail (rs_r (s_o x)) = enc_rmsg m @ rest"
      "rest @ to_origin x = concat (map enc_rmsg ms)"
  obtains s p' where "origin_turn E1 (o_at x) (s_o x) = Some (Looping, s)" "psys_step p p'"
    "rel so sr (x\<lparr>s_o := s\<rparr>) p'"
proof -
  note st = settingD [OF set]
  from rel at have inv: "protocol_inv (o_pages (odb_of (world so))) (rdb_of (world sr)) (o_psize (odb_of (world so))) p"
    and h: "history (o_pages (odb_of (world so))) (rdb_of (world sr)) (o_psize (odb_of (world so))) p"
    and t: "tally p" and ok: "o_ok odb_of (s_o x)" and io: "io_ok (s_o x)" and ab: "o_abs odb_of (s_o x) = p_o p"
    and wr: "writer_rel (rs_w (s_o x))"
    by (simp_all add: sync_rel_def o_side_def)
  have "o_ready (o_abs odb_of (s_o x)) m" using o_ready_head [OF st(1) inv q] ab by simp
  from origin_takes [OF ok io this av(1)] obtain s out where
    turn: "origin_turn E1 Looping (s_o x) = Some (Looping, s)" and ok': "o_ok odb_of s"
    and spec: "o_spec (p_o p) m (o_abs odb_of s) out" and mv: "moved (s_o x) rest (concat (map enc_omsg out)) s"
    by (metis ab)
  let ?p = "p\<lparr>p_o := o_abs odb_of s, to_o := ms, to_r := to_r p @ out, said := said p @ out\<rparr>"
  from psys_step.origin [OF q spec] have step: "psys_step p ?p" .
  have "\<not> ended p" using ended_quiet [OF inv] q by auto
  then have nr: "\<not> returned (r_at x)" using rel by (simp add: sync_rel_def r_side_def)
  have "rel so sr (x\<lparr>s_o := s\<rparr>) ?p"
    using rel at nr ok' av(2) protocol_inv_step [OF st(1) inv step] tally_step [OF st(1) inv t step] history_step [OF st(1) h step]
      moved_writer [OF mv wr] moved_simps [OF mv] moved_sent [OF mv wr] moved_reader [OF mv, of "o_got x"]
    by (auto simp: sync_rel_def o_side_def r_side_def o_chan_def r_chan_def to_origin_def to_replica_def due_def
        split: status.splits)
  with turn at step that show thesis by simp
qed

lemma rel_origin_turn:
  assumes set: "sync_setting odb_of rdb_of so sr" and rel: "rel so sr x p"
    and t: "origin_turn E1 (o_at x) (s_o x) = Some (a, s)"
  shows "\<exists>p'. rel so sr (x\<lparr>s_o := s, o_at := a\<rparr>) p' \<and> goes_on x p (x\<lparr>s_o := s, o_at := a\<rparr>) p'"
proof (cases "o_at x")
  case NotStarted
  from rel_origin_start [OF set rel NotStarted] t obtain s' where "a = Looping" "s = s'"
    "rel so sr (x\<lparr>s_o := s', o_at := Looping\<rparr>) p" by (metis option.inject prod.inject)
  then show ?thesis using NotStarted by (auto simp: goes_on_def busy_def rank_def)
next
  case Looping
  from rel have inv: "protocol_inv (o_pages (odb_of (world so))) (rdb_of (world sr)) (o_psize (odb_of (world so))) p"
    and ch: "r_avail (rs_r (s_o x)) @ to_origin x = concat (map enc_rmsg (to_o p))"
      "reader_rel (rs_r (s_o x)) (o_got x)" "o_got x \<le> length (r_sent x)"
      "r_end (rs_r (s_o x)) = Blocked \<or> r_end (rs_r (s_o x)) = EOF \<and> returned (r_at x) \<and> to_origin x = []"
    and sd: "o_ok odb_of (s_o x)" "io_ok (s_o x)" "o_abs odb_of (s_o x) = p_o p" "writer_rel (rs_w (s_o x))"
    using Looping by (auto simp: sync_rel_def o_side_def o_chan_def)
  show ?thesis
  proof (rule first_message [OF enc_rmsg_nonempty(1) ch(1)], goal_cases)
    case 1
    have eof: "r_end (rs_r (s_o x)) = EOF" "returned (r_at x)" "to_origin x = []"
    proof -
      have "strict_prefix (r_avail (rs_r (s_o x))) (enc_rmsg NReady)" using 1 by simp
      from origin_waits [OF sd(1,2) _ _ this] t Looping ch(4)
      show "r_end (rs_r (s_o x)) = EOF" "returned (r_at x)" "to_origin x = []" by auto
    qed
    obtain s' where "origin_turn E1 Looping (s_o x) = Some (Finished None, s')" "stats s' = stats (s_o x)"
      "rs_w s' = rs_w (s_o x)" by (rule origin_ends [OF sd(1,2) eof(1) 1(2)])
    with t Looping have a: "a = Finished None" "stats s = stats (s_o x)" "rs_w s = rs_w (s_o x)" by auto
    have "ended p" using rel eof by (simp add: sync_rel_def r_side_def)
    moreover have "stats (s_o x) = o_stats p (length (o_sent x)) (o_got x)"
      by (rule stats_origin [OF sd(1,3,4) ch(2) 1(2)])
    moreover have "o_got x = length (r_sent x)" using eof(3) ch(3) by (simp add: to_origin_def)
    ultimately have "rel so sr (x\<lparr>s_o := s, o_at := a\<rparr>) p"
      using rel a Looping eof(2)
      by (auto simp: sync_rel_def o_side_def r_side_def o_chan_def r_chan_def to_origin_def to_replica_def due_def
          split: status.splits)
    with a Looping show ?thesis by (auto simp: goes_on_def busy_def rank_def)
  next
    case (2 m ms rest)
    from rel_origin_take [OF set rel Looping 2] t obtain p' where
      "a = Looping" "psys_step p p'" "rel so sr (x\<lparr>s_o := s\<rparr>) p'" by (metis option.inject prod.inject)
    moreover from this Looping have "x\<lparr>s_o := s, o_at := a\<rparr> = x\<lparr>s_o := s\<rparr>" by simp
    ultimately show ?thesis by (metis goes_on_def)
  next
    case (3 m ms)
    have "r_end (rs_r (s_o x)) = Blocked" using ch(4) 3(3) by auto
    moreover have "length h = 20" if "m = NHash h" for h
      using o_ready_head [OF settingD(1) [OF set] inv 3(1)] that by simp
    ultimately show ?thesis using origin_waits [OF sd(1,2) _ _ 3(2)] t Looping by simp
  qed
next
  case (Finished e)
  with t show ?thesis by (simp add: origin_turn_def)
next
  case (Crashed m)
  with t show ?thesis by (simp add: origin_turn_def)
qed

lemma rel_replica_start:
  assumes set: "sync_setting odb_of rdb_of so sr" and rel: "rel so sr x p" and at: "r_at x = NotStarted"
  obtains s where "replica_turn E2 (r_at x) (s_r x) = Some (Looping, s)" "rel so sr (x\<lparr>s_r := s, r_at := Looping\<rparr>) p"
proof -
  note st = settingD [OF set]
  from rel at obtain r where sr: "s_r x = sr\<lparr>rs_r := r\<rparr>" and io: "io_ok (s_r x)"
    and p: "p_r p = r_start (rdb_of (world sr)) (protocol sr) (walOnly sr) (pageSize sr) (pageCount sr) (jMode sr)"
    and wr: "writer_rel (rs_w (s_r x))"
    by (auto simp: sync_rel_def r_side_def)
  obtain s where t: "replica_turn E2 NotStarted (s_r x) = Some (Looping, s)" and ok: "r_ok rdb_of s"
    and ab: "r_abs rdb_of s = p_r p" and mv: "moved (s_r x) (r_avail (rs_r (s_r x))) [] s"
    by (rule replica_starts [of "s_r x" "rdb_of (world sr)"]) (use st io in \<open>simp_all add: sr p\<close>)
  have nr: "\<not> returned (o_at x)" and ne: "\<not> ended p"
    using rel at by (auto simp: sync_rel_def o_side_def r_side_def split: status.splits)
  have fl: "r_file (rdb_of (world s)) = r_file (rq_db (p_r p))" using ab by (metis r_abs_def rspec.select_convs(1))
  have "rel so sr (x\<lparr>s_r := s, r_at := Looping\<rparr>) p"
    using rel at nr ne ok ab fl moved_writer [OF mv wr] moved_simps [OF mv] moved_sent [OF mv wr]
      moved_reader [OF mv, of "r_got x"]
    by (auto simp: sync_rel_def o_side_def r_side_def o_chan_def r_chan_def to_origin_def to_replica_def
        split: status.splits)
  with t at that show thesis by simp
qed

lemma rel_replica_take:
  assumes set: "sync_setting odb_of rdb_of so sr" and rel: "rel so sr x p" and at: "r_at x = Looping"
    and q: "to_r p = m # ms" "m \<noteq> MEnd" and av: "r_avail (rs_r (s_r x)) = enc_omsg m @ rest"
      "rest @ to_replica x @ due odb_of so (o_at x) = concat (map enc_omsg ms)"
  obtains s p' where "replica_turn E2 (r_at x) (s_r x) = Some (Looping, s)" "psys_step p p'"
    "rel so sr (x\<lparr>s_r := s\<rparr>) p'"
proof -
  note st = settingD [OF set]
  from rel at have inv: "protocol_inv (o_pages (odb_of (world so))) (rdb_of (world sr)) (o_psize (odb_of (world so))) p"
    and h: "history (o_pages (odb_of (world so))) (rdb_of (world sr)) (o_psize (odb_of (world so))) p"
    and t: "tally p" and ok: "r_ok rdb_of (s_r x)" and io: "io_ok (s_r x)" and ab: "r_abs rdb_of (s_r x) = p_r p"
    and wr: "writer_rel (rs_w (s_r x))" and wal: "rq_wal (p_r p) = walOnly sr" and ne: "\<not> ended p"
    by (simp_all add: sync_rel_def r_side_def)
  have "r_ready (r_abs rdb_of (s_r x)) m" using r_ready_head [OF st(1) _ inv q] st(2) wal ab by simp
  from replica_takes [OF ok io this av(1)] obtain s out where
    turn: "replica_turn E2 Looping (s_r x) = Some (Looping, s)" and ok': "r_ok rdb_of s"
    and spec: "r_spec (p_r p) m (r_abs rdb_of s) out" and mv: "moved (s_r x) rest (concat (map enc_rmsg out)) s"
    by (metis ab)
  let ?p = "p\<lparr>p_r := r_abs rdb_of s, to_r := ms, to_o := to_o p @ out\<rparr>"
  from psys_step.replica [OF ne q(1) spec] have step: "psys_step p ?p" .
  have nr: "\<not> returned (o_at x)"
    using rel ne by (auto simp: sync_rel_def o_side_def split: status.splits)
  have fl: "r_file (rdb_of (world s)) = r_file (rq_db (r_abs rdb_of s))" by (simp add: r_abs_def)
  have "rel so sr (x\<lparr>s_r := s\<rparr>) ?p"
    using rel at nr ok' ne fl av(2) protocol_inv_step [OF st(1) inv step] tally_step [OF st(1) inv t step] history_step [OF st(1) h step]
      moved_writer [OF mv wr] moved_simps [OF mv] moved_sent [OF mv wr] moved_reader [OF mv, of "r_got x"]
      psys_step_wal [OF step]
    by (auto simp: sync_rel_def o_side_def r_side_def o_chan_def r_chan_def to_origin_def to_replica_def
        split: status.splits)
  with turn at step that show thesis by simp
qed

lemma rel_replica_end:
  assumes set: "sync_setting odb_of rdb_of so sr" and rel: "rel so sr x p" and at: "r_at x = Looping"
    and q: "to_r p = MEnd # ms" and av: "r_avail (rs_r (s_r x)) = enc_omsg MEnd @ rest"
      "rest @ to_replica x @ due odb_of so (o_at x) = concat (map enc_omsg ms)"
  obtains s p' where "replica_turn E2 (r_at x) (s_r x) = Some (Finished None, s)" "psys_step p p'"
    "rel so sr (x\<lparr>s_r := s, r_at := Finished None\<rparr>) p'"
proof -
  note st = settingD [OF set]
  from rel at have inv: "protocol_inv (o_pages (odb_of (world so))) (rdb_of (world sr)) (o_psize (odb_of (world so))) p"
    and h: "history (o_pages (odb_of (world so))) (rdb_of (world sr)) (o_psize (odb_of (world so))) p"
    and t: "tally p" and ok: "r_ok rdb_of (s_r x)" and io: "io_ok (s_r x)" and ab: "r_abs rdb_of (s_r x) = p_r p"
    and wr: "writer_rel (rs_w (s_r x))" and ne: "\<not> ended p" and rr: "reader_rel (rs_r (s_r x)) (r_got x)"
    by (simp_all add: sync_rel_def r_side_def r_chan_def)
  have ms: "ms = []" by (rule end_last [OF inv q])
  with av(2) have none: "rest = []" "to_replica x = []" "due odb_of so (o_at x) = []" by simp_all
  then have ns: "o_at x \<noteq> NotStarted" by (auto simp: due_def)
  have gl: "r_got x = length (o_sent x)" using none rel at by (simp add: sync_rel_def r_chan_def to_replica_def)
  from av(1) none have av': "r_avail (rs_r (s_r x)) = enc_omsg MEnd" by simp
  from replica_ends [OF ok io this] obtain s r' where
    turn: "replica_turn E2 Looping (s_r x) = Some (Finished None, s)" and s: "stats s = stats ((s_r x)\<lparr>rs_r := r'\<rparr>)"
    "rs_w s = rs_w (s_r x)" "r_now (rs_r (s_r x)) [] r'" "r_file (rdb_of (world s)) = r_file (rdb_of (world (s_r x)))" .
  let ?p = "p\<lparr>to_r := ms, ended := True\<rparr>"
  from psys_step.finish [OF ne q] have step: "psys_step p ?p" .
  have nr: "\<not> returned (o_at x)"
    using rel ne by (auto simp: sync_rel_def o_side_def split: status.splits)
  have rr': "reader_rel r' (r_got x)" using s(3) rr by (simp add: r_now_def reader_rel_def)
  have "stats s = r_stats ?p (length (r_sent x)) (length (o_sent x))"
    unfolding s(1) gl [symmetric] by (rule stats_replica [OF _ wr rr']) (use ab s(3) in \<open>simp_all add: r_now_def\<close>)
  then have "rel so sr (x\<lparr>s_r := s, r_at := Finished None\<rparr>) ?p"
    using rel at nr ns ne gl s protocol_inv_step [OF st(1) inv step] tally_step [OF st(1) inv t step] history_step [OF st(1) h step]
      psys_step_wal [OF step]
    by (auto simp: sync_rel_def o_side_def r_side_def o_chan_def r_chan_def to_origin_def to_replica_def
        split: status.splits)
  with turn at step that show thesis by simp
qed

lemma rel_replica_turn:
  assumes set: "sync_setting odb_of rdb_of so sr" and rel: "rel so sr x p"
    and t: "replica_turn E2 (r_at x) (s_r x) = Some (a, s)"
  shows "\<exists>p'. rel so sr (x\<lparr>s_r := s, r_at := a\<rparr>) p' \<and> goes_on x p (x\<lparr>s_r := s, r_at := a\<rparr>) p'"
proof (cases "r_at x")
  case NotStarted
  from rel_replica_start [OF set rel NotStarted] t obtain s' where "a = Looping" "s = s'"
    "rel so sr (x\<lparr>s_r := s', r_at := Looping\<rparr>) p" by (metis option.inject prod.inject)
  then show ?thesis using NotStarted by (auto simp: goes_on_def busy_def rank_def)
next
  case Looping
  from rel have inv: "protocol_inv (o_pages (odb_of (world so))) (rdb_of (world sr)) (o_psize (odb_of (world so))) p"
    and ch: "r_avail (rs_r (s_r x)) @ to_replica x @ due odb_of so (o_at x) = concat (map enc_omsg (to_r p))"
      "r_end (rs_r (s_r x)) = Blocked"
    and sd: "r_ok rdb_of (s_r x)" "io_ok (s_r x)" "r_abs rdb_of (s_r x) = p_r p"
    and wal: "rq_wal (p_r p) = walOnly sr"
    using Looping by (auto simp: sync_rel_def r_side_def r_chan_def)
  show ?thesis
  proof (rule first_message [OF enc_omsg_nonempty(1) ch(1)], goal_cases)
    case 1
    have "strict_prefix (r_avail (rs_r (s_r x))) (enc_omsg MEnd)" using 1 by simp
    from replica_waits [OF sd(1,2) ch(2) _ this] t Looping show ?case by simp
  next
    case (2 m ms rest)
    show ?case
    proof (cases "m = MEnd")
      case True
      from rel_replica_end [OF set rel Looping 2 [unfolded True]] t obtain p' where
        "a = Finished None" "psys_step p p'" "rel so sr (x\<lparr>s_r := s, r_at := a\<rparr>) p'"
        by (metis option.inject prod.inject)
      then show ?thesis by (auto simp: goes_on_def)
    next
      case False
      from rel_replica_take [OF set rel Looping 2(1) False 2(2,3)] t obtain p' where
        "a = Looping" "psys_step p p'" "rel so sr (x\<lparr>s_r := s\<rparr>) p'" by (metis option.inject prod.inject)
      moreover from this Looping have "x\<lparr>s_r := s, r_at := a\<rparr> = x\<lparr>s_r := s\<rparr>" by simp
      ultimately show ?thesis by (metis goes_on_def)
    qed
  next
    case (3 m ms)
    have "m = MEnd \<or> r_ready (r_abs rdb_of (s_r x)) m"
      using r_ready_head [OF settingD(1) [OF set] _ inv 3(1)] settingD(2) [OF set] wal sd(3) by auto
    from replica_waits [OF sd(1,2) ch(2) this 3(2)] t Looping show ?case by simp
  qed
qed (use t in \<open>simp_all add: replica_turn_def\<close>)

text \<open>Deliveries and closing leave the protocol where it is.\<close>

lemma rel_step:
  assumes set: "sync_setting odb_of rdb_of so sr" and rel: "rel so sr x p" and step: "sync_step E1 E2 x x'"
  shows "\<exists>p'. rel so sr x' p' \<and> goes_on x p x' p'"
  using step
proof (rule sync_stepE, goal_cases)
  case (1 a s)
  with rel_origin_turn [OF set rel] show ?case by blast
next
  case (2 a s)
  with rel_replica_turn [OF set rel] show ?case by blast
next
  case (3 n)
  have nr: "\<not> returned (o_at x)" using 3 rel by (auto simp: sync_rel_def o_chan_def to_origin_def)
  have n: "n \<le> length (r_sent x) - o_got x" "o_got x \<le> length (r_sent x)"
    using 3 rel by (simp_all add: to_origin_def sync_rel_def o_chan_def)
  have d: "take n (to_origin x) @ drop (o_got x + n) (r_sent x) = to_origin x"
    by (metis add.commute append_take_drop_id drop_drop to_origin_def)
  have b: "r_end (rs_r (s_o x)) = Blocked" using 3 rel nr by (auto simp: sync_rel_def o_chan_def)
  have "rel so sr x' p"
    using rel nr n d b 3
    by (auto simp: sync_rel_def o_side_def r_side_def o_chan_def r_chan_def to_replica_def reader_rel_def
        to_origin_def due_def split: status.splits)
  moreover have "length (to_origin x') < length (to_origin x)" "to_replica x' = to_replica x" "busy x' = busy x"
    "r_end (rs_r (s_o x')) = r_end (rs_r (s_o x))" "r_end (rs_r (s_r x')) = r_end (rs_r (s_r x))"
    using 3 by (auto simp: to_origin_def to_replica_def busy_def)
  moreover from calculation have "goes_on x p x' p" by (simp add: goes_on_def transit_def)
  ultimately show ?case by blast
next
  case (4 n)
  have nr: "\<not> returned (r_at x)" using 4 rel by (auto simp: sync_rel_def r_chan_def to_replica_def)
  have n: "n \<le> length (o_sent x) - r_got x" "r_got x \<le> length (o_sent x)"
    using 4 rel by (simp_all add: to_replica_def sync_rel_def r_chan_def)
  have d: "take n (to_replica x) @ drop (r_got x + n) (o_sent x) @ ys = to_replica x @ ys" for ys
    by (metis add.commute append.assoc append_take_drop_id drop_drop to_replica_def)
  have "rel so sr x' p"
    using rel nr n 4
    by (auto simp: d [unfolded to_replica_def] sync_rel_def o_side_def r_side_def o_chan_def r_chan_def to_replica_def reader_rel_def
        to_origin_def due_def split: status.splits)
  moreover have "length (to_replica x') < length (to_replica x)" "to_origin x' = to_origin x" "busy x' = busy x"
    "r_end (rs_r (s_o x')) = r_end (rs_r (s_o x))" "r_end (rs_r (s_r x')) = r_end (rs_r (s_r x))"
    using 4 by (auto simp: to_origin_def to_replica_def busy_def)
  moreover from calculation have "goes_on x p x' p" by (simp add: goes_on_def transit_def)
  ultimately show ?case by blast
next
  case 5
  have "rel so sr x' p"
    using rel 5
    by (auto simp: sync_rel_def o_side_def r_side_def o_chan_def r_chan_def to_replica_def reader_rel_def
        to_origin_def due_def split: status.splits)
  moreover have "goes_on x p x' p" using 5 by (simp add: goes_on_def busy_def transit_def to_origin_def to_replica_def)
  ultimately show ?case by blast
next
  case 6
  have "returned (r_at x)" using 6 rel by (auto simp: sync_rel_def o_side_def split: status.splits)
  then have "rel so sr x' p"
    using rel 6
    by (auto simp: sync_rel_def o_side_def r_side_def o_chan_def r_chan_def to_replica_def reader_rel_def
        to_origin_def due_def split: status.splits)
  moreover have "goes_on x p x' p" using 6 by (simp add: goes_on_def busy_def transit_def to_origin_def to_replica_def)
  ultimately show ?case by blast
qed

section \<open>Reachable states\<close>

lemma rel_steps:
  assumes set: "sync_setting odb_of rdb_of so sr" and steps: "(sync_step E1 E2)\<^sup>*\<^sup>* (sync_start so sr) x"
  shows "\<exists>p. psys_step\<^sup>*\<^sup>* (p_start odb_of rdb_of so sr) p \<and> rel so sr x p"
  using steps
proof (induction rule: rtranclp_induct)
  case base
  from rel_start [OF set] show ?case by blast
next
  case (step y z)
  then obtain p where p: "psys_step\<^sup>*\<^sup>* (p_start odb_of rdb_of so sr) p" "rel so sr y p" by blast
  from rel_step [OF set p(2) step(2)] obtain p' where "rel so sr z p'" "psys_step p p' \<or> p' = p"
    by (auto simp: goes_on_def)
  with p(1) show ?case by (metis rtranclp.rtrancl_into_rtrancl)
qed

text \<open>A state with no step left is one in which both sides have returned.\<close>

lemma rel_progress:
  assumes set: "sync_setting odb_of rdb_of so sr" and rel: "rel so sr x p"
    and stuck: "\<nexists>y. sync_step E1 E2 x y"
  shows "o_at x = Finished None \<and> r_at x = Finished None"
proof -
  note st = settingD [OF set]
  have no: "origin_turn E1 (o_at x) (s_o x) = None" "replica_turn E2 (r_at x) (s_r x) = None"
    using stuck by (metis turn_o turn_r not_None_eq surj_pair)+
  have "o_at x \<noteq> NotStarted" using rel_origin_start [OF set rel] no(1) by force
  moreover have "\<not> (\<exists>m. o_at x = Crashed m)" "\<And>e. o_at x = Finished e \<Longrightarrow> e = None"
    using rel by (auto simp: sync_rel_def o_side_def)
  ultimately have o: "o_at x = Looping \<or> o_at x = Finished None" by (cases "o_at x") auto
  have "r_at x \<noteq> NotStarted" using rel_replica_start [OF set rel] no(2) by force
  moreover have "\<not> (\<exists>m. r_at x = Crashed m)" "\<And>e. r_at x = Finished e \<Longrightarrow> e = None"
    using rel by (auto simp: sync_rel_def r_side_def)
  ultimately have r: "r_at x = Looping \<or> r_at x = Finished None" by (cases "r_at x") auto
  have none: "to_origin x = []" "to_replica x = []"
    using stuck deliver_o [of "length (to_origin x)" x E1 E2] deliver_r [of "length (to_replica x)" x E1 E2] by auto
  from rel have inv: "protocol_inv (o_pages (odb_of (world so))) (rdb_of (world sr)) (o_psize (odb_of (world so))) p"
    by (simp add: sync_rel_def)
  have due: "due odb_of so (o_at x) = []" using o by (auto simp: due_def)
  show ?thesis
  proof (cases "r_at x = Looping")
    case True
    then have ne: "\<not> ended p" using rel by (simp add: sync_rel_def r_side_def)
    then have ol: "o_at x = Looping" using o rel by (auto simp: sync_rel_def o_side_def)
    have av: "r_avail (rs_r (s_o x)) = concat (map enc_rmsg (to_o p))"
      "r_avail (rs_r (s_r x)) = concat (map enc_omsg (to_r p))"
      using rel none due True ol by (simp_all add: sync_rel_def o_chan_def r_chan_def)
    show ?thesis
    proof (cases "to_o p")
      case (Cons m ms)
      with av(1) none no(1) rel_origin_take [OF set rel ol Cons, of "concat (map enc_rmsg ms)"] show ?thesis by force
    next
      case Nil
      with in_flight [OF inv ne] obtain m ms where q: "to_r p = m # ms" by (cases "to_r p") auto
      show ?thesis
      proof (cases "m = MEnd")
        case True
        with av(2) none no(2) due q rel_replica_end [OF set rel \<open>r_at x = Looping\<close>, of ms "concat (map enc_omsg ms)"]
        show ?thesis by force
      next
        case False
        with av(2) none no(2) due q rel_replica_take [OF set rel \<open>r_at x = Looping\<close> q, of "concat (map enc_omsg ms)"]
        show ?thesis by force
      qed
    qed
  next
    case False
    with r have rf: "r_at x = Finished None" by simp
    show ?thesis
    proof (cases "o_at x = Looping")
      case True
      have "ended p" using rel rf by (simp add: sync_rel_def r_side_def)
      then have "to_o p = []" by (rule ended_quiet [OF inv])
      then have av: "r_avail (rs_r (s_o x)) = []" using rel True by (simp add: sync_rel_def o_chan_def)
      have "r_end (rs_r (s_o x)) \<noteq> Blocked" using stuck close_o [of x] rf none by auto
      then have "r_end (rs_r (s_o x)) = EOF" using rel True by (simp add: sync_rel_def o_chan_def)
      from origin_ends [OF _ _ this av] rel True no(1) show ?thesis by (force simp: sync_rel_def o_side_def)
    next
      case False
      with o rf show ?thesis by simp
    qed
  qed
qed

text \<open>What holds in every reachable state, and when both sides have returned.\<close>

lemma rel_safe:
  assumes "rel so sr x p"
  shows "(r_file (rdb_of (world (s_r x))) = r_file (rdb_of (world sr)) \<or>
      restamped (copy_of (start_mode (rdb_of (world sr))) (o_pages (odb_of (world so)))) (r_file (rdb_of (world (s_r x))))) \<and>
    (\<forall>m. o_at x \<noteq> Crashed m \<and> r_at x \<noteq> Crashed m) \<and>
    (\<forall>e. o_at x = Finished e \<or> r_at x = Finished e \<longrightarrow> e = None)"
  using assms protocol_inv_file [of "o_pages (odb_of (world so))" "rdb_of (world sr)" "o_psize (odb_of (world so))" p]
  by (auto simp: sync_rel_def o_side_def r_side_def)

lemma rel_done:
  assumes rel: "rel so sr x p" and at: "r_at x = Finished None"
  shows "restamped (copy_of (start_mode (rdb_of (world sr))) (o_pages (odb_of (world so)))) (r_file (rdb_of (world (s_r x))))"
  using rel at protocol_inv_ended [of "o_pages (odb_of (world so))" "rdb_of (world sr)" "o_psize (odb_of (world so))" p]
  by (auto simp: sync_rel_def r_side_def)

text \<open>The bytes the origin has written are messages with exactly the pages that differ.\<close>

lemma rel_sent:
  assumes rel: "rel so sr x p" and at: "o_at x = Finished None" "r_at x = Finished None"
  shows "o_sent x = concat (map enc_omsg (said p)) \<and>
    differing_sent (o_pages (odb_of (world so))) (start_pages (o_psize (odb_of (world so))) (rdb_of (world sr)))
      (o_psize (odb_of (world so))) (sent_pages (said p))"
proof -
  from rel at have "ended p" "o_sent x = concat (map enc_omsg (said p))"
    "history (o_pages (odb_of (world so))) (rdb_of (world sr)) (o_psize (odb_of (world so))) p"
    by (auto simp: sync_rel_def o_side_def r_side_def due_def)
  with history_ended show ?thesis by blast
qed

lemma rel_stats:
  assumes rel: "rel so sr x p" and at: "o_at x = Finished None" "r_at x = Finished None"
  defines "so' \<equiv> stats (s_o x)" and "sr' \<equiv> stats (s_r x)"
  shows "sr' = so'\<lparr>st_BytesSent := st_BytesReceived so', st_BytesReceived := st_BytesSent so'\<rparr>"
    and "st_PageUpdates so' = of_nat (card (page_diff (o_pages (odb_of (world so)))
      (start_pages (o_psize (odb_of (world so))) (rdb_of (world sr))) (o_psize (odb_of (world so)))))"
    and "1 \<le> unat (st_HashRounds so') \<and> unat (st_HashRounds so') \<le> 3"
    and "uint (st_PageCount so') = int (length (o_pages (odb_of (world so)))) \<and>
      st_PageSize so' = o_psize (odb_of (world so))"
    and "st_BytesSent so' = of_nat (length (o_sent x)) \<and> st_BytesReceived so' = of_nat (length (r_sent x))"
proof -
  from rel at have e: "ended p" and ty: "tally p" and s: "so' = o_stats p (length (o_sent x)) (length (r_sent x))"
    "sr' = r_stats p (length (r_sent x)) (length (o_sent x))"
    and inv: "protocol_inv (o_pages (odb_of (world so))) (rdb_of (world sr)) (o_psize (odb_of (world so))) p"
    by (auto simp: sync_rel_def o_side_def r_side_def so'_def sr'_def)
  note f = protocol_inv_ended [OF inv e]
  have "rq_rounds (p_r p) \<noteq> 0" using f by auto
  with ty f have "rq_hashes (p_r p) = sp_hashes (p_o p)" "rq_proto (p_r p) = sp_proto (p_o p)" "rq_count (p_r p) = sp_count (p_o p)"
    by (simp_all add: tally_def)
  with f show "sr' = so'\<lparr>st_BytesSent := st_BytesReceived so', st_BytesReceived := st_BytesSent so'\<rparr>"
    by (simp add: s o_stats_def r_stats_def origin_const_def)
  show "st_PageUpdates so' = of_nat (card (page_diff (o_pages (odb_of (world so)))
      (start_pages (o_psize (odb_of (world so))) (rdb_of (world sr))) (o_psize (odb_of (world so)))))"
    "1 \<le> unat (st_HashRounds so') \<and> unat (st_HashRounds so') \<le> 3"
    "uint (st_PageCount so') = int (length (o_pages (odb_of (world so)))) \<and>
      st_PageSize so' = o_psize (odb_of (world so))"
    "st_BytesSent so' = of_nat (length (o_sent x)) \<and> st_BytesReceived so' = of_nat (length (r_sent x))"
    using f by (auto simp: s o_stats_def origin_const_def)
qed

section \<open>Every run ends\<close>

text \<open>The steps out of the states that stand for a state of the protocol are well-founded.\<close>

lemma rel_terminates:
  assumes set: "sync_setting odb_of rdb_of so sr"
  shows "\<nexists>f. f 0 = sync_start so sr \<and> (\<forall>i. sync_step E1 E2 (f i) (f (Suc i)))"
proof
  assume "\<exists>f. f 0 = sync_start so sr \<and> (\<forall>i. sync_step E1 E2 (f i) (f (Suc i)))"
  then obtain f where f: "f 0 = sync_start so sr" "\<And>i. sync_step E1 E2 (f i) (f (Suc i))" by blast
  have "\<exists>q. \<forall>i. rel so sr (f i) (q i) \<and> goes_on (f i) (q i) (f (Suc i)) (q (Suc i))"
  proof (rule dependent_nat_choice)
    show "\<exists>p. rel so sr (f 0) p" using rel_start [OF set] f(1) by auto
    show "\<exists>p'. rel so sr (f (Suc i)) p' \<and> goes_on (f i) p (f (Suc i)) p'" if "rel so sr (f i) p" for p i
      by (rule rel_step [OF set that f(2)])
  qed
  then obtain q where q: "\<And>i. rel so sr (f i) (q i)" "\<And>i. goes_on (f i) (q i) (f (Suc i)) (q (Suc i))" by blast
  let ?r = "inv_image (psys_order <*lex*> measures [busy, transit]) (\<lambda>i. (q i, f i))"
  have "wf ?r" by (intro wf_inv_image wf_lex_prod wf_psys_order wf_measures)
  moreover have "(Suc i, i) \<in> ?r" for i
  proof -
    have "psys_step (q i) (q (Suc i)) \<Longrightarrow> (q (Suc i), q i) \<in> psys_order"
      using q(1) [of i] psys_step_order by (auto simp: sync_rel_def)
    with q(2) [of i] show ?thesis by (auto simp: goes_on_def)
  qed
  ultimately show False using wf_no_infinite_down_chainE [of ?r "\<lambda>i. i"] by blast
qed

text \<open>
  From every reachable state the run goes on to a state without further steps; so it does when only some
  of the steps are allowed.
\<close>

lemma rel_completes_within:
  assumes set: "sync_setting odb_of rdb_of so sr" and y: "(sync_step E1 E2)\<^sup>*\<^sup>* (sync_start so sr) y"
    and R: "\<And>x z. R x z \<Longrightarrow> sync_step E1 E2 x z"
  shows "\<exists>x. R\<^sup>*\<^sup>* y x \<and> (\<nexists>z. R x z)"
proof (rule ccontr)
  assume none: "\<nexists>x. R\<^sup>*\<^sup>* y x \<and> (\<nexists>z. R x z)"
  from rel_steps [OF set y] obtain p where p: "rel so sr y p" by blast
  define P where "P = {(x, p). R\<^sup>*\<^sup>* y x \<and> rel so sr x p}"
  define r where "r = inv_image (psys_order <*lex*> measures [busy, transit]) (\<lambda>(x :: ('w, 'v) sync, p). (p, x))"
  have wf: "wf r" unfolding r_def by (intro wf_inv_image wf_lex_prod wf_psys_order wf_measures)
  have "(y, p) \<in> P" using p by (simp add: P_def)
  then obtain xp where xp: "xp \<in> P" "\<And>yp. (yp, xp) \<in> r \<Longrightarrow> yp \<notin> P" using wfE_min [OF wf, of "(y, p)" P] by metis
  obtain x q where x: "xp = (x, q)" by fastforce
  from x xp(1) have xr: "rel so sr x q" "R\<^sup>*\<^sup>* y x" by (simp_all add: P_def)
  with none obtain z where z: "R x z" by blast
  from rel_step [OF set xr(1) R [OF z]] obtain q' where q': "rel so sr z q'" "goes_on x q z q'" by blast
  have "psys_step q q' \<Longrightarrow> (q', q) \<in> psys_order" using xr(1) psys_step_order by (auto simp: sync_rel_def)
  with q'(2) have "((z, q'), xp) \<in> r" by (auto simp: goes_on_def x r_def)
  then have "(z, q') \<notin> P" by (rule xp(2))
  moreover have "R\<^sup>*\<^sup>* y z" using xr(2) z by (rule rtranclp.rtrancl_into_rtrancl)
  ultimately show False using q'(1) by (simp add: P_def)
qed

lemma rel_completes:
  assumes "sync_setting odb_of rdb_of so sr" and "(sync_step E1 E2)\<^sup>*\<^sup>* (sync_start so sr) y"
  shows "\<exists>x. (sync_step E1 E2)\<^sup>*\<^sup>* y x \<and> (\<nexists>z. sync_step E1 E2 x z)"
  using rel_completes_within [OF assms] by blast

end

end
