(* ===== verification/Reference.thy ===== *)
theory Reference
  imports EndToEnd
begin

text \<open>
  A reference engine for either connection: it reads the text of a statement back and carries out its
  meaning on the database it holds. It discharges the laws the proofs rely on, so that they hold of an
  engine that receives nothing but the SQL text and the bound values the code passes. On the way the
  two statements whose text is built at run time are shown to read back as they were meant: ATTACH with
  a quoted path, and PRAGMA page_size with a number.
\<close>

section \<open>Reading numbers back\<close>

lemma digit_char_value: "n < 10 \<Longrightarrow> int (of_char (digit_char n)) = 48 + int n \<and> is_digit (digit_char n)"
proof -
  assume "n < 10"
  then have "n \<in> set [0, 1, 2, 3, 4, 5, 6, 7, 8, 9]" by auto
  then show ?thesis by (auto simp: digit_char_def is_digit_def)
qed

lemma show_nat_digits:
  "show_nat n \<noteq> [] \<and> list_all is_digit (show_nat n) \<and>
     foldl (\<lambda>a c. 10 * a + (int (of_char c) - 48)) 0 (show_nat n) = int n"
proof (induction n rule: show_nat.induct)
  case (1 n)
  show ?case
  proof (cases "n < 10")
    case True
    then show ?thesis using digit_char_value [of n] by (simp add: show_nat.simps [of n])
  next
    case False
    have "10 * int (n div 10) + int (n mod 10) = int n" by presburger
    with False 1 digit_char_value [of "n mod 10"] show ?thesis by (simp add: show_nat.simps [of n])
  qed
qed

lemma parse_digits_show_nat: "parse_digits (show_nat n) = Some (int n)"
  using show_nat_digits [of n] by (simp add: parse_digits_def)

lemma parse_int_show_int: "parse_int (show_int i) = Some i"
proof (cases "i < 0")
  case True
  then show ?thesis by (simp add: show_int_def parse_int_def parse_digits_show_nat)
next
  case False
  obtain c u where u: "show_nat (nat i) = c # u" using show_nat_digits [of "nat i"] by (cases "show_nat (nat i)") auto
  then have "is_digit c" using show_nat_digits [of "nat i"] by simp
  then have "c \<noteq> CHR ''-''" "c \<noteq> CHR ''+''" by (auto simp: is_digit_def)
  with False u parse_digits_show_nat [of "nat i"] show ?thesis
    by (auto simp: show_int_def parse_int_def split: list.splits char.splits bool.splits)
qed

section \<open>Reading a quoted path back\<close>

text \<open>
  The lexing of an SQL string literal, after its opening quote: the contents and what follows the
  closing quote. A doubled quote stands for one.
\<close>

fun string_literal :: "string \<Rightarrow> (string \<times> string) option" where
  "string_literal [] = None"
| "string_literal (c # s) =
     (if c \<noteq> CHR 0x27 then map_option (\<lambda>(p, r). (c # p, r)) (string_literal s)
      else case s of
        [] \<Rightarrow> Some ([], [])
      | d # s' \<Rightarrow>
          if d = CHR 0x27 then map_option (\<lambda>(p, r). (CHR 0x27 # p, r)) (string_literal s')
          else Some ([], s))"

lemma replace_quotes_simps [simp]:
  "replace_quotes [] = []"
  "replace_quotes (c # s) = (if c = CHR 0x27 then [CHR 0x27, CHR 0x27] else [c]) @ replace_quotes s"
  by (simp_all add: replace_quotes_def)

lemma string_literal_quoted:
  "rest = [] \<or> hd rest \<noteq> CHR 0x27 \<Longrightarrow> string_literal (replace_quotes p @ CHR 0x27 # rest) = Some (p, rest)"
  by (induction p) (auto split: list.splits)

definition read_attach :: "string \<Rightarrow> string option" where
  "read_attach sql =
     (if prefix ''ATTACH '' sql \<and> sql ! 7 = CHR 0x27 then
        (case string_literal (drop 8 sql) of
           Some (p, r) \<Rightarrow> if r = '' AS '' @ [CHR 0x27] @ ''replica'' @ [CHR 0x27] then Some p else None
         | None \<Rightarrow> None)
      else None)"

lemma read_attach_attachSQL: "read_attach (attachSQL p) = Some p"
  by (simp add: read_attach_def attachSQL_def string_literal_quoted)

definition read_page_size :: "string \<Rightarrow> int option" where
  "read_page_size sql =
     (if prefix ''PRAGMA replica.page_size='' sql then parse_int (drop 25 sql) else None)"

lemma read_page_size_setPageSizeSQL: "read_page_size (setPageSizeSQL n) = Some n"
  by (simp add: read_page_size_def setPageSizeSQL_def parse_int_show_int)

section \<open>The engine of the origin\<close>

definition origin_texts :: "string list" where
  "origin_texts = [beginSQL, journalModeSQL, pageCountSQL, pageSizeSQL, createBadHashSQL, checkHashSQL,
     checkHashNSQL, insBadHashSQL, multiBadHashSQL, deleteMultiSQL, fillTailSQL, deleteLockPageSQL, pageDataSQL]"

lemmas origin_text_defs = beginSQL_def journalModeSQL_def pageCountSQL_def pageSizeSQL_def createBadHashSQL_def
  checkHashSQL_def checkHashNSQL_def insBadHashSQL_def multiBadHashSQL_def deleteMultiSQL_def fillTailSQL_def
  deleteLockPageSQL_def pageDataSQL_def

lemma origin_texts_distinct: "distinct origin_texts" "distinct (rev origin_texts)"
  unfolding origin_texts_def origin_text_defs by simp_all

lemmas origin_texts_neq = origin_texts_distinct [unfolded origin_texts_def, simplified]

definition o_decode :: "string \<Rightarrow> sqlval list \<Rightarrow> ostmt option" where
  "o_decode sql args =
     (if sql = beginSQL then Some OBegin
      else if sql = journalModeSQL then Some OJournalMode
      else if sql = pageCountSQL then Some OPageCount
      else if sql = pageSizeSQL then Some OPageSize
      else if sql = createBadHashSQL then Some OCreateBad
      else if sql = checkHashSQL then (case args of [SInt p, SBlob h] \<Rightarrow> Some (OCheckHash p h) | _ \<Rightarrow> None)
      else if sql = checkHashNSQL then
        (case args of [SInt a, SInt b, SBlob h] \<Rightarrow> Some (OCheckHashN a b h) | _ \<Rightarrow> None)
      else if sql = insBadHashSQL then (case args of [SInt p, SInt n] \<Rightarrow> Some (OInsBad p n) | _ \<Rightarrow> None)
      else if sql = multiBadHashSQL then Some OMultiBad
      else if sql = deleteMultiSQL then Some ODeleteMulti
      else if sql = fillTailSQL then (case args of [SInt a, SInt b] \<Rightarrow> Some (OFillTail a b) | _ \<Rightarrow> None)
      else if sql = deleteLockPageSQL then (case args of [SInt p] \<Rightarrow> Some (ODeleteLock p) | _ \<Rightarrow> None)
      else if sql = pageDataSQL then Some OPageData
      else None)"

lemma o_decode_sql [simp]: "o_decode (osql st) (oargs st) = Some st"
  by (cases st) (simp_all add: o_decode_def origin_texts_neq)

definition sql_error :: goerr where
  "sql_error = ErrText ''SQL logic error''"

definition ref_origin :: "odb env" where
  "ref_origin =
     \<lparr>e_scalar = (\<lambda>w name n. (w, None)),
      e_aggregate = (\<lambda>w name n det. (w, None)),
      e_stat = (\<lambda>w path. (w, None)),
      e_open = (\<lambda>w dsn. (w\<lparr>o_bad := None\<rparr>, None)),
      e_close = (\<lambda>w. (w\<lparr>o_bad := None\<rparr>, None)),
      e_exec = (\<lambda>w sql args. case Option.bind (o_decode sql args) (\<lambda>st. o_exec st w) of
                  None \<Rightarrow> (w, Some sql_error) | Some w' \<Rightarrow> (w', None)),
      e_query = (\<lambda>w sql args. (w, case Option.bind (o_decode sql args) (\<lambda>st. o_rows st w) of
                  None \<Rightarrow> Inl sql_error | Some rows \<Rightarrow> Inr \<lparr>rs_rows = rows, rs_err = None\<rparr>)),
      e_rows_close = (\<lambda>w. (w, None)),
      e_prepare = (\<lambda>w sql. (w, None)),
      e_stmt_close = (\<lambda>w sql. (w, None)),
      fmt_q = (\<lambda>s. [CHR 0x22] @ s @ [CHR 0x22]),
      scan_error = (\<lambda>k v ty. ErrText (''sql: Scan error on column index '' @ show_nat k))\<rparr>"

interpretation ref_origin: sound_origin_engine ref_origin "\<lambda>w. w"
  by unfold_locales (auto simp: ref_origin_def split: option.splits)

section \<open>The engine of the replica\<close>

definition replica_texts :: "string list" where
  "replica_texts = [writableSchemaSQL, utf16leSQL, utf16beSQL, createSendHashSQL, replicaPageCountSQL,
     readSchemaSQL, beginImmediateSQL, replicaJournalModeSQL, replicaPageSizeSQL, allPagesSQL, firstPageSQL,
     subdivideSQL, sendHashSQL, deleteSendHashSQL, insertPageSQL, commitSQL]"

lemmas replica_text_defs = writableSchemaSQL_def utf16leSQL_def utf16beSQL_def createSendHashSQL_def
  replicaPageCountSQL_def readSchemaSQL_def beginImmediateSQL_def replicaJournalModeSQL_def
  replicaPageSizeSQL_def allPagesSQL_def firstPageSQL_def subdivideSQL_def sendHashSQL_def
  deleteSendHashSQL_def insertPageSQL_def commitSQL_def

lemma replica_texts_distinct: "distinct replica_texts" "distinct (rev replica_texts)"
  unfolding replica_texts_def replica_text_defs by simp_all

lemmas replica_texts_neq = replica_texts_distinct [unfolded replica_texts_def, simplified]

lemma replica_texts_fixed:
  "list_all (\<lambda>t. read_attach t = None \<and> read_page_size t = None) replica_texts"
  unfolding replica_texts_def replica_text_defs by (simp add: read_attach_def read_page_size_def)

lemmas replica_texts_read = replica_texts_fixed [unfolded replica_texts_def, simplified]

definition r_decode :: "string \<Rightarrow> sqlval list \<Rightarrow> rstmt option" where
  "r_decode sql args =
     (case read_attach sql of
        Some p \<Rightarrow> Some (RAttach p)
      | None \<Rightarrow>
     (case read_page_size sql of
        Some n \<Rightarrow> Some (RSetPageSize n)
      | None \<Rightarrow>
     (if sql = writableSchemaSQL then Some RWritable
      else if sql = utf16leSQL then Some REncodingLE
      else if sql = utf16beSQL then Some REncodingBE
      else if sql = createSendHashSQL then Some RCreateSend
      else if sql = replicaPageCountSQL then Some RPageCount
      else if sql = readSchemaSQL then Some RReadSchema
      else if sql = beginImmediateSQL then Some RBeginImm
      else if sql = replicaJournalModeSQL then Some RJournalMode
      else if sql = replicaPageSizeSQL then Some RPageSize
      else if sql = allPagesSQL then (case args of [SInt n] \<Rightarrow> Some (RAllPages n) | _ \<Rightarrow> None)
      else if sql = firstPageSQL then Some RFirstPage
      else if sql = subdivideSQL then
        (case args of [SInt a, SInt k, SInt b, SInt e, SInt k'] \<Rightarrow> Some (RSubdivide a k b e k') | _ \<Rightarrow> None)
      else if sql = sendHashSQL then Some RSendHash
      else if sql = deleteSendHashSQL then Some RDeleteSend
      else if sql = insertPageSQL then
        (case args of [SInt p, SBlob d] \<Rightarrow> Some (RInsertPage p d) | [SInt p, SNull] \<Rightarrow> Some (RTruncate p) | _ \<Rightarrow> None)
      else if sql = commitSQL then Some RCommit
      else None)))"

lemma read_attach_page_size [simp]: "read_attach (setPageSizeSQL n) = None"
  by (simp add: read_attach_def setPageSizeSQL_def)

lemma r_decode_sql [simp]: "r_decode (rsql st) (rargs st) = Some st"
  by (cases st) (simp_all add: r_decode_def replica_texts_neq replica_texts_read read_attach_attachSQL
      read_page_size_setPageSizeSQL)

definition encoding_error :: goerr where
  "encoding_error = ErrText ''attached databases must use the same text encoding as main database''"

text \<open>
  The stamp this engine's commit leaves on page 1: the change counter goes up by one, the
  version-valid-for number is the counter, and the library's version number is 3.50.4's.
\<close>

definition overwrite :: "nat \<Rightarrow> bytes \<Rightarrow> bytes \<Rightarrow> bytes" where
  "overwrite i bs d = fold (\<lambda>k e. e[i + k := bs ! k]) [0..<length bs] d"

definition stamp :: "bytes \<Rightarrow> bytes" where
  "stamp d = (let c = put_u32 (get_u32 (take 4 (drop 24 d)) + 1)
     in overwrite 96 (put_u32 3050004) (overwrite 92 c (overwrite 24 c d)))"

definition ref_commit :: "rdb \<Rightarrow> rdb exec_result" where
  "ref_commit d =
     (if \<not> r_txn d then Failed
      else
        let ps = (if r_work d = r_file d then r_work d
                  else case r_work d of [] \<Rightarrow> [] | p # rest \<Rightarrow> stamp p # rest)
        in Done (d\<lparr>r_file := ps, r_work := ps, r_txn := False\<rparr>))"

lemma restamped_page_trans: "restamped_page a b \<Longrightarrow> restamped_page b c \<Longrightarrow> restamped_page a c"
  unfolding restamped_page_def by metis

lemma restamped_update: "stamp_byte i \<Longrightarrow> restamped_page d (d[i := b])"
  unfolding restamped_page_def by (metis length_list_update nth_list_update_neq)

lemma restamped_overwrite:
  "(\<And>k. k < length bs \<Longrightarrow> stamp_byte (i + k)) \<Longrightarrow> restamped_page d (overwrite i bs d)"
proof -
  assume s: "\<And>k. k < length bs \<Longrightarrow> stamp_byte (i + k)"
  have "restamped_page d (fold (\<lambda>k e. e[i + k := bs ! k]) ks d)" if "set ks \<subseteq> {..<length bs}" for ks
    using that
  proof (induction ks arbitrary: d)
    case (Cons k ks)
    have "restamped_page d (d[i + k := bs ! k])" using Cons.prems s by (intro restamped_update) simp
    with Cons show ?case by (auto intro: restamped_page_trans)
  qed simp
  from this [of "[0..<length bs]"] show ?thesis by (simp add: overwrite_def subset_eq)
qed

lemma restamped_stamp: "restamped_page d (stamp d)"
  unfolding stamp_def Let_def
  by (rule restamped_page_trans [OF _ restamped_overwrite], rule restamped_page_trans [OF restamped_overwrite restamped_overwrite])
    (simp_all add: stamp_byte_def length_put_u32)

lemma ref_commit_Done: "ref_commit d = Done d' \<Longrightarrow> commits d d'"
  by (auto simp: ref_commit_def commits_def Let_def restamped_stamp split: if_splits list.splits)

lemma ref_commit_open: "r_txn d \<Longrightarrow> \<exists>d'. ref_commit d = Done d'"
  by (simp add: ref_commit_def Let_def)

definition ref_execute :: "rstmt \<Rightarrow> rdb \<Rightarrow> rdb exec_result" where
  "ref_execute st d = (if st = RCommit then ref_commit d else r_exec st d)"

lemma ref_execute_effect: "ref_execute st d = Done d' \<Longrightarrow> r_effect st d d'"
  by (auto simp: ref_execute_def ref_commit_Done split: if_splits)

lemma ref_execute_total: "r_effect st d d' \<Longrightarrow> \<exists>e. ref_execute st d = Done e"
  using ref_commit_open [of d] by (cases "st = RCommit") (auto simp: ref_execute_def commits_def)

lemma ref_execute_encoding: "r_exec st d = WrongEncoding \<Longrightarrow> ref_execute st d = WrongEncoding"
  by (auto simp: ref_execute_def)

definition ref_replica :: "rdb env" where
  "ref_replica =
     \<lparr>e_scalar = (\<lambda>w name n. (w, None)),
      e_aggregate = (\<lambda>w name n det. (w, None)),
      e_stat = (\<lambda>w path. (w, None)),
      e_open = (\<lambda>w dsn. (r_close w, None)),
      e_close = (\<lambda>w. (r_close w, None)),
      e_exec = (\<lambda>w sql args. case r_decode sql args of
                  None \<Rightarrow> (w, Some sql_error)
                | Some st \<Rightarrow> (case ref_execute st w of
                    Done w' \<Rightarrow> (w', None) | WrongEncoding \<Rightarrow> (w, Some encoding_error) | Failed \<Rightarrow> (w, Some sql_error))),
      e_query = (\<lambda>w sql args. (w, case Option.bind (r_decode sql args) (\<lambda>st. r_rows st w) of
                  None \<Rightarrow> Inl sql_error | Some rows \<Rightarrow> Inr \<lparr>rs_rows = rows, rs_err = None\<rparr>)),
      e_rows_close = (\<lambda>w. (w, None)),
      e_prepare = (\<lambda>w sql. (w, None)),
      e_stmt_close = (\<lambda>w sql. (w, None)),
      fmt_q = (\<lambda>s. [CHR 0x22] @ s @ [CHR 0x22]),
      scan_error = (\<lambda>k v ty. ErrText (''sql: Scan error on column index '' @ show_nat k))\<rparr>"

lemma contains_encoding_error: "contains (err_text encoding_error) ''must use the same text encoding''"
proof -
  have "err_text encoding_error = ''attached databases '' @ ''must use the same text encoding'' @ '' as main database''"
    by (simp add: encoding_error_def)
  then show ?thesis unfolding contains_def sublist_def by blast
qed

interpretation ref_replica: sound_replica_engine ref_replica "\<lambda>w. w"
  by unfold_locales
    (auto simp: ref_replica_def contains_encoding_error ref_execute_effect ref_execute_encoding
      split: option.splits exec_result.splits dest: ref_execute_total)

text \<open>Both together.\<close>

interpretation ref: sync_engines ref_origin "\<lambda>w. w" ref_replica "\<lambda>w. w"
  by unfold_locales

end
