(* ===== verification/Pipe.thy ===== *)
theory Pipe
  imports EndToEnd
begin

text \<open>
  The synchronisation over a stream that buffers nothing, as \<open>io.Pipe\<close> or \<open>net.Pipe\<close>: a write returns
  when the peer has taken all of it, so a role that writes does nothing else, and its peer takes bytes
  only while it waits in a read. Two roles that wrote at the same time would wait for each other
  forever. The protocol is half-duplex: whenever something is under way in one direction, nothing
  is in the other.
\<close>

section \<open>The steps\<close>

text \<open>
  In a turn the reads precede the writes; while what it wrote is under way (\<open>to_replica\<close>, \<open>to_origin\<close>) the
  role is still in its turn, blocked in a write.
\<close>

inductive pipe_step :: "'w env \<Rightarrow> 'v env \<Rightarrow> ('w, 'v) sync \<Rightarrow> ('w, 'v) sync \<Rightarrow> bool" for E1 E2 where
  pipe_turn_o: "to_replica x = [] \<Longrightarrow> origin_turn E1 (o_at x) (s_o x) = Some (a, s) \<Longrightarrow>
    pipe_step E1 E2 x (x\<lparr>s_o := s, o_at := a\<rparr>)"
| pipe_turn_r: "to_origin x = [] \<Longrightarrow> replica_turn E2 (r_at x) (s_r x) = Some (a, s) \<Longrightarrow>
    pipe_step E1 E2 x (x\<lparr>s_r := s, r_at := a\<rparr>)"
| pipe_deliver_o: "o_at x = Looping \<Longrightarrow> to_replica x = [] \<Longrightarrow> origin_turn E1 Looping (s_o x) = None \<Longrightarrow>
    0 < n \<Longrightarrow> n \<le> length (to_origin x) \<Longrightarrow>
    pipe_step E1 E2 x (x\<lparr>s_o := (s_o x)\<lparr>rs_r := arrive (take n (to_origin x)) (rs_r (s_o x))\<rparr>, o_got := o_got x + n\<rparr>)"
| pipe_deliver_r: "r_at x = Looping \<Longrightarrow> to_origin x = [] \<Longrightarrow> replica_turn E2 Looping (s_r x) = None \<Longrightarrow>
    0 < n \<Longrightarrow> n \<le> length (to_replica x) \<Longrightarrow>
    pipe_step E1 E2 x (x\<lparr>s_r := (s_r x)\<lparr>rs_r := arrive (take n (to_replica x)) (rs_r (s_r x))\<rparr>, r_got := r_got x + n\<rparr>)"
| pipe_close_o: "returned (r_at x) \<Longrightarrow> to_origin x = [] \<Longrightarrow> r_end (rs_r (s_o x)) = Blocked \<Longrightarrow>
    pipe_step E1 E2 x (x\<lparr>s_o := (s_o x)\<lparr>rs_r := hang_up (rs_r (s_o x))\<rparr>\<rparr>)"
| pipe_close_r: "returned (o_at x) \<Longrightarrow> to_replica x = [] \<Longrightarrow> r_end (rs_r (s_r x)) = Blocked \<Longrightarrow>
    pipe_step E1 E2 x (x\<lparr>s_r := (s_r x)\<lparr>rs_r := hang_up (rs_r (s_r x))\<rparr>\<rparr>)"

lemma pipe_sync: "pipe_step E1 E2 x y \<Longrightarrow> sync_step E1 E2 x y"
  by (erule pipe_step.cases) (auto intro: sync_step.intros)

lemma pipe_sync_steps: "(pipe_step E1 E2)\<^sup>*\<^sup>* x y \<Longrightarrow> (sync_step E1 E2)\<^sup>*\<^sup>* x y"
  by (erule rtranclp_mono [THEN predicate2D, rotated]) (auto intro: pipe_sync)

text \<open>When nothing is under way the pipe allows every step.\<close>

lemma sync_pipe:
  "to_origin x = [] \<Longrightarrow> to_replica x = [] \<Longrightarrow> sync_step E1 E2 x y \<Longrightarrow> pipe_step E1 E2 x y"
  by (erule sync_step.cases) (auto intro: pipe_step.intros)

section \<open>Half-duplex\<close>

lemma inv_half_duplex: "protocol_inv og d0 sz p \<Longrightarrow> to_o p = [] \<or> to_r p = []"
  by (auto simp: protocol_inv_def phase_begin_def phase_propose_def phase_hash_def phase_detail_def
      detail_static_def phase_pages_def pages_static_def phase_committed_def)

definition half_duplex :: "('w, 'v) sync \<Rightarrow> bool" where
  "half_duplex x \<longleftrightarrow>
     to_origin x = [] \<and> (returned (o_at x) \<or> r_avail (rs_r (s_o x)) = []) \<or>
     to_replica x = [] \<and> (returned (r_at x) \<or> r_avail (rs_r (s_r x)) = [])"

lemma rel_half_duplex: "sync_rel odb_of rdb_of so sr x p \<Longrightarrow> half_duplex x"
  using inv_half_duplex [of "o_pages (odb_of (world so))" "rdb_of (world sr)" "o_psize (odb_of (world so))" p]
  by (auto simp: sync_rel_def o_chan_def r_chan_def half_duplex_def to_origin_def to_replica_def split: if_splits)

context sync_engines
begin

lemma rel_pipe_progress:
  assumes set: "sync_setting odb_of rdb_of so sr" and rel: "rel so sr x p"
    and stuck: "\<nexists>y. pipe_step E1 E2 x y"
  shows "o_at x = Finished None \<and> r_at x = Finished None"
proof -
  have o: "to_origin x = [] \<or> to_replica x = []" using rel_half_duplex [OF rel] by (auto simp: half_duplex_def)
  have "to_replica x = []" if e: "to_origin x = []"
  proof (rule ccontr)
    assume ne: "to_replica x \<noteq> []"
    have none: "replica_turn E2 (r_at x) (s_r x) = None"
      using stuck pipe_turn_r [OF e] by (metis not_None_eq surj_pair)
    then have "r_at x \<noteq> NotStarted" using rel_replica_start [OF set rel] by force
    with rel ne have "r_at x = Looping"
      by (cases "r_at x") (auto simp: sync_rel_def r_side_def r_chan_def to_replica_def)
    then show False using pipe_deliver_r [OF _ e, of E2 "length (to_replica x)" E1] none ne stuck by auto
  qed
  moreover have "to_origin x = []" if e: "to_replica x = []"
  proof (rule ccontr)
    assume ne: "to_origin x \<noteq> []"
    have none: "origin_turn E1 (o_at x) (s_o x) = None"
      using stuck pipe_turn_o [OF e] by (metis not_None_eq surj_pair)
    then have "o_at x \<noteq> NotStarted" using rel_origin_start [OF set rel] by force
    with rel ne have "o_at x = Looping"
      by (cases "o_at x") (auto simp: sync_rel_def o_side_def o_chan_def to_origin_def)
    then show False using pipe_deliver_o [OF _ e, of E1 "length (to_origin x)" E2] none ne stuck by auto
  qed
  ultimately have "to_origin x = []" "to_replica x = []" using o by blast+
  then show ?thesis using rel_progress [OF set rel] sync_pipe stuck by blast
qed

lemma pipe_completes:
  assumes set: "sync_setting odb_of rdb_of so sr" and y: "(pipe_step E1 E2)\<^sup>*\<^sup>* (sync_start so sr) y"
  shows "\<exists>x p. (pipe_step E1 E2)\<^sup>*\<^sup>* y x \<and> rel so sr x p \<and> o_at x = Finished None \<and> r_at x = Finished None"
proof -
  from rel_completes_within [OF set pipe_sync_steps [OF y], of "pipe_step E1 E2"] pipe_sync obtain x where
    x: "(pipe_step E1 E2)\<^sup>*\<^sup>* y x" "\<nexists>z. pipe_step E1 E2 x z" by blast
  from y x(1) have "(sync_step E1 E2)\<^sup>*\<^sup>* (sync_start so sr) x" by (intro pipe_sync_steps) auto
  from rel_steps [OF set this] obtain p where p: "rel so sr x p" by blast
  from rel_pipe_progress [OF set p x(2)] x(1) p show ?thesis by blast
qed

end

end
