(* ===== verification/SyncProps.thy ===== *)
theory SyncProps
  imports Reference KeccakEval Adequacy Pipe
begin

text \<open>
  The properties of a synchronisation as a whole, of any sound engines and of all interleavings and
  chunkings, and a concrete run over the reference engine that shows their hypotheses can hold.
\<close>

section \<open>Two small databases\<close>

text \<open>
  Databases of one page of 32 bytes that differ in their first byte, on streams that carry nothing
  yet; the calls of Origin and Replica have default options.
\<close>

definition demo_odb :: odb where
  "demo_odb = \<lparr>o_pages = [1 # replicate 31 0], o_psize = 32, o_mode = ''wal'', o_bad = None\<rparr>"

definition demo_rdb :: rdb where
  "demo_rdb = \<lparr>r_path = ''copy.db'', r_file = [2 # replicate 31 0], r_psize = 32, r_mode = ''wal'', r_enc = UTF8,
     r_fresh = (\<lambda>n. replicate (nat n) 0), r_mem = UTF8, r_attached = False, r_txn = False, r_work = [], r_send = None\<rparr>"

definition demo_in :: instream where
  "demo_in = \<lparr>in_ctx = background, in_chunks = [], in_end = Blocked\<rparr>"

definition demo_out :: outstream where
  "demo_out = \<lparr>out_ctx = background, out_plan = [], out_sent = []\<rparr>"

definition demo_o :: "odb origin" where
  "demo_o = origin_start (newRsync None demo_in demo_out None demo_odb False None) ''orig.db''"

definition demo_r :: "rdb replica" where
  "demo_r = replica_start (newRsync None demo_in demo_out None demo_rdb False None) ''copy.db''"

lemmas start_defs = origin_start_def replica_start_def newRsync_def rsync.extend_def rsync.truncate_def Let_def

lemma demo_hashes: "sql_hash (1 # replicate 31 0) \<noteq> sql_hash (2 # replicate 31 0)"
proof
  assume "sql_hash (1 # replicate 31 0) = sql_hash (2 # replicate 31 0)"
  then have "hd (sponge (1 # replicate 31 0)) = hd (sponge (2 # replicate 31 0))" by (simp only: sql_hash_sponge)
  then show False unfolding digest_page_1 digest_page_2 by simp
qed

lemma demo_fresh: "fresh_run demo_o" "fresh_run demo_r"
  by (simp_all add: fresh_run_def demo_o_def demo_r_def start_defs ProtocolVersion_def)

lemma demo_streams: "streams_fresh demo_o" "streams_fresh demo_r"
  by (simp_all add: streams_fresh_def demo_o_def demo_r_def start_defs demo_in_def demo_out_def background_def
      NewReader_def NewWriter_def r_wait_def r_live_def r_end_def r_avail_def avail_def w_live_def bw_live_def
      w_ok_def w_sent_def w_buf_def)

lemma demo_fields:
  "world demo_o = demo_odb" "world demo_r = demo_rdb" "\<not> commCheck demo_o" "\<not> commCheck demo_r"
  "pIns demo_r = None" "replicaPath demo_r = ''copy.db''" "walOnly demo_r" "walOnly demo_o"
  by (simp_all add: demo_o_def demo_r_def start_defs)

lemma demo_pages:
  "o_pages demo_odb = [1 # replicate 31 0]" "start_pages 32 demo_rdb = [2 # replicate 31 0]"
  "start_mode demo_rdb = 2" "o_psize demo_odb = 32" "r_file demo_rdb = [2 # replicate 31 0]"
  by (simp_all add: demo_odb_def demo_rdb_def start_pages_def opened_def r_close_def start_mode_def Let_def)

lemma demo_startable: "startable demo_rdb 32 True"
proof -
  have "(32::int) = 2 ^ 5" by simp
  then have "pow2_size 32" unfolding pow2_size_def by (intro exI [of _ 5]) simp
  then show ?thesis by (simp add: startable_def demo_rdb_def opened_def r_close_def Let_def)
qed

lemma page_at_one: "page_at [d] p = (if p = 1 then Some d else None)"
  by (simp add: page_at_def)

lemma demo_pair: "setting [1 # replicate 31 0] [2 # replicate 31 0] 32 2"
proof -
  have "lock_page 32 = 2 ^ 25 + 1" by (simp add: lock_page_def)
  moreover have "collision_free [1 # replicate 31 0] [2 # replicate 31 0]"
    using demo_hashes by (auto simp: collision_free_def range_hash_def page_at_one)
  ultimately show ?thesis
    by (simp add: setting_def wf_file_def header_count_def header_wal_def page_at_one)
qed

lemma demo_setting: "sync_setting (\<lambda>w. w) (\<lambda>w. w) demo_o demo_r"
proof -
  have "r_close demo_rdb = demo_rdb" "r_path demo_rdb = ''copy.db''" "o_mode demo_odb = ''wal''"
    by (simp_all add: demo_rdb_def demo_odb_def r_close_def)
  then show ?thesis
    unfolding sync_setting_def Let_def demo_fields demo_pages
    using demo_fresh demo_streams demo_startable demo_pair demo_fields by simp
qed

section \<open>The properties\<close>

text \<open>The hypotheses of the properties hold of the demonstration, and it has a complete run.\<close>

lemmas demo_engines = ref_origin.sound_origin_engine_axioms ref_replica.sound_replica_engine_axioms

lemma demo_run:
  "\<exists>x. (sync_step ref_origin ref_replica)\<^sup>*\<^sup>* (sync_start demo_o demo_r) x \<and>
     (\<nexists>y. sync_step ref_origin ref_replica x y)"
  using ref.rel_completes [OF demo_setting] by blast

text \<open>
  C1 (the replica becomes a copy). Whatever the interleaving of the two sides and the pieces in which
  the streams deliver, a run that cannot go on has ended on both sides without an error, and the
  replica's file holds the origin's pages. The two exceptions are both in page 1: its version bytes
  stay those of WAL mode when the replica is in that mode, and the commit has stamped bytes 24 to 27
  and 92 to 99.
\<close>

theorem sync_copies:
  assumes "sound_origin_engine E1 odb_of" and "sound_replica_engine E2 rdb_of"
    and "sync_setting odb_of rdb_of so sr"
    and "(sync_step E1 E2)\<^sup>*\<^sup>* (sync_start so sr) x" and "\<nexists>y. sync_step E1 E2 x y"
  shows "o_at x = Finished None \<and> r_at x = Finished None \<and>
    restamped (copy_of (start_mode (rdb_of (world sr))) (o_pages (odb_of (world so)))) (r_file (rdb_of (world (s_r x))))"
proof -
  note en = sync_engines.intro [OF assms(1,2)]
  from sync_engines.rel_steps [OF en assms(3,4)] obtain p where p: "sync_rel odb_of rdb_of so sr x p" by blast
  from sync_engines.rel_progress [OF en assms(3) p assms(5)] sync_engines.rel_done [OF en p] show ?thesis by blast
qed

theorem sync_copies_witness:
  "\<exists>x. (sync_step ref_origin ref_replica)\<^sup>*\<^sup>* (sync_start demo_o demo_r) x \<and> o_at x = Finished None \<and>
     r_at x = Finished None \<and> restamped [1 # replicate 31 0] (r_file (world (s_r x)))"
proof -
  from demo_run obtain x where x: "(sync_step ref_origin ref_replica)\<^sup>*\<^sup>* (sync_start demo_o demo_r) x"
    "\<nexists>y. sync_step ref_origin ref_replica x y" by blast
  have c: "copy_of 2 [1 # replicate 31 0] = [1 # replicate 31 0]" by (simp add: copy_of_def kept_wal_def)
  from sync_copies [OF demo_engines demo_setting x] x(1) show ?thesis
    unfolding demo_fields demo_pages c by blast
qed

text \<open>
  C6 (every run ends). There is no infinite run: the rounds, the messages of a round, the bytes in
  flight and the two returns are bounded whatever the interleaving.
\<close>

theorem sync_ends:
  assumes "sound_origin_engine E1 odb_of" and "sound_replica_engine E2 rdb_of"
    and "sync_setting odb_of rdb_of so sr"
  shows "\<nexists>f. f 0 = sync_start so sr \<and> (\<forall>i. sync_step E1 E2 (f i) (f (Suc i)))"
  by (rule sync_engines.rel_terminates [OF sync_engines.intro [OF assms(1,2)] assms(3)])

theorem sync_ends_witness:
  "\<nexists>f. f 0 = sync_start demo_o demo_r \<and> (\<forall>i. sync_step ref_origin ref_replica (f i) (f (Suc i)))"
  by (rule sync_ends [OF demo_engines demo_setting])

text \<open>
  C4 (it can always be completed). From every reachable state the run can go on until both sides have
  returned without an error and the file is the copy, but for the stamp of the commit: no interleaving
  leads to a deadlock.
\<close>

theorem sync_completes:
  assumes "sound_origin_engine E1 odb_of" and "sound_replica_engine E2 rdb_of"
    and "sync_setting odb_of rdb_of so sr" and "(sync_step E1 E2)\<^sup>*\<^sup>* (sync_start so sr) y"
  shows "\<exists>x. (sync_step E1 E2)\<^sup>*\<^sup>* y x \<and> o_at x = Finished None \<and> r_at x = Finished None \<and>
    restamped (copy_of (start_mode (rdb_of (world sr))) (o_pages (odb_of (world so)))) (r_file (rdb_of (world (s_r x))))"
proof -
  note en = sync_engines.intro [OF assms(1,2)]
  from sync_engines.rel_completes [OF en assms(3,4)] obtain x where
    x: "(sync_step E1 E2)\<^sup>*\<^sup>* y x" "\<nexists>z. sync_step E1 E2 x z" by blast
  with assms(4) have s: "(sync_step E1 E2)\<^sup>*\<^sup>* (sync_start so sr) x" by simp
  from sync_engines.rel_steps [OF en assms(3) s] obtain p where p: "sync_rel odb_of rdb_of so sr x p" by blast
  from sync_engines.rel_progress [OF en assms(3) p x(2)] sync_engines.rel_done [OF en p] x(1) show ?thesis by blast
qed

theorem sync_completes_witness:
  "\<exists>x. (sync_step ref_origin ref_replica)\<^sup>*\<^sup>* (sync_start demo_o demo_r) x \<and> o_at x = Finished None \<and>
     r_at x = Finished None \<and>
     restamped (copy_of (start_mode (world demo_r)) (o_pages (world demo_o))) (r_file (world (s_r x)))"
  by (rule sync_completes [OF demo_engines demo_setting]) simp

text \<open>
  C5 (no deadlock over an unbuffered stream). Over a stream that buffers nothing, where a write waits until
  the peer has read all of it and a role that writes reads nothing, every reachable state is half-duplex
  (bytes are under way in one direction at most) and the run goes on to the complete copy (with the stamp
  of the commit in page 1).
\<close>

theorem sync_unbuffered:
  assumes "sound_origin_engine E1 odb_of" and "sound_replica_engine E2 rdb_of"
    and "sync_setting odb_of rdb_of so sr" and "(pipe_step E1 E2)\<^sup>*\<^sup>* (sync_start so sr) y"
  shows "half_duplex y \<and> (\<exists>x. (pipe_step E1 E2)\<^sup>*\<^sup>* y x \<and> o_at x = Finished None \<and> r_at x = Finished None \<and>
    restamped (copy_of (start_mode (rdb_of (world sr))) (o_pages (odb_of (world so)))) (r_file (rdb_of (world (s_r x)))))"
proof -
  note en = sync_engines.intro [OF assms(1,2)]
  from sync_engines.rel_steps [OF en assms(3) pipe_sync_steps [OF assms(4)]] obtain p where
    "sync_rel odb_of rdb_of so sr y p" by blast
  moreover from sync_engines.pipe_completes [OF en assms(3,4)] obtain x q where
    "(pipe_step E1 E2)\<^sup>*\<^sup>* y x" "sync_rel odb_of rdb_of so sr x q" "o_at x = Finished None" "r_at x = Finished None"
    by blast
  ultimately show ?thesis using rel_half_duplex sync_engines.rel_done [OF en] by metis
qed

theorem sync_unbuffered_witness:
  "\<exists>x. (pipe_step ref_origin ref_replica)\<^sup>*\<^sup>* (sync_start demo_o demo_r) x \<and> o_at x = Finished None \<and>
     r_at x = Finished None \<and>
     restamped (copy_of (start_mode (world demo_r)) (o_pages (world demo_o))) (r_file (world (s_r x)))"
  using sync_unbuffered [OF demo_engines demo_setting rtranclp.rtrancl_refl] by blast

text \<open>
  C3 (the replica is replaced as a whole or not at all). In every reachable state the committed file
  is the one from before the run or the complete copy with the stamp of the commit in page 1; neither
  side has panicked, and a side that has returned has returned no error.
\<close>

theorem sync_atomic:
  assumes "sound_origin_engine E1 odb_of" and "sound_replica_engine E2 rdb_of"
    and "sync_setting odb_of rdb_of so sr" and "(sync_step E1 E2)\<^sup>*\<^sup>* (sync_start so sr) x"
  shows "(r_file (rdb_of (world (s_r x))) = r_file (rdb_of (world sr)) \<or>
      restamped (copy_of (start_mode (rdb_of (world sr))) (o_pages (odb_of (world so)))) (r_file (rdb_of (world (s_r x))))) \<and>
    (\<forall>m. o_at x \<noteq> Crashed m \<and> r_at x \<noteq> Crashed m) \<and>
    (\<forall>e. o_at x = Finished e \<or> r_at x = Finished e \<longrightarrow> e = None)"
proof -
  note en = sync_engines.intro [OF assms(1,2)]
  from sync_engines.rel_steps [OF en assms(3,4)] obtain p where p: "sync_rel odb_of rdb_of so sr x p" by blast
  from sync_engines.rel_safe [OF en p] show ?thesis .
qed

theorem sync_atomic_witness:
  "\<exists>x. (sync_step ref_origin ref_replica)\<^sup>*\<^sup>* (sync_start demo_o demo_r) x \<and> r_at x = Finished None \<and>
     (r_file (world (s_r x)) = r_file demo_rdb \<or> restamped (copy_of 2 (o_pages demo_odb)) (r_file (world (s_r x))))"
proof -
  from ref.rel_completes [OF demo_setting rtranclp.rtrancl_refl] obtain x where
    x: "(sync_step ref_origin ref_replica)\<^sup>*\<^sup>* (sync_start demo_o demo_r) x" "\<nexists>z. sync_step ref_origin ref_replica x z"
    by blast
  from ref.rel_steps [OF demo_setting x(1)] obtain p where "ref.rel demo_o demo_r x p" by blast
  from ref.rel_progress [OF demo_setting this x(2)] sync_atomic [OF demo_engines demo_setting x(1)] x(1)
  show ?thesis unfolding demo_fields demo_pages by blast
qed

text \<open>
  C10 (both sides report the same). When both sides have returned their statistics agree, the bytes sent
  by one being the bytes received by the other and the lengths of what went over the streams.
\<close>

theorem sync_statistics:
  assumes "sound_origin_engine E1 odb_of" and "sound_replica_engine E2 rdb_of"
    and "sync_setting odb_of rdb_of so sr"
    and "(sync_step E1 E2)\<^sup>*\<^sup>* (sync_start so sr) x" and "o_at x = Finished None" "r_at x = Finished None"
  shows "stats (s_r x) = (stats (s_o x))\<lparr>st_BytesSent := st_BytesReceived (stats (s_o x)),
      st_BytesReceived := st_BytesSent (stats (s_o x))\<rparr> \<and>
    st_BytesSent (stats (s_o x)) = of_nat (length (w_sent (rs_w (s_o x)))) \<and>
    st_BytesReceived (stats (s_o x)) = of_nat (length (w_sent (rs_w (s_r x))))"
proof -
  note en = sync_engines.intro [OF assms(1,2)]
  from sync_engines.rel_steps [OF en assms(3,4)] obtain p where p: "sync_rel odb_of rdb_of so sr x p" by blast
  from sync_engines.rel_stats(1,5) [OF en p assms(5,6)] show ?thesis by blast
qed

lemma demo_finished:
  obtains x where "(sync_step ref_origin ref_replica)\<^sup>*\<^sup>* (sync_start demo_o demo_r) x"
    "o_at x = Finished None" "r_at x = Finished None"
proof -
  from demo_run obtain x where x: "(sync_step ref_origin ref_replica)\<^sup>*\<^sup>* (sync_start demo_o demo_r) x"
    "\<nexists>y. sync_step ref_origin ref_replica x y" by blast
  from ref.rel_steps [OF demo_setting x(1)] obtain p where "ref.rel demo_o demo_r x p" by blast
  from ref.rel_progress [OF demo_setting this x(2)] x(1) that show thesis by blast
qed

theorem sync_statistics_witness:
  "\<exists>x. (sync_step ref_origin ref_replica)\<^sup>*\<^sup>* (sync_start demo_o demo_r) x \<and> o_at x = Finished None \<and>
     st_HashMessages (stats (s_r x)) = st_HashMessages (stats (s_o x))"
proof -
  obtain x where x: "(sync_step ref_origin ref_replica)\<^sup>*\<^sup>* (sync_start demo_o demo_r) x"
    "o_at x = Finished None" "r_at x = Finished None" by (rule demo_finished)
  from sync_statistics [OF demo_engines demo_setting x] x show ?thesis by force
qed

text \<open>
  C9 (exactly what differs is sent). When both sides have returned, the bytes the origin wrote are the
  encodings of messages whose ORIGIN_PAGEs carry the pages that differ between the origin and what the
  replica's connection showed at the start (the lock-byte page excluded): each of them once, with the
  origin's data, and no other. Their number is the reported count of page updates, and one to three
  rounds of hashes were enough to find them.
\<close>

theorem sync_minimal:
  assumes "sound_origin_engine E1 odb_of" and "sound_replica_engine E2 rdb_of"
    and "sync_setting odb_of rdb_of so sr"
    and "(sync_step E1 E2)\<^sup>*\<^sup>* (sync_start so sr) x" and "o_at x = Finished None" "r_at x = Finished None"
  shows "(\<exists>ms. w_sent (rs_w (s_o x)) = concat (map enc_omsg ms) \<and> distinct (map fst (sent_pages ms)) \<and>
      fst ` set (sent_pages ms) = page_diff (o_pages (odb_of (world so)))
        (start_pages (o_psize (odb_of (world so))) (rdb_of (world sr))) (o_psize (odb_of (world so))) \<and>
      (\<forall>(p, d) \<in> set (sent_pages ms). page_at (o_pages (odb_of (world so))) p = Some d)) \<and>
    st_PageUpdates (stats (s_o x)) = of_nat (card (page_diff (o_pages (odb_of (world so)))
      (start_pages (o_psize (odb_of (world so))) (rdb_of (world sr))) (o_psize (odb_of (world so))))) \<and>
    1 \<le> unat (st_HashRounds (stats (s_o x))) \<and> unat (st_HashRounds (stats (s_o x))) \<le> 3"
proof -
  note en = sync_engines.intro [OF assms(1,2)]
  from sync_engines.rel_steps [OF en assms(3,4)] obtain p where p: "sync_rel odb_of rdb_of so sr x p" by blast
  from sync_engines.rel_stats(2,3) [OF en p assms(5,6)] sync_engines.rel_sent [OF en p assms(5,6)]
  show ?thesis unfolding differing_sent_def by blast
qed

theorem sync_minimal_witness:
  "\<exists>x. (sync_step ref_origin ref_replica)\<^sup>*\<^sup>* (sync_start demo_o demo_r) x \<and> o_at x = Finished None \<and>
     st_PageUpdates (stats (s_o x)) = 1 \<and>
     (\<exists>ms. w_sent (rs_w (s_o x)) = concat (map enc_omsg ms) \<and> fst ` set (sent_pages ms) = {1})"
proof -
  obtain x where x: "(sync_step ref_origin ref_replica)\<^sup>*\<^sup>* (sync_start demo_o demo_r) x"
    "o_at x = Finished None" "r_at x = Finished None" by (rule demo_finished)
  have d: "page_diff [1 # replicate 31 0] [2 # replicate 31 0] 32 = {1}"
    by (auto simp: page_diff_def page_at_one lock_page_def)
  have c: "of_nat (card {1 :: int}) = (1 :: u32)" by simp
  show ?thesis using sync_minimal [OF demo_engines demo_setting x, unfolded demo_fields demo_pages d c] x by blast
qed

text \<open>
  C7 (the code refines the protocol). Every reachable state of the two processes stands for a state
  the abstract protocol reaches: the run states for the roles of the specification, and the bytes
  read ahead and in flight for the encodings of the messages in its queues.
\<close>

theorem sync_refines:
  assumes "sound_origin_engine E1 odb_of" and "sound_replica_engine E2 rdb_of"
    and "sync_setting odb_of rdb_of so sr"
    and "(sync_step E1 E2)\<^sup>*\<^sup>* (sync_start so sr) x" and "o_at x = Looping" "r_at x = Looping"
  shows "\<exists>p. psys_step\<^sup>*\<^sup>* (p_start odb_of rdb_of so sr) p \<and> o_abs odb_of (s_o x) = p_o p \<and>
    r_abs rdb_of (s_r x) = p_r p \<and>
    r_avail (rs_r (s_o x)) @ to_origin x = concat (map enc_rmsg (to_o p)) \<and>
    r_avail (rs_r (s_r x)) @ to_replica x = concat (map enc_omsg (to_r p))"
proof -
  note en = sync_engines.intro [OF assms(1,2)]
  from sync_engines.rel_steps [OF en assms(3,4)] obtain p where
    "psys_step\<^sup>*\<^sup>* (p_start odb_of rdb_of so sr) p" "sync_rel odb_of rdb_of so sr x p" by blast
  with assms(5,6) show ?thesis
    by (intro exI [of _ p]) (simp add: sync_rel_def o_side_def r_side_def o_chan_def r_chan_def due_def)
qed

theorem sync_refines_witness:
  "\<exists>x p. (sync_step ref_origin ref_replica)\<^sup>*\<^sup>* (sync_start demo_o demo_r) x \<and>
     psys_step\<^sup>*\<^sup>* (p_start (\<lambda>w. w) (\<lambda>w. w) demo_o demo_r) p \<and>
     r_avail (rs_r (s_r x)) @ to_replica x = concat (map enc_omsg (to_r p))"
proof -
  let ?x = "sync_start demo_o demo_r"
  obtain s where s: "origin_turn ref_origin (o_at ?x) (s_o ?x) = Some (Looping, s)"
    "ref.rel demo_o demo_r (?x\<lparr>s_o := s, o_at := Looping\<rparr>) (p_start (\<lambda>w. w) (\<lambda>w. w) demo_o demo_r)"
    by (rule ref.rel_origin_start [OF demo_setting ref.rel_start [OF demo_setting]]) (simp add: sync_start_def)
  let ?y = "?x\<lparr>s_o := s, o_at := Looping\<rparr>"
  obtain t where t: "replica_turn ref_replica (r_at ?y) (s_r ?y) = Some (Looping, t)"
    by (rule ref.rel_replica_start [OF demo_setting s(2)]) (simp add: sync_start_def)
  let ?z = "?y\<lparr>s_r := t, r_at := Looping\<rparr>"
  have z: "(sync_step ref_origin ref_replica)\<^sup>*\<^sup>* ?x ?z"
    using turn_o [of ref_origin ?x, OF s(1)] turn_r [of ref_replica ?y, OF t] by (meson r_into_rtranclp rtranclp_trans)
  have "o_at ?z = Looping" "r_at ?z = Looping" by simp_all
  from sync_refines [OF demo_engines demo_setting z this] z show ?thesis by blast
qed

section \<open>The functions that are called\<close>

text \<open>
  C37 (the loops end). Whatever the peer sends, however the streams and the engine behave, the bound on
  the loops of originSide and replicaSide, one more than the bytes to come, is never reached: every
  iteration that goes on has consumed at least one byte.
\<close>

theorem sides_end: "fst (originSide E1 s) \<noteq> Panic outOfFuel \<and> fst (replicaSide E2 t) \<noteq> Panic outOfFuel"
  using origin_process.side_fuel replica_process.side_fuel by blast

text \<open>
  C8 (the processes are the calls). For any engines, and whatever else happens in the system: a side that
  has returned has done what one call of originSide or replicaSide does when it is given, as the chunks of
  its input, pieces of what the peer has written. Same outcome, same statistics, same output.
\<close>

theorem sync_calls:
  assumes "ready_streams so" and "ready_streams sr" and "(sync_step E1 E2)\<^sup>*\<^sup>* (sync_start so sr) x"
    and "o_at x = Finished e1" and "r_at x = Finished e2"
  shows "(\<exists>D fin t. prefix (concat D) (w_sent (rs_w (s_r x))) \<and> originSide E1 (feed D fin so) = (Return e1, t) \<and>
      stats t = stats (s_o x) \<and> world t = world (s_o x) \<and> rs_w t = rs_w (s_o x)) \<and>
    (\<exists>D fin t. prefix (concat D) (w_sent (rs_w (s_o x))) \<and> replicaSide E2 (feed D fin sr) = (Return e2, t) \<and>
      stats t = stats (s_r x) \<and> world t = world (s_r x) \<and> rs_w t = rs_w (s_r x))"
  using origin_call [OF assms(1-4)] replica_call [OF assms(1-3,5)] by blast

lemma fresh_ready: "streams_fresh s \<Longrightarrow> ready_streams s"
  by (simp add: streams_fresh_def ready_streams_def r_wait_def w_live_def)

theorem sync_calls_witness:
  "\<exists>D fin t. replicaSide ref_replica (feed D fin demo_r) = (Return None, t)"
proof -
  obtain x where x: "(sync_step ref_origin ref_replica)\<^sup>*\<^sup>* (sync_start demo_o demo_r) x"
    "o_at x = Finished None" "r_at x = Finished None" by (rule demo_finished)
  from sync_calls [OF demo_streams [THEN fresh_ready] x] show ?thesis by blast
qed

text \<open>
  C2 (Origin and Replica return nil). Two calls that can synchronise, over streams that carry what the
  peer writes: both return without an error, the replica's file is the copy with the stamp of the commit
  in page 1, and the returned statistics mirror each other.
\<close>

theorem entry_points:
  assumes "sound_origin_engine E1 odb_of" and "sound_replica_engine E2 rdb_of"
    and "sync_setting odb_of rdb_of (origin_start (newRsync c1 i1 out1 opts1 w1 b1 x1) path1)
      (replica_start (newRsync c2 i2 out2 opts2 w2 b2 x2) path2)"
  shows "\<exists>D1 f1 t1 D2 f2 t2 st.
    Origin E1 c1 (feed_in D1 f1 i1) out1 path1 opts1 w1 b1 x1 = (Some (st, None), t1) \<and>
    Replica E2 c2 (feed_in D2 f2 i2) out2 path2 opts2 w2 b2 x2 =
      (Some (st\<lparr>st_BytesSent := st_BytesReceived st, st_BytesReceived := st_BytesSent st\<rparr>, None), t2) \<and>
    prefix (concat D1) (w_sent (rs_w t2)) \<and> prefix (concat D2) (w_sent (rs_w t1)) \<and>
    restamped (copy_of (start_mode (rdb_of w2)) (o_pages (odb_of w1))) (r_file (rdb_of (world t2)))"
proof -
  let ?so = "origin_start (newRsync c1 i1 out1 opts1 w1 b1 x1) path1"
  let ?sr = "replica_start (newRsync c2 i2 out2 opts2 w2 b2 x2) path2"
  note en = sync_engines.intro [OF assms(1,2)]
  have w: "world ?so = w1" "world ?sr = w2"
    by (simp_all add: start_defs split: option.splits prod.splits)
  from sync_engines.rel_completes [OF en assms(3) rtranclp.rtrancl_refl] obtain x where
    x: "(sync_step E1 E2)\<^sup>*\<^sup>* (sync_start ?so ?sr) x" "\<nexists>z. sync_step E1 E2 x z" by blast
  from sync_engines.rel_steps [OF en assms(3) x(1)] obtain p where p: "sync_rel odb_of rdb_of ?so ?sr x p" by blast
  from sync_engines.rel_progress [OF en assms(3) p x(2)] have f: "o_at x = Finished None" "r_at x = Finished None" by simp_all
  have rd: "ready_streams ?so" "ready_streams ?sr" using settingD(5,9) [OF assms(3)] by (simp_all add: fresh_ready)
  from origin_call [OF rd x(1) f(1)] obtain D1 f1 t1 where
    1: "prefix (concat D1) (w_sent (rs_w (s_r x)))" "originSide E1 (feed D1 f1 ?so) = (Return None, t1)"
      "stats t1 = stats (s_o x)" "rs_w t1 = rs_w (s_o x)" by blast
  from replica_call [OF rd x(1) f(2)] obtain D2 f2 t2 where
    2: "prefix (concat D2) (w_sent (rs_w (s_o x)))" "replicaSide E2 (feed D2 f2 ?sr) = (Return None, t2)"
      "stats t2 = stats (s_r x)" "world t2 = world (s_r x)" "rs_w t2 = rs_w (s_r x)" by blast
  have "Origin E1 c1 (feed_in D1 f1 i1) out1 path1 opts1 w1 b1 x1 = (Some (stats (s_o x), None), t1)"
    using 1 by (simp add: Origin_def feed_origin_start)
  moreover have "Replica E2 c2 (feed_in D2 f2 i2) out2 path2 opts2 w2 b2 x2 = (Some (stats (s_r x), None), t2)"
    using 2 by (simp add: Replica_def feed_replica_start)
  moreover have "stats (s_r x) = (stats (s_o x))\<lparr>st_BytesSent := st_BytesReceived (stats (s_o x)),
      st_BytesReceived := st_BytesSent (stats (s_o x))\<rparr>" by (rule sync_engines.rel_stats(1) [OF en p f])
  moreover have "restamped (copy_of (start_mode (rdb_of w2)) (o_pages (odb_of w1))) (r_file (rdb_of (world t2)))"
    using sync_engines.rel_done [OF en p f(2)] 2(4) w by simp
  ultimately show ?thesis using 1(1,4) 2(1,5) by metis
qed

theorem entry_points_witness:
  "\<exists>D f st t. Replica ref_replica None (feed_in D f demo_in) demo_out ''copy.db'' None demo_rdb False None = (Some (st, None), t) \<and>
     restamped [1 # replicate 31 0] (r_file (world t))"
proof -
  have c: "copy_of 2 [1 # replicate 31 0] = [1 # replicate 31 0]" by (simp add: copy_of_def kept_wal_def)
  from entry_points [OF demo_engines demo_setting [unfolded demo_o_def demo_r_def]]
  show ?thesis unfolding demo_pages c by blast
qed

end
