(* ===== verification/SafetyProps.thy ===== *)
theory SafetyProps
  imports Resources SyncProps
begin

text \<open>
  The properties of the typing theories, for every environment and every behaviour of the peer and the
  streams: the state a role keeps between messages is well typed, a role returns rather than crash,
  closes what it opened, and the two ways in which a peer can crash the replica nevertheless.
\<close>

section \<open>The state of the roles\<close>

lemma origin_start_closed: "o_closed (origin_start (newRsync cctx i out opts w once x) path)"
  by (simp add: o_closed_def start_defs ProtocolVersion_def split: prod.splits)

lemma replica_start_before: "r_before (replica_start (newRsync cctx i out opts w once x) path)"
  by (simp add: r_before_def start_defs ProtocolVersion_def split: prod.splits)

lemma typed_origin_prologue: "safe {divideByZero} o_left o_closed (origin_prologue E) (\<lambda>_. o_typed)"
proof -
  have c: "safe {divideByZero} o_left o_closed (origin_commCheck E) (\<lambda>_. o_typed)"
    unfolding origin_commCheck_def by (intro safe_intros)
  show ?thesis
    unfolding origin_prologue_def by (intro safe_seq safe_if c typed_origin_setup safe_intros) (simp_all add: o_closed_def)
qed

text \<open>
  C19 (the origin's state is well typed). Between any two messages of any run, whatever the database
  replied and the peer sent: the connection is open and free, the protocol is between 0 and 2, the page
  size is a power of two up to 65536 and determines the lock-byte page, and every statement variable is
  nil or holds the statement of its name, the two of the first hash together.
\<close>

theorem origin_state_typed:
  assumes "origin_prologue E (origin_start (newRsync cctx i out opts w once x) path) = (Val (), s)"
    and "(\<lambda>s t. origin_step E s = (Val (), t))\<^sup>*\<^sup>* s t"
  shows "o_typed t"
  using assms(2)
proof (induction rule: rtranclp_induct)
  case base
  show ?case using safeD [OF typed_origin_prologue origin_start_closed assms(1)] by simp
next
  case (step t u)
  from safeD [OF typed_origin_step [of "{}"] step.IH step.hyps(2)] show ?case by simp
qed

lemma demo_prologue:
  obtains s where "origin_prologue ref_origin demo_o = (Val (), s)" "o_ok (\<lambda>w. w) s" "io_ok s"
    "rs_r s = rs_r demo_o"
proof -
  have io: "io_ok demo_o" using demo_streams by (simp add: streams_fresh_def io_ok_def r_wait_def)
  have "pow2_size (o_psize demo_odb)" using demo_startable by (simp add: startable_def demo_pages)
  then have "wpo (origin_prologue ref_origin) (\<lambda>r s'. r = Val () \<and> o_ok (\<lambda>w. w) s' \<and> io_ok s' \<and>
      rs_r s' = rs_r demo_o) demo_o"
    by (intro wpo_mono [OF ref_origin.wpo_origin_prologue [OF demo_fresh(1) io _ refl]])
      (auto simp: demo_fields demo_odb_def)
  with that show thesis by (auto simp: wpo_def split: prod.splits)
qed

theorem origin_state_typed_witness:
  "\<exists>s. origin_prologue ref_origin demo_o = (Val (), s) \<and> o_typed s"
proof -
  obtain s where s: "origin_prologue ref_origin demo_o = (Val (), s)" by (rule demo_prologue)
  from origin_state_typed [OF s [unfolded demo_o_def] rtranclp.rtrancl_refl] s show ?thesis by blast
qed

text \<open>
  C20 (the replica's state is well typed). Between any two messages, as long as the origin keeps to the
  order of the protocol: the protocol is between 0 and 2, an open connection has a page size that is a
  power of two, and \<open>pIns\<close> is nil or holds the page insert; it is not nil once its closing is deferred.
\<close>

theorem replica_state_typed:
  assumes "replica_prologue E (replica_start (newRsync cctx i out opts w once x) path) = (Val (), s)"
    and "(\<lambda>s t. \<exists>c u. next_message s = (Val c, u) \<and> may_take u c \<and> replica_handle E c u = (Val (), t))\<^sup>*\<^sup>* s t"
  shows "r_typed t"
  using assms(2)
proof (induction rule: rtranclp_induct)
  case base
  show ?case using safeD [OF typed_replica_prologue replica_start_before assms(1)] by simp
next
  case (step t v)
  then obtain c u where u: "next_message t = (Val c, u)" "may_take u c" "replica_handle E c u = (Val (), v)" by blast
  from typed_next_message [OF u(1) step.IH] have "r_typed u" by simp
  with u safeD [OF typed_replica_handle [of c E] _ u(3)] show ?case by simp
qed

lemma demo_r_prologue:
  assumes "fresh_run s" "io_ok s" "\<not> commCheck s" "pIns s = None" "replicaPath s = ''copy.db''" "world s = demo_rdb"
  obtains t where "replica_prologue ref_replica s = (Val (), t)" "io_ok t" "rs_r t = rs_r s"
proof -
  have "r_close demo_rdb = demo_rdb" "r_path demo_rdb = ''copy.db''" by (simp_all add: demo_rdb_def r_close_def)
  then have "wpo (replica_prologue ref_replica) (\<lambda>r s'. r = Val () \<and> io_ok s' \<and> rs_r s' = rs_r s) s"
    by (intro wpo_mono [OF ref_replica.wpo_replica_prologue [OF assms(1-4) refl]]) (auto simp: assms)
  with that show thesis by (auto simp: wpo_def split: prod.splits)
qed

theorem replica_state_typed_witness:
  "\<exists>s. replica_prologue ref_replica demo_r = (Val (), s) \<and> r_typed s"
proof -
  have "io_ok demo_r" using demo_streams by (simp add: streams_fresh_def io_ok_def r_wait_def)
  then obtain s where s: "replica_prologue ref_replica demo_r = (Val (), s)"
    using demo_r_prologue [OF demo_fresh(2)] demo_fields by metis
  from replica_state_typed [OF s [unfolded demo_r_def] rtranclp.rtrancl_refl] s show ?thesis by blast
qed

section \<open>The roles return\<close>

text \<open>
  C12 (the origin cannot be crashed). Whatever the database, the peer, the streams and the options do, a
  call of Origin ends in a return; the only panic its code can raise is the division by a page size of
  zero, should the database report one.
\<close>

theorem origin_never_crashes:
  "fst (originSide E (origin_start (newRsync cctx i out opts w once x) path)) \<in> insert (Panic divideByZero) (range Return)"
  by (rule origin_returns [OF origin_start_closed])

text \<open>
  C13 (an orderly origin cannot crash the replica). If every message that Replica takes comes in an order
  the protocol has (none that needs the connection before an accepted ORIGIN_BEGIN, no ORIGIN_BEGIN after
  a page), whatever its operands are, and whatever the database and the streams do, the call ends in a
  return; the only panic left is the indexing of page 1 with a page size below 20 bytes.
\<close>

theorem replica_never_crashes:
  assumes "ordered_run E (replica_start (newRsync cctx i out opts w once x) path)"
  shows "fst (replicaSide E (replica_start (newRsync cctx i out opts w once x) path)) \<in>
    insert (Panic outOfRange) (range Return)"
  by (rule replica_returns [OF replica_start_before assms])

definition given :: "bytes list \<Rightarrow> instream" where
  "given cs = \<lparr>in_ctx = background, in_chunks = cs, in_end = EOF\<rparr>"

lemma given_start:
  fixes cs defines "s \<equiv> replica_start (newRsync None (given cs) demo_out None demo_rdb False None) ''copy.db''"
  shows "fresh_run s" "io_ok s" "\<not> commCheck s" "pIns s = None" "replicaPath s = ''copy.db''" "world s = demo_rdb"
    "r_avail (rs_r s) = concat cs" "r_live (rs_r s)" "\<not> db s"
  by (simp_all add: s_def given_def fresh_run_def io_ok_def start_defs ProtocolVersion_def demo_out_def background_def
      NewReader_def NewWriter_def r_live_def r_avail_def avail_def w_live_def bw_live_def w_ok_def w_buf_def)

theorem replica_never_crashes_witness:
  "fst (replicaSide ref_replica (replica_start (newRsync None (given [[OriginEnd]]) demo_out None demo_rdb False None) ''copy.db'')) \<in>
     insert (Panic outOfRange) (range Return)"
proof (rule replica_never_crashes)
  let ?s = "replica_start (newRsync None (given [[OriginEnd]]) demo_out None demo_rdb False None) ''copy.db''"
  obtain t where t: "replica_prologue ref_replica ?s = (Val (), t)" "io_ok t" "rs_r t = rs_r ?s"
    by (rule demo_r_prologue [OF given_start(1-6)])
  then have "r_live (rs_r t)" "r_avail (rs_r t) = [OriginEnd]" by (simp_all add: given_start)
  then have "wpo next_message (\<lambda>r u. r = Val OriginEnd) t"
    by (rule wpo_next_message) simp
  then obtain u where u: "next_message t = (Val OriginEnd, u)" by (auto simp: wpo_def split: prod.splits)
  have "may_take u OriginEnd" by (simp add: may_take_def msg_byte_defs)
  with t(1) u show "ordered_run ref_replica ?s" by (simp add: ordered_run_def)
qed

text \<open>
  C14 (nothing is left open). Whatever the database, the peer, the streams and the options do: when a call of
  Origin or Replica returns, with or without an error, its connection is closed, no \<open>Rows\<close> is open, and
  the statements its variables hold have been closed.
\<close>

theorem resources_released:
  assumes "Origin E c i out path opts w once x = (Some r, t)"
    and "Replica E' c' i' out' path' opts' w' once' x' = (Some r', t')"
  shows "\<not> db t \<and> openRows t = None \<and> (\<forall>v \<in> {pCkHash t, pCkHashN t, pInsHash t}. is_closed t v) \<and>
    \<not> db t' \<and> openRows t' = None \<and> is_closed t' (pIns t')"
proof -
  let ?s = "origin_start (newRsync c i out opts w once x) path"
  let ?s' = "replica_start (newRsync c' i' out' opts' w' once' x') path'"
  obtain q u q' u' where q: "originSide E ?s = (q, u)" "replicaSide E' ?s' = (q', u')" by fastforce
  from q assms have "\<exists>e. q = Return e" "u = t" "\<exists>e. q' = Return e" "u' = t'"
    using with_defers_no_Val [of E "\<lambda>_. None" "origin_body E" ?s] with_defers_no_Val [of E' pIns "replica_body E'" ?s']
    by (auto simp: Origin_def Replica_def originSide_def replicaSide_def split: outcome.splits)
  then obtain e e' where "originSide E ?s = (Return e, t)" "replicaSide E' ?s' = (Return e', t')" using q by blast
  moreover have "o_bare ?s" "r_bare ?s'" by (simp_all add: o_bare_def r_bare_def start_defs split: prod.splits)
  ultimately show ?thesis using origin_releases [of ?s E] replica_releases [of ?s' E'] by simp
qed

theorem resources_released_witness:
  "\<exists>D f r t D' f' r' t'. Origin ref_origin None (feed_in D f demo_in) demo_out ''orig.db'' None demo_odb False None = (Some r, t) \<and>
     Replica ref_replica None (feed_in D' f' demo_in) demo_out ''copy.db'' None demo_rdb False None = (Some r', t') \<and>
     \<not> db t \<and> \<not> db t'"
proof -
  obtain y where y: "(sync_step ref_origin ref_replica)\<^sup>*\<^sup>* (sync_start demo_o demo_r) y"
    "o_at y = Finished None" "r_at y = Finished None" by (rule demo_finished)
  note rd = demo_streams [THEN fresh_ready]
  from origin_call [OF rd y(1,2)] obtain D f t where "originSide ref_origin (feed D f demo_o) = (Return None, t)" by blast
  then have o: "Origin ref_origin None (feed_in D f demo_in) demo_out ''orig.db'' None demo_odb False None = (Some (stats t, None), t)"
    by (simp add: Origin_def demo_o_def feed_origin_start)
  from replica_call [OF rd y(1,3)] obtain D' f' t' where "replicaSide ref_replica (feed D' f' demo_r) = (Return None, t')" by blast
  then have r: "Replica ref_replica None (feed_in D' f' demo_in) demo_out ''copy.db'' None demo_rdb False None = (Some (stats t', None), t')"
    by (simp add: Replica_def demo_r_def feed_replica_start)
  from resources_released [OF o r] o r show ?thesis by blast
qed

section \<open>A disorderly peer\<close>

text \<open>
  C38 (a message before ORIGIN_BEGIN crashes the replica). For every environment: when the first message
  the replica reads is an ORIGIN_PAGE, ORIGIN_TXN, ORIGIN_DETAIL or ORIGIN_READY with its operands, the
  call does not return an error but dereferences the nil connection.
\<close>

theorem replica_disorder:
  assumes "c \<in> {OriginPage, OriginTxn, OriginDetail, OriginReady}" and "length ops = operand_size c"
    and "concat (in_chunks i) = c # ops @ rest" and "opts = None \<or> \<not> opt_CommCheck (the opts)"
  shows "fst (Replica E None i out path opts w True None) = None"
proof -
  let ?s = "replica_start (newRsync None i out opts w True None) path"
  have cc: "\<not> commCheck ?s" using assms(4) by (auto simp: start_defs split: option.splits)
  have s: "registerOnce ?s" "registerResult ?s = None" "\<not> db ?s" "pIns ?s = None" "r_live (rs_r ?s)"
    "r_avail (rs_r ?s) = c # ops @ rest"
    using assms(3) by (simp_all add: start_defs NewReader_def r_live_def r_avail_def avail_def background_def)
  obtain t where t: "replica_prologue E ?s = (Val (), t)" "\<not> db t" "pIns t = None" "rs_r t = rs_r ?s"
    using s cc
    by (auto simp: replica_prologue_def replica_setup_def hash_Register_def Register_def seq_def try_err_def push_defer_def
        modify_def gets_def)
  have "fst (replica_step E t) = Panic nilPointer"
    using disorder_step [OF t(2,3) _ _ assms(1,2), of rest] s(5,6) t(4) by simp
  then obtain v where "replica_step E t = (Panic nilPointer, v)" by (metis prod.collapse)
  then have "replica_body E ?s = (Panic nilPointer, v)"
    using t(1) by (simp add: replica_body_prologue seq_def gets_def)
  then have "replicaSide E ?s = (Panic nilPointer, v)"
    by (simp add: replicaSide_def with_defers_def seq_def call_def)
  then show ?thesis by (simp add: Replica_def)
qed

theorem replica_disorder_witness:
  "fst (Replica ref_replica None (given [[OriginTxn, 0, 0], [0, 1]]) demo_out ''copy.db'' None demo_rdb True None) = None"
  by (rule replica_disorder [of OriginTxn "[0, 0, 0, 1]" _ "[]"]) (simp_all add: operand_size_def given_def msg_byte_defs)

text \<open>
  C39 (an ORIGIN_BEGIN after a page crashes the replica). A run has accepted an ORIGIN_PAGE, at any point;
  later, after any further messages, it takes an ORIGIN_BEGIN, accepted or not, and from then on no
  further ORIGIN_PAGE (which would set \<open>pIns\<close> again). However that run ends, the call does not return: the
  closing deferred by the page dereferences the variable that the ORIGIN_BEGIN has set to nil.
\<close>

theorem replica_second_begin:
  assumes "replica_prologue E (replica_start (newRsync c i out opts w once x) path) = (Val (), s)"
    and "goes_on_with E s s1" and "next_message s1 = (Val OriginPage, s2)" and "replica_handle E OriginPage s2 = (Val (), s3)"
    and "goes_on_with E s3 s4" and "next_message s4 = (Val OriginBegin, s5)" and "snd (e_close E (world s5)) = None"
    and "replica_handle E OriginBegin s5 = (r, s6)"
    and "r = Val () \<Longrightarrow> \<forall>t u. goes_on_with E s6 t \<longrightarrow> next_message t \<noteq> (Val OriginPage, u)"
  shows "fst (Replica E c i out path opts w once x) = None"
proof -
  let ?s = "replica_start (newRsync c i out opts w once x) path"
  have "r_bare ?s" by (simp add: r_bare_def start_defs split: prod.splits)
  from begin_after_page [OF this assms(1-8)] assms(9) obtain q where "fst (replicaSide E ?s) = Panic q" by blast
  then show ?thesis by (auto simp: Replica_def split: prod.splits outcome.splits)
qed

lemma demo_page_taken:
  fixes d defines "d \<equiv> 1 # replicate 31 0 :: bytes"
  defines "s \<equiv> replica_start (newRsync None (given [enc_omsg (MBegin 2 32 1) @ enc_omsg (MPage 1 d) @ [OriginBegin]])
    demo_out None demo_rdb False None) ''copy.db''"
  obtains s0 s1 s2 where "replica_prologue ref_replica s = (Val (), s0)" "replica_step ref_replica s0 = (Val (), s1)"
    "replica_step ref_replica s1 = (Val (), s2)" "r_avail (rs_r s1) = enc_omsg (MPage 1 d) @ [OriginBegin]" "r_live (rs_r s1)"
    "r_avail (rs_r s2) = [OriginBegin]" "r_live (rs_r s2)"
proof -
  have cl: "r_close demo_rdb = demo_rdb" "r_path demo_rdb = ''copy.db''" by (simp_all add: demo_rdb_def r_close_def)
  have st: "fresh_run s" "io_ok s" "\<not> commCheck s" "pIns s = None" "world s = demo_rdb" "replicaPath s = ''copy.db''"
    "r_avail (rs_r s) = enc_omsg (MBegin 2 32 1) @ enc_omsg (MPage 1 d) @ [OriginBegin]"
    unfolding s_def using given_start by (simp_all del: enc_omsg.simps)
  obtain x0 s0 where x0: "replica_prologue ref_replica s = (x0, s0)" by fastforce
  have "protocol s = 2" "walOnly s" by (simp_all add: s_def start_defs ProtocolVersion_def)
  with wpoD [OF ref_replica.wpo_replica_prologue [OF st(1-4) refl] x0] cl st
  have s0: "x0 = Val ()" "r_ok (\<lambda>w. w) s0" "io_ok s0" "rs_r s0 = rs_r s"
    "rq_db (r_abs (\<lambda>w. w) s0) = demo_rdb" "rq_proto (r_abs (\<lambda>w. w) s0) = 2" "\<not> rq_ins (r_abs (\<lambda>w. w) s0)"
    by (auto simp: r_start_def)
  have size: "pow2_size 32" using demo_startable by (simp add: startable_def)
  have op: "r_work (opened 32 demo_rdb) = [2 # replicate 31 0]" "r_mode demo_rdb = ''wal''" "r_psize (opened 32 demo_rdb) = 32"
    by (simp_all add: opened_def demo_rdb_def r_close_def Let_def)
  have r0: "r_ready (r_abs (\<lambda>w. w) s0) (MBegin 2 32 1)"
    using s0 size op by (simp add: on_begin_def Let_def first_rows_def rows_u32_def)
  obtain x1 s1 where x1: "replica_step ref_replica s0 = (x1, s1)" by fastforce
  from wpoD [OF ref_replica.replica_step_refines [OF s0(2,3) r0] x1] st(7) s0(4)
  have s1: "x1 = Val ()" "r_ok (\<lambda>w. w) s1" "io_ok s1" "r_avail (rs_r s1) = enc_omsg (MPage 1 d) @ [OriginBegin]"
    "\<exists>out. on_begin (r_abs (\<lambda>w. w) s0) 2 32 1 = Some (r_abs (\<lambda>w. w) s1, out)"
    by (auto simp: r_taken_def dest: moved_simps simp del: enc_omsg.simps)
  from s1(5) s0(5-7) op have db: "r_txn (rq_db (r_abs (\<lambda>w. w) s1))" "r_psize (rq_db (r_abs (\<lambda>w. w) s1)) = 32"
    "rq_size (r_abs (\<lambda>w. w) s1) = 32"
    by (auto simp: on_begin_def Let_def send_batch_def dest!: sym [of _ "r_abs (\<lambda>w. w) s1"])
  have r1: "r_ready (r_abs (\<lambda>w. w) s1) (MPage 1 d)"
    using db by (simp add: on_page_def d_def)
  obtain x2 s2 where x2: "replica_step ref_replica s1 = (x2, s2)" by fastforce
  from wpoD [OF ref_replica.replica_step_refines [OF s1(2,3) r1 s1(4)] x2]
  have s2: "x2 = Val ()" "io_ok s2" "r_avail (rs_r s2) = [OriginBegin]"
    by (auto simp: r_taken_def dest: moved_simps simp del: enc_omsg.simps)
  show thesis
    by (rule that [of s0 s1 s2]) (use x0 s0 x1 s1 x2 s2 in \<open>simp_all add: io_ok_def del: enc_omsg.simps\<close>)
qed

theorem replica_second_begin_witness:
  "fst (Replica ref_replica None (given [enc_omsg (MBegin 2 32 1) @ enc_omsg (MPage 1 (1 # replicate 31 0)) @ [OriginBegin]])
     demo_out ''copy.db'' None demo_rdb False None) = None"
proof -
  obtain s0 s1 s2 where s: "replica_prologue ref_replica (replica_start (newRsync None (given
      [enc_omsg (MBegin 2 32 1) @ enc_omsg (MPage 1 (1 # replicate 31 0)) @ [OriginBegin]]) demo_out None demo_rdb False None) ''copy.db'') = (Val (), s0)"
    "replica_step ref_replica s0 = (Val (), s1)" "replica_step ref_replica s1 = (Val (), s2)"
    "r_avail (rs_r s1) = enc_omsg (MPage 1 (1 # replicate 31 0)) @ [OriginBegin]" "r_live (rs_r s1)"
    "r_avail (rs_r s2) = [OriginBegin]" "r_live (rs_r s2)" by (rule demo_page_taken)
  have "wpo next_message (\<lambda>r _. r = Val OriginPage) s1" by (rule wpo_next_message [OF s(5)]) (use s(4) in simp_all)
  then obtain u1 where u1: "next_message s1 = (Val OriginPage, u1)" by (auto simp: wpo_def split: prod.splits)
  have "wpo next_message (\<lambda>r _. r = Val OriginBegin) s2" by (rule wpo_next_message [OF s(7,6)]) simp
  then obtain u2 where u2: "next_message s2 = (Val OriginBegin, u2)" by (auto simp: wpo_def split: prod.splits)
  have h: "replica_handle ref_replica OriginPage u1 = (Val (), s2)" using s(3) u1 by (simp add: replica_step_def seq_def)
  obtain r s3 where b: "replica_handle ref_replica OriginBegin u2 = (r, s3)" by fastforce
  then have "replica_step ref_replica s2 = (r, s3)" using u2 by (simp add: replica_step_def seq_def)
  from wpoD [OF begin_cut [OF s(7,6) ref_replica.r_close_total] this] have r: "r \<noteq> Val ()" by auto
  show ?thesis
    by (rule replica_second_begin [OF s(1) r_into_rtranclp [of "\<lambda>s t. replica_step ref_replica s = (Val (), t)", OF s(2)] u1 h rtranclp.rtrancl_refl u2
        ref_replica.r_close_total b]) (use r in simp)
qed

end
