(* ===== verification/DeliveryProps.thy ===== *)
theory DeliveryProps
  imports Chunks Flushing SafetyProps
begin

text \<open>
  The properties of a call with respect to its streams and its context: into which pieces the input is cut
  does not matter, a cancelled context ends the call, and what a role has written is not held back.
\<close>

section \<open>The pieces of the input\<close>

text \<open>What a call returns, what it wrote, and what it left in the world.\<close>

definition observed :: "'r \<times> ('w, 'x) rsync_scheme \<Rightarrow> 'r \<times> Writer \<times> 'w" where
  "observed p = (fst p, rs_w (snd p), world (snd p))"

lemma blind_observed:
  assumes "blind side" and "alike (rs_r s) r"
    and "\<And>x t r'. alike (rs_r t) r' \<Longrightarrow> res (x, t\<lparr>rs_r := r'\<rparr>) = res (x, t)"
  shows "observed (let p = side s in (res p, snd p)) = observed (let p = side (s\<lparr>rs_r := r\<rparr>) in (res p, snd p))"
proof -
  obtain x t where t: "side s = (x, t)" by fastforce
  from blindD [OF assms(1,2) t] assms(3) t show ?thesis by (auto simp: observed_def)
qed

definition call_result :: "unit outcome \<times> ('w, 'x) rsync_scheme \<Rightarrow> (Stats \<times> goerr option) option" where
  "call_result p = (case p of (Return e, s) \<Rightarrow> Some (stats s, e) | (Val _, s) \<Rightarrow> Some (stats s, None) | (Panic _, s) \<Rightarrow> None)"

lemma call_result_alike: "alike (rs_r t) r' \<Longrightarrow> call_result (x, t\<lparr>rs_r := r'\<rparr>) = call_result (x, t)"
  by (cases x) (simp_all add: call_result_def stats_def BytesRead_def alike_def)

lemma entry_call_result:
  "Origin E cctx i out path opts w once e =
     (let p = originSide E (origin_start (newRsync cctx i out opts w once e) path) in (call_result p, snd p))"
  "Replica E' cctx i out path opts w' once e =
     (let p = replicaSide E' (replica_start (newRsync cctx i out opts w' once e) path) in (call_result p, snd p))"
  by (auto simp: Origin_def Replica_def call_result_def split: prod.splits outcome.splits)

lemma start_reader:
  "origin_start (s\<lparr>rs_r := r\<rparr>) path = (origin_start s path)\<lparr>rs_r := r\<rparr>"
  "replica_start (s\<lparr>rs_r := r\<rparr>) path = (replica_start s path)\<lparr>rs_r := r\<rparr>"
  by (simp_all add: origin_start_def replica_start_def rsync.extend_def rsync.truncate_def Let_def)

lemma start_alike:
  assumes "alike (rs_r s) r"
  shows "alike (rs_r (origin_start s path)) r" "alike (rs_r (replica_start s path)) r"
  using assms by (simp_all add: origin_start_def replica_start_def rsync.extend_def rsync.truncate_def Let_def)

text \<open>
  C27 (the pieces do not matter). For every environment, peer and option, with a context that is not
  cancelled: the transport may cut the incoming bytes into any pieces, down to single bytes, and a call
  of Origin or Replica returns the same statistics and error, writes the same bytes, and leaves the same
  database.
\<close>

theorem pieces_do_not_matter:
  assumes "concat cs = concat cs'"
  shows "observed (Origin E None (i\<lparr>in_chunks := cs\<rparr>) out path opts w once e) =
      observed (Origin E None (i\<lparr>in_chunks := cs'\<rparr>) out path opts w once e) \<and>
    observed (Replica E' None (i\<lparr>in_chunks := cs\<rparr>) out path opts w' once e) =
      observed (Replica E' None (i\<lparr>in_chunks := cs'\<rparr>) out path opts w' once e)"
proof -
  have "s' = s\<lparr>rs_r := rs_r s'\<rparr> \<and> alike (rs_r s) (rs_r s')"
    if "s = newRsync None (i\<lparr>in_chunks := cs\<rparr>) out opts v once e" "s' = newRsync None (i\<lparr>in_chunks := cs'\<rparr>) out opts v once e"
    for s s' :: "'z rsync" and v
    using newRsync_reader [where i = i and cs' = cs' and out = out and opts = opts and w = v and once = once and x = e and cs = cs] alike_newRsync [OF assms] that by simp
  note n = this [OF refl refl]
  show ?thesis
    unfolding entry_call_result
    by (rule conjI; subst conjunct1 [OF n]; unfold start_reader;
        intro blind_observed blind_sides start_alike conjunct2 [OF n] call_result_alike)
qed

theorem pieces_do_not_matter_witness:
  "observed (Replica ref_replica None (demo_in\<lparr>in_chunks := [[0x41], [2], [5, 0], [0, 0, 1]]\<rparr>) demo_out ''copy.db'' None demo_rdb True None) =
   observed (Replica ref_replica None (demo_in\<lparr>in_chunks := [[0x41, 2, 5, 0, 0, 0, 1]]\<rparr>) demo_out ''copy.db'' None demo_rdb True None)"
  by (rule conjunct2 [OF pieces_do_not_matter]) simp

section \<open>A cancelled context\<close>

text \<open>The states of a role between two messages of a call that begins in \<open>s0\<close>.\<close>

definition o_between :: "'w env \<Rightarrow> 'w origin \<Rightarrow> 'w origin \<Rightarrow> bool" where
  "o_between E s0 s \<longleftrightarrow> (\<exists>t. origin_prologue E s0 = (Val (), t) \<and> (\<lambda>s t. origin_step E s = (Val (), t))\<^sup>*\<^sup>* t s)"

definition r_between :: "'w env \<Rightarrow> 'w replica \<Rightarrow> 'w replica \<Rightarrow> bool" where
  "r_between E s0 s \<longleftrightarrow> (\<exists>t. replica_prologue E s0 = (Val (), t) \<and> (\<lambda>s t. replica_step E s = (Val (), t))\<^sup>*\<^sup>* t s)"

definition cancelled_at :: "('w, 'x) rsync_scheme \<Rightarrow> bool" where
  "cancelled_at s \<longleftrightarrow> r_cancelled (rs_r s) \<and> w_cancelled (rs_w s)"

definition transport :: "('w, 'x) rsync_scheme \<Rightarrow> bytes list \<times> bytes" where
  "transport s = (in_chunks (br_src (rd (rs_r s))), w_sent (rs_w s))"

lemma fits_star:
  assumes "\<And>r w. keeps (cancelled.since r w) step" and "(\<lambda>s t. step s = (Val (), t))\<^sup>*\<^sup>* s t" and "r_fits (rs_r s)"
  shows "r_fits (rs_r t)"
  using assms(2,3)
proof (induction rule: rtranclp_induct)
  case (step t u)
  from cancelled.sinceD [OF assms(1) step.hyps(2)] step.IH [OF step.prems] show ?case by (simp add: idle_r_def)
qed

lemma cancelled_bounds:
  assumes "\<And>s t. step s = (Val (), t) \<Longrightarrow> left t < left s" and "\<And>r w. keeps (cancelled.since r w) step"
    and "((\<lambda>s t. step s = (Val (), t)) ^^ n) s t" and "cancelled_at s" and "r_fits (rs_r s)"
  shows "n \<le> 4096 \<and> transport t = transport s"
  using cancelled_steps [OF assms(1-3)] assms(4,5)
  by (simp add: cancelled_at_def transport_def idle_r_def idle_w_def r_fits_def bufSize_def w_sent_def)

lemma start_fits: "r_fits (rs_r (origin_start (newRsync c i out opts w once e) path))"
  "r_fits (rs_r (replica_start (newRsync c i out opts w once e) path))"
  by (simp_all add: start_defs NewReader_def r_fits_def split: prod.splits)

text \<open>
  C25 (a cancelled run ends within one buffer). Once the context is cancelled, at whatever point of a call,
  a role takes no more bytes from the transport, hands none to it, and handles at most the 4096 bytes its
  read buffer can still hold, hence at most 4096 further messages, before it returns.
\<close>

theorem cancelled_run_stops:
  assumes "cancelled_at s" and "cancelled_at s'"
    and "o_between E (origin_start (newRsync c i out opts w once e) path) s"
    and "((\<lambda>s t. origin_step E s = (Val (), t)) ^^ n) s t"
    and "r_between E' (replica_start (newRsync c' i' out' opts' w' once' e') path') s'"
    and "((\<lambda>s t. replica_step E' s = (Val (), t)) ^^ n') s' t'"
  shows "n \<le> 4096 \<and> transport t = transport s \<and> n' \<le> 4096 \<and> transport t' = transport s'"
proof -
  from assms(3) obtain u where u: "origin_prologue E (origin_start (newRsync c i out opts w once e) path) = (Val (), u)"
    "(\<lambda>s t. origin_step E s = (Val (), t))\<^sup>*\<^sup>* u s" by (auto simp: o_between_def)
  have "r_fits (rs_r u)" using cancelled.sinceD [OF cancelled.since_origin_prologue u(1)] by (simp add: idle_r_def start_fits)
  then have f: "r_fits (rs_r s)" by (rule fits_star [OF cancelled.since_origin_step u(2)])
  from assms(5) obtain v where v: "replica_prologue E' (replica_start (newRsync c' i' out' opts' w' once' e') path') = (Val (), v)"
    "(\<lambda>s t. replica_step E' s = (Val (), t))\<^sup>*\<^sup>* v s'" by (auto simp: r_between_def)
  have "r_fits (rs_r v)" using cancelled.sinceD [OF cancelled.since_replica_prologue v(1)] by (simp add: idle_r_def start_fits)
  then have f': "r_fits (rs_r s')" by (rule fits_star [OF cancelled.since_replica_step v(2)])
  from cancelled_bounds [OF steps_eat(1) cancelled.since_origin_step assms(4,1) f]
    cancelled_bounds [OF steps_eat(2) cancelled.since_replica_step assms(6,2) f'] show ?thesis by simp
qed

definition cut_ctx :: "nat \<Rightarrow> ctx" where
  "cut_ctx n = \<lparr>passes = Some n, ctx_error = ErrText ''context canceled''\<rparr>"

definition two_messages :: "byte \<Rightarrow> bytes" where
  "two_messages m = [m, 0, 0, 0, 0, m, 0, 0, 0, 0]"

definition cut_r :: "rdb replica" where
  "cut_r = replica_start (newRsync (Some (cut_ctx 1, cut_ctx 0)) (given [two_messages OriginMsg]) demo_out None demo_rdb True None) ''copy.db''"

lemmas reader_evals = given_def cut_ctx_def two_messages_def NewReader_def ReadByte_def ReadMessage_def ReadUint32_def ReadBytes_def
  io_ReadFull_def ReadFull_loop.simps bufReader_Read_def ctxStream_Read_def ctx_Err_def rw_Read_def bufSize_def get_u32_def
  maxMessageLen_def r_cancelled_def

lemma two_messages_read:
  "\<exists>a b c d. ReadByte (NewReader ((given [two_messages m])\<lparr>in_ctx := cut_ctx 1\<rparr>)) = (a, Inr m) \<and> ReadMessage a = (b, Inr []) \<and>
     r_cancelled b \<and> ReadByte b = (c, Inr m) \<and> ReadMessage c = (d, Inr [])"
  by (simp add: reader_evals)

lemma two_steps:
  assumes "rs_r s = NewReader ((given [two_messages m])\<lparr>in_ctx := cut_ctx 1\<rparr>)" and "w_cancelled (rs_w s)"
    and "handle m = seq rd_message (\<lambda>_. ret ())"
  shows "\<exists>t u. seq next_message handle s = (Val (), t) \<and> cancelled_at t \<and> seq next_message handle t = (Val (), u)"
proof -
  from two_messages_read [of m] obtain a b c d where
    r: "ReadByte (rs_r s) = (a, Inr m)" "ReadMessage a = (b, Inr [])" "r_cancelled b" "ReadByte b = (c, Inr m)" "ReadMessage c = (d, Inr [])"
    unfolding assms(1) [symmetric] by blast
  have step: "seq next_message handle v = (Val (), v\<lparr>rs_r := z\<rparr>)"
    if "ReadByte (rs_r v) = (x, Inr m)" "ReadMessage x = (z, Inr [])" for v x z
    using that by (simp add: next_message_def rd_message_def try_val_def r_op_def seq_def ret_def assms(3))
  from step [OF r(1,2)] step [of "s\<lparr>rs_r := b\<rparr>" c d] r(3-5) assms(2) show ?thesis
    by (simp add: cancelled_at_def)
qed

text \<open>A database that answers every query with one number.\<close>

definition still_env :: "unit env" where
  "still_env = \<lparr>e_scalar = (\<lambda>w _ _. (w, None)), e_aggregate = (\<lambda>w _ _ _. (w, None)), e_stat = (\<lambda>w _. (w, None)),
     e_open = (\<lambda>w _. (w, None)), e_close = (\<lambda>w. (w, None)), e_exec = (\<lambda>w _ _. (w, None)),
     e_query = (\<lambda>w _ _. (w, Inr \<lparr>rs_rows = [[SInt 512]], rs_err = None\<rparr>)), e_rows_close = (\<lambda>w. (w, None)),
     e_prepare = (\<lambda>w _. (w, None)), e_stmt_close = (\<lambda>w _. (w, None)), fmt_q = id, scan_error = (\<lambda>_ _ _. EOF)\<rparr>"

definition cut_o :: "unit origin" where
  "cut_o = origin_start (newRsync (Some (cut_ctx 1, cut_ctx 1)) (given [two_messages ReplicaMsg]) demo_out
     (Some \<lparr>opt_Protocol = 0, opt_CommCheck = False, opt_AllowNonWal = True\<rparr>) () True None) ''orig.db''"

lemmas eval_defs = start_defs demo_out_def NewWriter_def try_val_def try_err_def w_op_def seq_def ret_def stop_def chk_def
  push_defer_def modify_def gets_def cond_def hash_Register_def Register_def ProtocolVersion_def

lemma cut_r_prologue:
  "\<exists>s. replica_prologue E cut_r = (Val (), s) \<and> rs_r s = rs_r cut_r \<and> w_cancelled (rs_w s)"
  by (simp add: cut_r_def eval_defs replica_prologue_def replica_setup_def w_cancelled_def cut_ctx_def)

lemma cut_o_prologue:
  "\<exists>s. origin_prologue still_env cut_o = (Val (), s) \<and> rs_r s = rs_r cut_o \<and> w_cancelled (rs_w s)"
  by (simp add: cut_o_def eval_defs still_env_def cut_ctx_def ctx_Err_def bufSize_def put_u32_def w_cancelled_def origin_prologue_def origin_setup_def openDb_def run_def db_Exec_def on_db_def
     runReturnUInt_def db_QueryRow_def db_Query_def rows_Close_def scan1_def scan_uint32_def send_begin_def wr_byte_def wr_u32_def wr_pow2_def wr_flush_def
     WriteByte_def WriteUint32_def WriteBytes_def WritePow2_def Flush_def bufWriter_Write.simps bufWriter_Flush_def ctxStream_Write_def rw_Write_def
     log2_loop.simps)

theorem cancelled_run_stops_witness:
  "\<exists>s t s' t'. cancelled_at s \<and> origin_step still_env s = (Val (), t) \<and> transport t = transport s \<and>
     cancelled_at s' \<and> replica_step ref_replica s' = (Val (), t') \<and> transport t' = transport s'"
proof -
  obtain s0 where s0: "origin_prologue still_env cut_o = (Val (), s0)" "rs_r s0 = rs_r cut_o" "w_cancelled (rs_w s0)"
    using cut_o_prologue by blast
  have "rs_r s0 = NewReader ((given [two_messages ReplicaMsg])\<lparr>in_ctx := cut_ctx 1\<rparr>)"
    unfolding s0(2) by (simp add: cut_o_def start_defs)
  from two_steps [OF this s0(3), of "origin_handle still_env"] obtain s t where
    s: "origin_step still_env s0 = (Val (), s)" "cancelled_at s" "origin_step still_env s = (Val (), t)"
    by (auto simp: origin_step_def origin_handle_def)
  obtain r0 where r0: "replica_prologue ref_replica cut_r = (Val (), r0)" "rs_r r0 = rs_r cut_r" "w_cancelled (rs_w r0)"
    using cut_r_prologue by blast
  have "rs_r r0 = NewReader ((given [two_messages OriginMsg])\<lparr>in_ctx := cut_ctx 1\<rparr>)"
    unfolding r0(2) by (simp add: cut_r_def start_defs)
  from two_steps [OF this r0(3), of "replica_handle ref_replica"] obtain s' t' where
    s': "replica_step ref_replica r0 = (Val (), s')" "cancelled_at s'" "replica_step ref_replica s' = (Val (), t')"
    by (auto simp: replica_step_def replica_handle_def)
  have "o_between still_env cut_o s" "r_between ref_replica cut_r s'"
    using s0(1) s(1) r0(1) s'(1) by (auto simp: o_between_def r_between_def)
  note b = this [unfolded cut_o_def cut_r_def]
  have "((\<lambda>s t. origin_step still_env s = (Val (), t)) ^^ 1) s t" "((\<lambda>s t. replica_step ref_replica s = (Val (), t)) ^^ 1) s' t'"
    using s(3) s'(3) by auto
  from cancelled_run_stops [OF s(2) s'(2) b(1) this(1) b(2) this(2)] s s' show ?thesis by blast
qed

text \<open>
  C26 (a call with a cancelled context). Called with the option CommCheck off and a context that is
  cancelled already (its error not an end of file), Origin and Replica take nothing from the transport,
  hand nothing to it, and do not return nil: a cancellation is never reported as success.
\<close>

theorem cancelled_call_fails:
  assumes "passes c = Some 0" and "passes c' = Some 0" and "\<not> is_eof (ctx_error c)" and "opts = None \<or> \<not> opt_CommCheck (the opts)"
    and "Origin E (Some (c, c')) i out path opts w once e = (r, t)"
    and "Replica E' (Some (c, c')) i out path' opts w' once e = (r', t')"
  shows "transport t = (in_chunks i, out_sent out) \<and> transport t' = (in_chunks i, out_sent out) \<and>
    r \<notin> range (\<lambda>st. Some (st, None)) \<and> r' \<notin> range (\<lambda>st. Some (st, None))"
proof -
  let ?o = "origin_start (newRsync (Some (c, c')) i out opts w once e) path"
  let ?r = "replica_start (newRsync (Some (c, c')) i out opts w' once e) path'"
  have f: "r_cancelled (rs_r ?o)" "r_cancelled (rs_r ?r)" "w_cancelled (rs_w ?o)" "w_cancelled (rs_w ?r)"
    "br_buf (rd (rs_r ?o)) = []" "br_buf (rd (rs_r ?r)) = []" "\<not> commCheck ?o" "\<not> commCheck ?r"
    "\<not> is_eof (ctx_error (in_ctx (br_src (rd (rs_r ?o)))))" "\<not> is_eof (ctx_error (in_ctx (br_src (rd (rs_r ?r)))))"
    "transport ?o = (in_chunks i, out_sent out)" "transport ?r = (in_chunks i, out_sent out)"
    using assms(1-4)
    by (auto simp: start_defs NewReader_def NewWriter_def r_cancelled_def w_cancelled_def transport_def w_sent_def split: option.splits)
  obtain x u where x: "originSide E ?o = (x, u)" by fastforce
  obtain y v where y: "replicaSide E' ?r = (y, v)" by fastforce
  have idle: "idle_r (rs_r ?o) (rs_r u) \<and> idle_w (rs_w ?o) (rs_w u)" "idle_r (rs_r ?r) (rs_r v) \<and> idle_w (rs_w ?r) (rs_w v)"
    using cancelled.sinceD [OF cancelled.since_sides(1) x] cancelled.sinceD [OF cancelled.since_sides(2) y] by auto
  have "transport u = transport ?o" "transport v = transport ?r"
    using idle f(1-4) by (simp_all add: transport_def idle_r_def idle_w_def w_sent_def)
  moreover have "x \<noteq> Return None \<and> x \<noteq> Val ()"
    by (rule cancelled_side [OF quiet_origin_prologue failing_prologues(1) [OF f(7)] f(1,5,9) _ x [unfolded origin_process.side_body]])
      (simp add: origin_step_def)
  moreover have "y \<noteq> Return None \<and> y \<noteq> Val ()"
    by (rule cancelled_side [OF quiet_replica_prologue failing_prologues(2) [OF f(8)] f(2,6,10) _ y [unfolded replica_process.side_body]])
      (simp add: replica_step_def)
  ultimately show ?thesis
    using assms(5,6) x y f(11,12)
    by (auto simp: Origin_def Replica_def split: outcome.splits)
qed

theorem cancelled_call_fails_witness:
  "\<exists>t. snd (Replica ref_replica (Some (cut_ctx 0, cut_ctx 0)) demo_in demo_out ''copy.db'' None demo_rdb True None) = t \<and>
     transport t = ([], [])"
proof -
  obtain r t where o: "Origin ref_origin (Some (cut_ctx 0, cut_ctx 0)) demo_in demo_out ''orig.db'' None demo_odb True None = (r, t)" by fastforce
  obtain r' t' where p: "Replica ref_replica (Some (cut_ctx 0, cut_ctx 0)) demo_in demo_out ''copy.db'' None demo_rdb True None = (r', t')" by fastforce
  from cancelled_call_fails [OF _ _ _ _ o p] p show ?thesis by (simp add: cut_ctx_def demo_in_def demo_out_def)
qed

section \<open>Flushing\<close>

lemma clean_star:
  assumes "clean step" and "(\<lambda>s t. step s = (Val (), t))\<^sup>*\<^sup>* s t" and "empty_buf s"
  shows "empty_buf t"
  using assms(2,3)
proof (induction rule: rtranclp_induct)
  case (step t u)
  show ?case by (rule cleanD [OF assms(1) step.IH [OF step.prems] step.hyps(2)])
qed

lemma start_empty: "empty_buf (origin_start (newRsync c i out opts w once e) path)"
  "empty_buf (replica_start (newRsync c i out opts w once e) path)"
  by (simp_all add: start_defs NewWriter_def empty_buf_def w_buf_def split: prod.splits)

text \<open>
  C24 (nothing is held back). Whenever a role is about to read the next message, in any call, over any
  stream and whatever failed on the way, its write buffer is empty: all it has written has been handed to the
  transport, so the peer cannot be waiting for it.
\<close>

theorem nothing_held_back:
  assumes "o_between E (origin_start (newRsync c i out opts w once e) path) s"
    and "r_between E' (replica_start (newRsync c' i' out' opts' w' once' e') path') s'"
  shows "w_buf (rs_w s) = [] \<and> w_buf (rs_w s') = []"
proof -
  from assms(1) obtain u where u: "origin_prologue E (origin_start (newRsync c i out opts w once e) path) = (Val (), u)"
    "(\<lambda>s t. origin_step E s = (Val (), t))\<^sup>*\<^sup>* u s" by (auto simp: o_between_def)
  have "empty_buf u" by (rule cleanD [OF clean_prologues(1) start_empty(1) u(1)])
  from clean_star [OF clean_origin_step u(2) this] have s: "empty_buf s" .
  from assms(2) obtain v where v: "replica_prologue E' (replica_start (newRsync c' i' out' opts' w' once' e') path') = (Val (), v)"
    "(\<lambda>s t. replica_step E' s = (Val (), t))\<^sup>*\<^sup>* v s'" by (auto simp: r_between_def)
  have "empty_buf v" by (rule cleanD [OF clean_prologues(2) start_empty(2) v(1)])
  from clean_star [OF clean_replica_step v(2) this] s show ?thesis by (simp add: empty_buf_def)
qed

theorem nothing_held_back_witness:
  "\<exists>s s'. origin_prologue ref_origin demo_o = (Val (), s) \<and> w_buf (rs_w s) = [] \<and>
     replica_prologue ref_replica demo_r = (Val (), s') \<and> w_buf (rs_w s') = []"
proof -
  obtain s where s: "origin_prologue ref_origin demo_o = (Val (), s)" by (rule demo_prologue)
  have "io_ok demo_r" using demo_streams by (simp add: streams_fresh_def io_ok_def r_wait_def)
  then obtain s' where s': "replica_prologue ref_replica demo_r = (Val (), s')"
    using demo_r_prologue [OF demo_fresh(2)] demo_fields by metis
  have "o_between ref_origin demo_o s" "r_between ref_replica demo_r s'"
    using s s' by (auto simp: o_between_def r_between_def)
  from nothing_held_back [OF this [unfolded demo_o_def demo_r_def]] s s' show ?thesis by blast
qed

end
