(* ===== verification/Refusals.thy ===== *)
theory Refusals
  imports Adequacy Reference
begin

text \<open>
  What a role refuses, and how: it sends the reason to the peer in an error frame of its own, at once, and
  returns the same text as its error. The peer's call then returns that text as the error of the other side.
\<close>

section \<open>A refusal\<close>

definition refused :: "byte \<Rightarrow> string \<Rightarrow> ('w, 'x) rsync_scheme \<Rightarrow> 'a outcome \<Rightarrow> ('w, 'x) rsync_scheme \<Rightarrow> bool" where
  "refused b t s r s' \<longleftrightarrow> r = Return (Some (JoinErr [ErrText t])) \<and> w_sent (rs_w s') = w_queued (rs_w s) @ frame b (bytes_of t)"

lemma wpo_write_error:
  assumes "w_live (rs_w s)"
    and "\<And>w. w_sent w = w_queued (rs_w s) @ frame b (bytes_of t) \<Longrightarrow> Q (Val (JoinErr [ErrText t])) (s\<lparr>rs_w := w\<rparr>)"
  shows "wpo (write_error b t) Q s"
  using WriteError_live [OF assms(1), of b t] assms(2) by (auto simp: write_error_def wpo_w_op)

lemma wpo_fail:
  assumes "w_live (rs_w s)"
    and "\<And>w. w_sent w = w_queued (rs_w s) @ frame b (bytes_of t) \<Longrightarrow> Q (Return (Some (JoinErr [ErrText t]))) (s\<lparr>rs_w := w\<rparr>)"
  shows "wpo (fail b t) Q s"
  unfolding fail_def by (rule wpo_seqI, rule wpo_write_error [OF assms(1)]) (simp add: assms(2))

lemma wpo_o_fail:
  assumes "w_live (rs_w s)"
    and "\<And>w. w_sent w = w_queued (rs_w s) @ frame (errMsgByte s) (bytes_of t) \<Longrightarrow> Q (Return (Some (JoinErr [ErrText t]))) (s\<lparr>rs_w := w\<rparr>)"
  shows "wpo (o_fail t) Q s"
  unfolding o_fail_def by (simp add: wpo_seq) (rule wpo_fail [OF assms(1)], rule assms(2))

section \<open>Messages outside the protocol\<close>

definition origin_messages :: "byte set" where
  "origin_messages = {ReplicaMsg, ReplicaError, ReplicaEnd, ReplicaBegin, ReplicaConfig, ReplicaHash, ReplicaReady}"

definition replica_messages :: "byte set" where
  "replica_messages = {OriginMsg, OriginError, OriginEnd, OriginBegin, OriginDetail, OriginReady, OriginTxn, OriginPage}"

lemma origin_refuses_message:
  assumes "r_live (rs_r s)" "w_live (rs_w s)" "\<not> isReplica s" "r_avail (rs_r s) = c # rest" "c \<notin> origin_messages"
  shows "wpo (origin_step E) (\<lambda>r t. refused OriginError (unknown_message c) s r t \<and> world t = world s) s"
  unfolding origin_step_def
  by (rule seq_next_message [OF assms(1,4)])
    (use assms(5) in \<open>simp add: origin_handle_def origin_messages_def, intro wpo_o_fail,
      simp_all add: assms refused_def errMsgByte_def\<close>)

lemma replica_refuses_message:
  assumes "r_live (rs_r s)" "w_live (rs_w s)" "r_avail (rs_r s) = c # rest" "c \<notin> replica_messages"
  shows "wpo (replica_step E) (\<lambda>r t. refused ReplicaError (unknown_message c) s r t \<and> world t = world s) s"
  unfolding replica_step_def
  by (rule seq_next_message [OF assms(1,3)])
    (use assms(4) in \<open>simp add: replica_handle_def replica_messages_def, intro wpo_fail,
      simp_all add: assms refused_def\<close>)

text \<open>A REPLICA_BEGIN that proposes no older protocol.\<close>

lemma origin_refuses_proposal:
  assumes "r_live (rs_r s)" "w_live (rs_w s)" "\<not> isReplica s" "r_avail (rs_r s) = ReplicaBegin # p # rest"
    and "protocol s \<le> int (unat p)"
  shows "wpo (origin_step E) (\<lambda>r t. refused OriginError ''Invalid REPLICA_BEGIN reply'' s r t \<and> world t = world s) s"
proof -
  have np: "\<not> int (unat p) < protocol s" using assms(5) by simp
  have h: "origin_handle E ReplicaBegin = on_replica_begin" by (simp add: origin_handle_def msg_byte_defs)
  show ?thesis
    unfolding origin_step_def
    apply (rule seq_next_message [OF assms(1,4)])
    apply (simp only: h on_replica_begin_def)
    apply (rule seq_rd_byte [where x = p and rest = rest], simp add: r_nowD, simp add: r_nowD)
    apply (simp only: seq_simps)
    apply (use np in \<open>simp del: uint_nat\<close>)
    apply (rule wpo_o_fail)
    apply (simp_all add: assms refused_def errMsgByte_def)
    done
qed

section \<open>The peer's errors\<close>

lemma wpo_rd_message:
  assumes "r_live (rs_r s)" and "r_avail (rs_r s) = put_u32 (of_nat (length d)) @ d @ rest" and "length d \<le> 2 ^ 20"
    and "\<And>r'. r_live r' \<Longrightarrow> r_avail r' = rest \<Longrightarrow> Q (Val d) (s\<lparr>rs_r := r'\<rparr>)"
  shows "wpo rd_message Q s"
  using ReadMessage_live [OF assms(1-3)] assms(4) by (auto simp: rd_message_def wpo_try_val wpo_r_op)

lemma origin_peer_error:
  assumes "r_live (rs_r s)" and "r_avail (rs_r s) = frame ReplicaError d @ rest" and "length d \<le> 2 ^ 20"
  shows "wpo (origin_step E) (\<lambda>r t. r = Return (Some (peer_error ''replica'' d)) \<and> rs_w t = rs_w s \<and> world t = world s) s"
  unfolding origin_step_def
  by (rule seq_next_message [where rest = "put_u32 (of_nat (length d)) @ d @ rest"], rule assms(1), simp add: assms(2) frame_def,
      simp add: origin_handle_def msg_byte_defs, rule wpo_seqI, rule wpo_rd_message [OF _ _ assms(3)])
    (simp_all add: r_nowD)

lemma replica_peer_error:
  assumes "r_live (rs_r s)" and "r_avail (rs_r s) = frame OriginError d @ rest" and "length d \<le> 2 ^ 20"
  shows "wpo (replica_step E) (\<lambda>r t. r = Return (Some (peer_error ''origin'' d)) \<and> rs_w t = rs_w s \<and> world t = world s) s"
  unfolding replica_step_def
  by (rule seq_next_message [where rest = "put_u32 (of_nat (length d)) @ d @ rest"], rule assms(1), simp add: assms(2) frame_def,
      simp add: replica_handle_def msg_byte_defs, rule wpo_seqI, rule wpo_rd_message [OF _ _ assms(3)])
    (simp_all add: r_nowD)

section \<open>Databases that do not fit\<close>

context sound_replica_engine
begin

lemma wpo_begin_accepted:
  assumes ok: "r_ok rdb_of s" and io: "io_ok s" and pow: "pow2_size sz" and p: "int (unat p) \<le> protocol s"
    and av: "r_avail (rs_r s) = enc_omsg (MBegin p sz n) @ rest"
    and Q: "\<And>w r. rdb_of w = r_close (rdb_of (world s)) \<Longrightarrow> wpo (open_replica E) Q
      (s\<lparr>world := w, db := False, pIns := None, rs_r := r, protocol := int (unat p), pageCount := n, pageSize := sz\<rparr>)"
  shows "wpo (replica_step E) Q s"
proof -
  from pow obtain j where j: "sz = 2 ^ j" "j \<le> 16" by (auto simp: pow2_size_def)
  have ub: "unat (pow2_byte sz) = j"
    using j by (simp add: pow2_byte_def log2_loop_pow2 unsigned_of_nat take_bit_nat_eq_self)
  then have b16: "pow2_byte sz \<le> 16" and psz: "2 ^ unat (pow2_byte sz) = sz"
    using j by (simp_all add: word_le_nat_alt)
  have np: "\<not> protocol s < uint p" using p by simp
  show ?thesis
    unfolding replica_step_def
    apply (rule seq_next_message [where rest = "p # pow2_byte sz # put_u32 n @ rest"], use io in \<open>simp add: io_ok_def\<close>, simp add: av)
    apply (simp only: replica_handle_simps on_origin_begin_def)
    apply (rule seq_closeDb, use ok in \<open>simp add: r_ok_def\<close>)
    apply (simp only: seq_simps)
    apply (rule seq_rd_byte [where rest = "pow2_byte sz # put_u32 n @ rest" and x = p], simp add: r_nowD, simp add: r_nowD)
    apply (rule seq_rd_pow2 [where rest = "put_u32 n @ rest" and b = "pow2_byte sz"], simp add: r_nowD, simp add: r_nowD, rule b16)
    apply (rule seq_rd_u32 [where rest = rest and x = n], simp add: r_nowD, simp add: r_nowD)
    apply (simp add: np)
    apply (simp only: psz)
    apply (use Q in simp)
    done
qed

lemma refuses_rollback_mode:
  assumes s: "openRows s = None" "\<not> wrongEnc s" "replicaPath s = r_path (rdb_of (world s))" "w_live (rs_w s)"
    and d: "d = opened (pageSize s) (rdb_of (world s))" and fl: "length (r_file d) < 2 ^ 32"
    and wal: "r_mode d \<noteq> ''wal''" "walOnly s" "r_file d \<noteq> []"
  shows "wpo (open_replica E) (\<lambda>r t. refused ReplicaError ''replica is not in WAL mode'' s r t \<and> rdb_of (world t) = d) s"
proof -
  have n0: "(of_nat (length (r_file d)) :: u32) > 0"
    using fl wal(3) by (auto simp: word_neq_0_conv [symmetric] unat_eq_0 [symmetric] unat_of_nat take_bit_nat_eq_self)
  have att: "r_attached d" by (simp add: d)
  show ?thesis
    apply (rule wpo_open_begun [OF s(1-3) d fl])
    apply (rule wpo_seqI)
    unfolding check_replica_wal_def
    apply (rule replica.seq_text [where q = RJournalMode and t = "r_mode d", unfolded rsql.simps], simp, simp add: s, simp, simp add: att)
    apply (simp add: wal n0)
    apply (rule wpo_seqI, rule wpo_fail, simp add: s)
    apply (simp add: refused_def)
    done
qed

lemma refuses_page_size:
  assumes s: "openRows s = None" "\<not> wrongEnc s" "replicaPath s = r_path (rdb_of (world s))" "w_live (rs_w s)"
    and d: "d = opened (pageSize s) (rdb_of (world s))" and len: "length (r_work d) < 2 ^ 32"
    and wal: "r_mode d \<noteq> ''wal'' \<longrightarrow> \<not> (walOnly s \<and> r_file d \<noteq> [])"
    and sz: "r_psize d \<noteq> pageSize s" "0 \<le> r_psize d" "r_psize d < 2 ^ 32"
  shows "wpo (open_replica E) (\<lambda>r t. refused ReplicaError (size_mismatch (pageSize s) (word_of_int (r_psize d))) s r t \<and>
    rdb_of (world t) = d) s"
proof -
  have fl: "length (r_file d) < 2 ^ 32" using len by (simp add: d opened_def Let_def r_close_def split: if_splits)
  then have n0: "of_nat (length (r_file d)) = (0 :: u32) \<longleftrightarrow> r_file d = []"
    by (auto simp: unat_eq_0 [symmetric] unat_of_nat take_bit_nat_eq_self)
  have att: "r_attached d" by (simp add: d)
  have u: "uint (word_of_int (r_psize d) :: u32) = r_psize d"
    using sz by (simp add: unsigned_of_int take_bit_int_eq_self)
  show ?thesis
    apply (rule wpo_open_begun [OF s(1-3) d fl])
    apply (rule wpo_seqI, rule wpo_check_replica_wal, simp, simp add: s, simp add: att, use wal n0 in \<open>simp add: word_neq_0_conv\<close>)
    apply simp
    apply (rule replica.seq_uint [where q = RPageCount and i = "int (length (r_work d))", unfolded rsql.simps], simp, simp add: s, simp,
        simp add: att, simp, use len in simp)
    apply (rule replica.seq_uint [where q = RPageSize and i = "r_psize d", unfolded rsql.simps], simp, simp add: s, simp,
        simp add: att, rule sz(2), rule sz(3))
    apply (simp add: u sz(1))
    apply (rule wpo_seqI, rule wpo_fail, simp add: s)
    apply (simp add: refused_def)
    done
qed

end

text \<open>The origin's database must be in WAL mode unless the options allow otherwise.\<close>

context sound_origin_engine
begin

lemma refuses_origin_mode:
  assumes f: "fresh_run s" and w: "w_live (rs_w s)" and cc: "\<not> commCheck s"
    and wal: "walOnly s" "o_mode (odb_of (world s)) \<noteq> ''wal''"
  shows "wpo (origin_prologue E) (\<lambda>r t. refused OriginError ''Origin database is not in WAL mode'' s r t \<and>
    o_pages (odb_of (world t)) = o_pages (odb_of (world s))) s"
proof -
  note s = f [unfolded fresh_run_def]
  show ?thesis
    unfolding origin_prologue_def
    apply (rule origin.seq_register, use s in simp)
    apply (simp add: cc)
    apply (simp only: origin_setup_def seq_simps)
    apply (rule seq_stat)
    apply (simp only: option.case seq_ret)
    apply (rule seq_open)
    apply (simp only: option.case seq_ret)
    apply (rule origin.seq_run [where q = OBegin, unfolded osql.simps oargs.simps], use s in simp, use s in simp, simp)
    apply (use s in \<open>simp add: wal(1)\<close>)
    apply (rule wpo_seqI)
    unfolding check_wal_def
    apply (rule origin.seq_text [where q = OJournalMode and t = "o_mode (odb_of (world s))", unfolded osql.simps], simp, use s in simp, simp, simp)
    apply (simp add: wal(2))
    apply (rule wpo_o_fail, use w s in simp)
    apply (use s in \<open>simp add: refused_def errMsgByte_def\<close>)
    done
qed

end

end
