(* ===== verification/Negotiation.thy ===== *)
theory Negotiation
  imports EndToEnd
begin

text \<open>
  The protocol version the two sides agree on. The origin announces the version it was asked for; an older
  replica answers with its own and the origin announces again; from then on neither side changes it.
\<close>

definition settled :: "int \<Rightarrow> psys \<Rightarrow> bool" where
  "settled v s \<longleftrightarrow> sp_proto (p_o s) = v \<and> rq_proto (p_r s) = v \<and> (\<forall>m \<in> set (to_r s). \<forall>p sz n. m \<noteq> MBegin p sz n) \<and>
     (\<forall>m \<in> set (to_o s). \<forall>p. m \<noteq> NPropose p)"

definition announced :: "int \<Rightarrow> int \<Rightarrow> psys \<Rightarrow> bool" where
  "announced po pr s \<longleftrightarrow> \<not> ended s \<and> rq_proto (p_r s) = pr \<and> to_o s = [] \<and>
     (\<exists>p sz n. to_r s = [MBegin p sz n] \<and> int (unat p) = sp_proto (p_o s)) \<and>
     (sp_proto (p_o s) = po \<or> sp_proto (p_o s) = pr \<and> pr < po)"

definition proposed :: "int \<Rightarrow> int \<Rightarrow> psys \<Rightarrow> bool" where
  "proposed po pr s \<longleftrightarrow> \<not> ended s \<and> rq_proto (p_r s) = pr \<and> to_r s = [] \<and> to_o s = [NPropose (word_of_int pr)] \<and>
     sp_proto (p_o s) = po \<and> pr < po"

definition negotiation :: "int \<Rightarrow> int \<Rightarrow> psys \<Rightarrow> bool" where
  "negotiation po pr s \<longleftrightarrow> announced po pr s \<or> proposed po pr s \<or> settled (min po pr) s"

lemma batch_not_propose: "m \<in> set (batch ps es ex) \<Longrightarrow> m \<noteq> NPropose p"
  by (induction ps es ex rule: batch.induct) (auto split: option.splits if_splits)

lemma unat_version: "0 \<le> v \<Longrightarrow> v < 256 \<Longrightarrow> int (unat (word_of_int v :: byte)) = v"
  by (simp add: unsigned_of_int take_bit_int_eq_self)

lemma not_begin: "x \<in> set (page_msgs ps rows) \<Longrightarrow> x \<noteq> MBegin p sz n" "x \<in> set (detail_msgs rows) \<Longrightarrow> x \<noteq> MBegin p sz n"
  by (auto simp: page_msgs_def detail_msgs_def List.map_filter_def split: if_splits)

lemma o_spec_settled:
  "o_spec a m a' out \<Longrightarrow> (\<forall>p. m \<noteq> NPropose p) \<Longrightarrow> sp_proto a' = sp_proto a \<and> (\<forall>x \<in> set out. \<forall>p sz n. x \<noteq> MBegin p sz n)"
  by (cases rule: o_spec.cases, assumption)
    (auto simp: set_bad_def next_expected_def dest!: mset_eq_setD dest: not_begin)

lemma r_spec_settled:
  "r_spec r m r' out \<Longrightarrow> (\<forall>p sz n. m \<noteq> MBegin p sz n) \<Longrightarrow> rq_proto r' = rq_proto r \<and> (\<forall>x \<in> set out. \<forall>p. x \<noteq> NPropose p)"
  by (cases m) (auto simp: send_batch_def on_page_def on_txn_def dest: batch_not_propose
      split: option.splits exec_result.splits if_splits)

lemma negotiation_step:
  assumes "0 < po" "po < 256" "0 < pr" "pr < 256" and "psys_step s s'" and "negotiation po pr s"
  shows "negotiation po pr s'"
  using assms(5)
proof (cases rule: psys_step.cases)
  case (origin m ms a out)
  from assms(6) origin(2) consider "proposed po pr s" | "settled (min po pr) s"
    by (auto simp: negotiation_def announced_def)
  then show ?thesis
  proof cases
    case 1
    with origin have m: "m = NPropose (word_of_int pr)" "ms = []" by (simp_all add: proposed_def)
    from origin(3) [unfolded m] 1 unat_version [of pr] assms(3,4) origin(1) m show ?thesis
      by (auto elim!: o_spec_propose simp: negotiation_def announced_def proposed_def)
  next
    case 2
    with origin o_spec_settled [OF origin(3)] have "settled (min po pr) s'" by (auto simp: settled_def)
    then show ?thesis by (simp add: negotiation_def)
  qed
next
  case (replica m ms r out)
  from assms(6) replica(3) consider "announced po pr s" | "settled (min po pr) s"
    by (auto simp: negotiation_def proposed_def)
  then show ?thesis
  proof cases
    case 1
    then obtain p sz n where m: "m = MBegin p sz n" "ms = []" "int (unat p) = sp_proto (p_o s)" "rq_proto (p_r s) = pr"
      using replica by (auto simp: announced_def)
    from replica(4) have b: "on_begin (p_r s) p sz n = Some (r, out)" by (simp add: m)
    show ?thesis
    proof (cases "int (unat p) > pr")
      case True
      with b m have "rq_proto r = pr" "out = [NPropose (word_of_int pr)]" by (auto simp: on_begin_def)
      with 1 True m replica(1) have "proposed po pr s'" by (auto simp: announced_def proposed_def)
      then show ?thesis by (simp add: negotiation_def)
    next
      case False
      with b m have "rq_proto r = int (unat p)" "\<forall>x \<in> set out. \<forall>p. x \<noteq> NPropose p"
        by (auto simp: on_begin_def Let_def send_batch_def dest: batch_not_propose split: if_splits)
      with 1 False m replica(1) have "settled (min po pr) s'" by (auto simp: announced_def settled_def)
      then show ?thesis by (simp add: negotiation_def)
    qed
  next
    case 2
    with replica r_spec_settled [OF replica(4)] have "settled (min po pr) s'" by (auto simp: settled_def)
    then show ?thesis by (simp add: negotiation_def)
  qed
next
  case (finish ms)
  with assms(6) have "settled (min po pr) s" by (auto simp: negotiation_def announced_def proposed_def)
  with finish show ?thesis by (auto simp: negotiation_def settled_def)
qed

lemma negotiation_steps:
  assumes "0 < po" "po < 256" "0 < pr" "pr < 256" and "psys_step\<^sup>*\<^sup>* s s'" and "negotiation po pr s"
  shows "negotiation po pr s'"
  using assms(5,6) by (induction rule: rtranclp_induct) (auto intro: negotiation_step [OF assms(1-4)])

lemma negotiation_start:
  "0 \<le> protocol so \<Longrightarrow> protocol so < 256 \<Longrightarrow> negotiation (protocol so) (protocol sr) (p_start odb_of rdb_of so sr)"
  using unat_version [of "protocol so"]
  by (auto simp: negotiation_def announced_def p_start_def begin_msg_def o_start_def r_start_def)

lemma negotiation_ended: "negotiation po pr s \<Longrightarrow> ended s \<Longrightarrow> sp_proto (p_o s) = min po pr \<and> rq_proto (p_r s) = min po pr"
  by (auto simp: negotiation_def announced_def proposed_def settled_def)

text \<open>The version asked for by the options: 1 or 2, and the latest for anything else.\<close>

definition requested :: "Options option \<Rightarrow> int" where
  "requested opts = (case opts of None \<Rightarrow> 2 | Some o0 \<Rightarrow> if opt_Protocol o0 = 1 then 1 else 2)"

lemma newRsync_protocol: "protocol (newRsync c i out opts w once e) = requested opts"
  by (auto simp: newRsync_def Let_def requested_def ProtocolVersion_def split: option.splits prod.splits)

context sync_engines
begin

lemma finished_protocol:
  assumes set: "sync_setting odb_of rdb_of so sr"
    and x: "(sync_step E1 E2)\<^sup>*\<^sup>* (sync_start so sr) x" and at: "o_at x = Finished None" "r_at x = Finished None"
  shows "st_Protocol (stats (s_o x)) = min (protocol so) (protocol sr) \<and>
    st_Protocol (stats (s_r x)) = min (protocol so) (protocol sr)"
proof -
  from rel_steps [OF set x] obtain p where p: "psys_step\<^sup>*\<^sup>* (p_start odb_of rdb_of so sr) p" "rel so sr x p" by blast
  from set have b: "0 < protocol so" "protocol so < 256" "0 < protocol sr" "protocol sr < 256"
    by (auto simp: sync_setting_def Let_def fresh_run_def)
  have "negotiation (protocol so) (protocol sr) p"
    by (rule negotiation_steps [OF b p(1)]) (use b in \<open>simp add: negotiation_start\<close>)
  moreover from p(2) at have "ended p" "stats (s_o x) = o_stats p (length (o_sent x)) (length (r_sent x))"
    "stats (s_r x) = r_stats p (length (r_sent x)) (length (o_sent x))"
    by (auto simp: sync_rel_def o_side_def r_side_def)
  ultimately show ?thesis by (simp add: negotiation_ended o_stats_def r_stats_def)
qed

end

end
