(* ===== verification/OriginFaults.thy ===== *)
theory OriginFaults
  imports Faults
begin

text \<open>
  The origin's database under faults: its pages, page size and journal mode never change, because every
  statement of the role's loop is one of those the origin's engine knows, and the statement variables
  hold the statements they are named after.
\<close>

definition o_holding :: "('w \<Rightarrow> odb) \<Rightarrow> (odb \<Rightarrow> bool) \<Rightarrow> 'w origin \<Rightarrow> bool" where
  "o_holding odb_of D s \<longleftrightarrow> D (odb_of (world s)) \<and> (pCkHash s = None \<or> holds (pCkHash s) checkHashSQL) \<and>
     (pInsHash s = None \<or> holds (pInsHash s) insBadHashSQL) \<and> (pCkHashN s = None \<or> holds (pCkHashN s) checkHashNSQL)"

definition content_is :: "pages \<Rightarrow> int \<Rightarrow> string \<Rightarrow> odb \<Rightarrow> bool" where
  "content_is ps sz mode d \<longleftrightarrow> o_pages d = ps \<and> o_psize d = sz \<and> o_mode d = mode"

lemma content_exec: "o_exec st d = Some d' \<Longrightarrow> content_is ps sz mode d' = content_is ps sz mode d"
  by (cases st) (auto simp: content_is_def bind_eq_Some_conv split: if_splits)

lemma o_holding_streams [simp]:
  "o_holding odb_of D (s\<lparr>rs_r := r\<rparr>) = o_holding odb_of D s" "o_holding odb_of D (s\<lparr>rs_w := w\<rparr>) = o_holding odb_of D s"
  by (simp_all add: o_holding_def)

lemma o_keeps_streams [keeps_intros]:
  fixes odb_of :: "'w \<Rightarrow> odb" and D :: "odb \<Rightarrow> bool" and P
  defines "P \<equiv> o_holding odb_of D"
  shows "keeps P rd_byte" "keeps P rd_u32" "keeps P (rd_bytes n)" "keeps P rd_message" "keeps P next_message"
    "keeps P (wr_byte b)" "keeps P (wr_u32 x)" "keeps P (wr_bytes p)" "keeps P (wr_pow2 v)" "keeps P wr_flush"
    "keeps P (write_error m t)" "keeps P (o_fail t)"
proof -
  have r: "keeps P (r_op f)" for f :: "Reader \<Rightarrow> Reader \<times> 'c" by (auto simp: P_def keeps_def r_op_def split: prod.splits)
  have w: "keeps P (w_op g)" for g :: "Writer \<Rightarrow> Writer \<times> 'd" by (auto simp: P_def keeps_def w_op_def split: prod.splits)
  show "keeps P rd_byte" "keeps P rd_u32" "keeps P (rd_bytes n)" "keeps P rd_message" "keeps P next_message"
    unfolding rd_byte_def rd_u32_def rd_bytes_def rd_message_def next_message_def by (intro keeps_intros r)+
  show "keeps P (wr_byte b)" "keeps P (wr_u32 x)" "keeps P (wr_bytes p)" "keeps P (wr_pow2 v)" "keeps P wr_flush"
    "keeps P (write_error m t)" "keeps P (o_fail t)"
    unfolding wr_byte_def wr_u32_def wr_bytes_def wr_pow2_def wr_flush_def write_error_def fail_def o_fail_def
    by (intro keeps_intros w)+
qed

context origin_engine
begin

abbreviation kept :: "pages \<Rightarrow> int \<Rightarrow> string \<Rightarrow> ('w origin, 'a) gom \<Rightarrow> bool" where
  "kept ps sz mode \<equiv> keeps (o_holding odb_of (content_is ps sz mode))"

lemma kept_on_db:
  "(\<And>w. content_is ps sz mode (odb_of (fst (f w))) = content_is ps sz mode (odb_of w)) \<Longrightarrow> kept ps sz mode (on_db f)"
proof (rule keepsI)
  fix s assume c: "\<And>w. content_is ps sz mode (odb_of (fst (f w))) = content_is ps sz mode (odb_of w)"
    and s: "o_holding odb_of (content_is ps sz mode) s"
  obtain w x where w: "f (world s) = (w, x)" by fastforce
  with c [of "world s"] s show "o_holding odb_of (content_is ps sz mode) (snd (on_db f s))"
    by (simp add: on_db_def o_holding_def)
qed

lemma kept_exec: "kept ps sz mode (db_Exec E (osql st) (oargs st))"
  unfolding db_Exec_def
proof (rule kept_on_db)
  fix w
  obtain w' e where e: "e_exec E w (osql st) (oargs st) = (w', e)" by fastforce
  show "content_is ps sz mode (odb_of (fst (e_exec E w (osql st) (oargs st)))) = content_is ps sz mode (odb_of w)"
  proof (cases e)
    case None
    with content_exec [OF o_exec_ok [of w st w']] e show ?thesis by simp
  next
    case (Some x)
    with o_exec_err [of w st w' x] e show ?thesis by simp
  qed
qed

lemma kept_run: "kept ps sz mode (run E (osql st) (oargs st))"
  unfolding run_def by (intro keeps_intros kept_exec) (simp add: o_holding_def)

lemma kept_query: "kept ps sz mode (db_Query E (osql st) (oargs st))"
proof -
  have o: "kept ps sz mode (on_db (\<lambda>w. e_query E w (osql st) (oargs st)))"
    by (rule kept_on_db) (metis o_query prod.collapse)
  show ?thesis unfolding db_Query_def
    by (intro keeps_intros o) (simp add: keeps_def o_holding_def)
qed

lemma kept_rows_Close [keeps_intros]: "kept ps sz mode (rows_Close E i)"
proof (rule keepsI)
  fix s assume s: "o_holding odb_of (content_is ps sz mode) s"
  obtain w e where w: "e_rows_close E (world s) = (w, e)" by fastforce
  with o_rows_close [of "world s"] s show "o_holding odb_of (content_is ps sz mode) (snd (rows_Close E i s))"
    by (simp add: rows_Close_def o_holding_def)
qed

lemma kept_row: "kept ps sz mode (db_QueryRow E (osql st) (oargs st) scan)"
  unfolding db_QueryRow_def by (intro keeps_intros kept_query) (simp add: o_holding_def)

lemma kept_prepare_bind:
  assumes "\<And>i. kept ps sz mode (k (Stmt i sql))"
  shows "kept ps sz mode (seq (try_val (prepare E sql)) k)"
proof (rule keepsI)
  fix s assume s: "o_holding odb_of (content_is ps sz mode) s"
  have o: "kept ps sz mode (on_db (\<lambda>w. e_prepare E w sql))" by (rule kept_on_db) (simp add: o_prepare)
  have "kept ps sz mode (try_val (prepare E sql))"
    unfolding prepare_def db_Prepare_def by (intro keeps_intros o) (simp add: keeps_def o_holding_def)
  note t = keepsD [OF this s]
  obtain r t where r: "try_val (prepare E sql) s = (r, t)" by fastforce
  show "o_holding odb_of (content_is ps sz mode) (snd (seq (try_val (prepare E sql)) k s))"
  proof (cases r)
    case (Val st)
    with prepare_Val [of E sql s st t] r obtain i where "st = Stmt i sql" by (auto simp: holds_def)
    with Val r t keepsD [OF assms] show ?thesis by (simp add: seq_def)
  qed (use t r in \<open>simp_all add: seq_def\<close>)
qed

text \<open>The calls on a statement variable, which is nil or holds the statement of its name.\<close>

lemma kept_stmt_calls:
  "v = None \<or> holds v checkHashSQL \<Longrightarrow> kept ps sz mode (stmt_QueryRow E v [SInt p, SBlob h] scan)"
  "v = None \<or> holds v checkHashNSQL \<Longrightarrow> kept ps sz mode (stmt_QueryRow E v [SInt a, SInt b, SBlob h] scan)"
  "v = None \<or> holds v insBadHashSQL \<Longrightarrow> kept ps sz mode (stmt_Exec E v [SInt p, SInt n])"
  using kept_row [of ps sz mode "OCheckHash p h" scan] kept_row [of ps sz mode "OCheckHashN a b h" scan]
    kept_exec [of ps sz mode "OInsBad p n"]
  by (auto simp: stmt_QueryRow_def stmt_Exec_def holds_def keeps_panic)

lemma kept_push_defer [keeps_intros]: "kept ps sz mode (push_defer d)"
  unfolding push_defer_def by (intro keeps_intros) (simp add: o_holding_def)

lemmas kept_runs [keeps_intros] =
  kept_run [of _ _ _ OCreateBad, unfolded osql.simps oargs.simps] kept_run [of _ _ _ ODeleteMulti, unfolded osql.simps oargs.simps]
  kept_run [of _ _ _ "OFillTail a b" for a b, unfolded osql.simps oargs.simps]
  kept_run [of _ _ _ "ODeleteLock p" for p, unfolded osql.simps oargs.simps]
  kept_query [of _ _ _ OMultiBad, unfolded osql.simps oargs.simps] kept_query [of _ _ _ OPageData, unfolded osql.simps oargs.simps]

lemma kept_first_hash [keeps_intros]: "kept ps sz mode (first_hash E)"
  unfolding first_hash_def
  by (rule keeps_seq, intro keeps_intros, rule keeps_cond, rule keeps_seq, intro keeps_intros, rule kept_prepare_bind,
      rule keeps_seq, rule keeps_modify, simp add: o_holding_def holds_def, rule keeps_seq, intro keeps_intros, rule kept_prepare_bind)
    (intro keeps_intros; simp add: o_holding_def holds_def)

lemma kept_match [keeps_intros]: "kept ps sz mode (match_single E h)" "kept ps sz mode (match_multi E h)"
  "kept ps sz mode (record_mismatch E)"
proof -
  show "kept ps sz mode (match_single E h)" "kept ps sz mode (record_mismatch E)"
    unfolding match_single_def record_mismatch_def
    by (rule keeps_gets_bind, simp only: prod.case, intro keeps_intros kept_stmt_calls; simp add: o_holding_def)+
  have m: "kept ps sz mode (seq (try_val (prepare E checkHashNSQL)) (\<lambda>st. seq (modify (\<lambda>s. s\<lparr>pCkHashN := Some st\<rparr>)) (\<lambda>_.
      push_defer (CloseStmt st))))"
    by (rule kept_prepare_bind) (intro keeps_intros; simp add: o_holding_def holds_def)
  show "kept ps sz mode (match_multi E h)"
    unfolding match_multi_def
    by (rule keeps_seq, intro keeps_intros, rule keeps_seq, rule keeps_cond, rule m, rule keeps_gets_bind, simp only: prod.case,
        intro keeps_intros kept_stmt_calls; simp add: o_holding_def)
qed

lemma kept_origin_step: "kept ps sz mode (origin_step E)"
proof -
  have rows: "kept ps sz mode (modify (\<lambda>s. s\<lparr>openRows := x\<rparr>))" for x by (intro keeps_intros) (simp add: o_holding_def)
  have d: "kept ps sz mode (send_details E)"
    unfolding send_details_def rows_loop_def send_detail_def by (intro keeps_intros rows)
  have p: "kept ps sz mode (send_pages E)"
    unfolding send_pages_def rows_loop_def send_page_def fill_tail_def
    by (intro keeps_intros rows; simp add: o_holding_def)
  show ?thesis
    unfolding origin_step_def origin_handle_def on_replica_begin_def send_begin_def on_replica_config_def on_replica_hash_def
      on_replica_ready_def
    by (intro keeps_intros d p; simp add: o_holding_def next_range_def Let_def)
qed

end

end
