(* ===== verification/FaultProps.thy ===== *)
theory FaultProps
  imports OriginFaults SafetyProps
begin

text \<open>
  The properties of the databases under faults: of any engine that may fail at any call, any peer and any
  streams.
\<close>

section \<open>The replica's file\<close>

lemma replica_start_holding: "holding rdb_of (file_is (r_file (rdb_of w))) (replica_start (newRsync cctx i out opts w once x) path)"
  by (simp add: holding_def file_is_def start_defs split: prod.splits)

lemma Replica_state: "snd (Replica E cctx i out path opts w once x) =
    snd (replicaSide E (replica_start (newRsync cctx i out opts w once x) path))"
  by (simp add: Replica_def split: prod.splits outcome.splits)

text \<open>
  C15 (without ORIGIN_TXN the file stays as it was). A call of Replica that takes no ORIGIN_TXN message has
  not changed the file when it ends, whichever way it ends: an error of any statement, a broken stream, a
  message out of order, even a panic.
\<close>

theorem replica_no_txn_no_change:
  assumes "replica_engine E rdb_of"
    and "\<not> run_takes_txn E (replica_start (newRsync cctx i out opts w once x) path)"
  shows "r_file (rdb_of (world (snd (Replica E cctx i out path opts w once x)))) = r_file (rdb_of w)"
  using replica_engine.side_keeps_file [OF assms replica_start_holding] unfolding Replica_state
  by (simp add: holding_def file_is_def)

lemma given_next:
  assumes "replica_prologue E s = (Val (), t)" "rs_r t = rs_r s" "r_live (rs_r s)" "r_avail (rs_r s) = c # rest"
  obtains u where "next_message t = (Val c, u)" "rdb_of (world u) = rdb_of (world t)"
proof -
  have "wpo next_message (\<lambda>r u. r = Val c \<and> world u = world t) t"
    by (rule wpo_next_message) (use assms in simp_all)
  with that show thesis by (auto simp: wpo_def split: prod.splits)
qed

theorem replica_no_txn_no_change_witness:
  "r_file (world (snd (Replica ref_replica None (given [[0x58]]) demo_out ''copy.db'' None demo_rdb False None))) = r_file demo_rdb"
proof (rule replica_no_txn_no_change [where rdb_of = "\<lambda>w. w"])
  show "replica_engine ref_replica (\<lambda>w. w)" by (rule ref_replica.replica_engine_axioms)
  let ?s = "replica_start (newRsync None (given [[0x58]]) demo_out None demo_rdb False None) ''copy.db''"
  obtain t where t: "replica_prologue ref_replica ?s = (Val (), t)" "rs_r t = rs_r ?s"
    by (rule demo_r_prologue [OF given_start(1-6)])
  obtain u where u: "next_message t = (Val 0x58, u)"
    by (rule given_next [OF t]) (simp_all add: given_start)
  have "replica_handle ref_replica 0x58 = fail ReplicaError (unknown_message 0x58)"
    by (simp add: replica_handle_def msg_byte_defs)
  then have "fst (replica_handle ref_replica 0x58 u) \<noteq> Val ()"
    by (simp add: fail_def write_error_def w_op_def seq_def stop_def split: prod.splits)
  then have "(case replica_handle ref_replica 0x58 u of (Val _, v) \<Rightarrow> takes_txn ref_replica n v | _ \<Rightarrow> False) = False" for n
    by (auto split: prod.splits outcome.splits)
  then have "\<not> takes_txn ref_replica (Suc n) t" for n using u by (simp add: msg_byte_defs)
  with t(1) show "\<not> run_takes_txn ref_replica ?s" by (simp add: run_takes_txn_def)
qed

text \<open>
  C16 (a transaction is applied as a whole or not at all). Whatever fails while an ORIGIN_TXN is handled,
  the file is exactly the old one or it is what the connection shows, cut at the announced count when pages
  were received, with the stamp of the commit in bytes 24 to 27 and 92 to 99 of page 1; and when the handler
  goes on, it is the latter. Without the operand nothing is changed.
\<close>

theorem replica_txn_faults:
  assumes "replica_engine E rdb_of" and "on_origin_txn E s = (r, t)"
    and "pIns s = None \<or> holds (pIns s) insertPageSQL"
  shows "(\<exists>n u. rd_u32 s = (Val n, u) \<and> txn_done rdb_of s n r t) \<or>
    r_file (rdb_of (world t)) = r_file (rdb_of (world s)) \<and> r \<noteq> Val ()"
  by (rule replica_engine.txn_effect [OF assms])

text \<open>A replica in the middle of a run, with some input to come.\<close>

definition mid_rdb :: rdb where
  "mid_rdb = demo_rdb\<lparr>r_attached := True, r_txn := True, r_work := r_file demo_rdb\<rparr>"

definition mid_r :: "bytes \<Rightarrow> rdb replica" where
  "mid_r d = (replica_start (newRsync None (given [d]) demo_out None mid_rdb False None) ''copy.db'')
     \<lparr>db := True, isReplica := True, pageSize := 32, jMode := 1\<rparr>"

lemma mid_r_fields: "world (mid_r d) = mid_rdb" "pIns (mid_r d) = None" "pageSize (mid_r d) = 32" "jMode (mid_r d) = 1"
  "r_live (rs_r (mid_r d))" "r_avail (rs_r (mid_r d)) = d"
  by (simp_all add: mid_r_def given_def start_defs NewReader_def r_live_def r_avail_def avail_def background_def)

lemma mid_r_ok: "r_ok (\<lambda>w. w) (mid_r d)" "io_ok (mid_r d)"
  by (simp_all add: r_ok_def io_ok_def mid_r_def mid_rdb_def demo_rdb_def given_def start_defs NewReader_def NewWriter_def
      demo_out_def background_def r_live_def w_live_def bw_live_def w_ok_def w_buf_def)

theorem replica_txn_faults_witness:
  "\<exists>r t. on_origin_txn ref_replica (mid_r (put_u32 1)) = (r, t) \<and> txn_done (\<lambda>w. w) (mid_r (put_u32 1)) 1 r t"
proof -
  let ?s = "mid_r (put_u32 1)"
  obtain r t where t: "on_origin_txn ref_replica ?s = (r, t)" by fastforce
  have "wpo rd_u32 (\<lambda>r _. r = Val 1) ?s"
    by (rule wpo_rd_u32 [where x = 1 and rest = "[]"]) (simp_all add: mid_r_fields)
  then obtain u where "rd_u32 ?s = (Val 1, u)" by (auto simp: wpo_def split: prod.splits)
  with replica_txn_faults [OF ref_replica.replica_engine_axioms t] t show ?thesis
    by (auto simp: mid_r_fields txn_done_def)
qed

text \<open>
  C17 (an accepted page is the page that was sent). When the handler of ORIGIN_PAGE goes on, over an engine
  that may otherwise fail, the input was a page number and as many bytes as a page has, and the connection
  shows the former pages with exactly this one in place; of a page 1 that says 1 in byte 18, in a replica
  in WAL mode, bytes 18 and 19 are 2 instead and the others are as received. The file is as it was.
\<close>

theorem replica_page_received:
  assumes "replica_engine E rdb_of" and "replica_handle E OriginPage s = (Val (), t)"
    and "pIns s = None \<or> holds (pIns s) insertPageSQL"
  shows "page_written rdb_of s t \<and> r_file (rdb_of (world t)) = r_file (rdb_of (world s))"
proof
  from assms(2) have "on_origin_page E s = (Val (), t)" by (simp add: replica_handle_def msg_byte_defs)
  then show "page_written rdb_of s t" by (rule replica_engine.page_effect [OF assms(1) _ assms(3)])
  have "holding rdb_of (file_is (r_file (rdb_of (world s)))) s" using assms(3) by (simp add: holding_def file_is_def)
  from keepsD [OF replica_engine.keeping_handle [OF assms(1), of OriginPage] this] assms(2)
  show "r_file (rdb_of (world t)) = r_file (rdb_of (world s))" by (simp add: holding_def file_is_def msg_byte_defs)
qed

theorem replica_page_received_witness:
  "\<exists>s t. replica_handle ref_replica OriginPage s = (Val (), t) \<and> page_written (\<lambda>w. w) s t"
proof -
  let ?d = "1 # replicate 31 0 :: bytes"
  let ?s = "mid_r (enc_omsg (MPage 1 ?d))"
  have "r_ready (r_abs (\<lambda>w. w) ?s) (MPage 1 ?d)"
    by (simp add: on_page_def r_abs_def mid_r_fields kept_wal_def mid_rdb_def demo_rdb_def)
  then have "wpo (replica_step ref_replica) (\<lambda>r _. r = Val ()) ?s"
    by (intro wpo_mono [OF ref_replica.step_page [OF mid_r_ok, where rest = "[]"]])
      (simp_all add: mid_r_fields r_taken_def del: r_ready.simps enc_omsg.simps)
  then obtain v where v: "replica_step ref_replica ?s = (Val (), v)" by (auto simp: wpo_def split: prod.splits)
  have "wpo next_message (\<lambda>r u. r = Val OriginPage \<and> pIns u = None) ?s"
    by (rule wpo_next_message [where rest = "put_u32 1 @ ?d"]) (simp_all add: mid_r_fields)
  then obtain u where u: "next_message ?s = (Val OriginPage, u)" "pIns u = None" by (auto simp: wpo_def split: prod.splits)
  with v have h: "replica_handle ref_replica OriginPage u = (Val (), v)" by (simp add: replica_step_def seq_def)
  from replica_page_received [OF ref_replica.replica_engine_axioms h] u h show ?thesis by blast
qed

section \<open>The origin's pages\<close>

text \<open>
  C18 (the origin is read only). However many messages the origin handles and whatever fails, its pages,
  page size and journal mode are the ones from before.
\<close>

theorem origin_read_only:
  assumes "origin_engine E odb_of" and "o_typed s"
    and "(\<lambda>s t. origin_step E s = (Val (), t))\<^sup>*\<^sup>* s t" and "origin_step E t = (r, u)"
  shows "o_pages (odb_of (world u)) = o_pages (odb_of (world s)) \<and> o_psize (odb_of (world u)) = o_psize (odb_of (world s)) \<and>
    o_mode (odb_of (world u)) = o_mode (odb_of (world s))"
proof -
  let ?P = "o_holding odb_of (content_is (o_pages (odb_of (world s))) (o_psize (odb_of (world s))) (o_mode (odb_of (world s))))"
  note keep = keepsD [OF origin_engine.kept_origin_step [OF assms(1)]]
  have "?P s" using assms(2) by (auto simp: o_holding_def content_is_def o_typing)
  with assms(3) have "?P t"
  proof (induction rule: rtranclp_induct)
    case (step y z)
    from keep [OF step.IH [OF step.prems]] step.hyps(2) show ?case by simp
  qed
  from keep [OF this] assms(4) show ?thesis by (simp add: o_holding_def content_is_def)
qed

theorem origin_read_only_witness:
  "\<exists>s r u. origin_prologue ref_origin demo_o = (Val (), s) \<and> origin_step ref_origin s = (r, u) \<and>
     o_pages (world u) = o_pages (world s)"
proof -
  obtain s where s: "origin_prologue ref_origin demo_o = (Val (), s)" by (rule demo_prologue)
  from safeD [OF typed_origin_prologue origin_start_closed s [unfolded demo_o_def]] have "o_typed s" by simp
  moreover obtain r u where "origin_step ref_origin s = (r, u)" by fastforce
  ultimately show ?thesis
    using origin_read_only [OF ref_origin.origin_engine_axioms _ rtranclp.rtrancl_refl, of s r u] s by blast
qed

end
