(* ===== verification/AgreementProps.thy ===== *)
theory AgreementProps
  imports Refusals Negotiation FaultProps
begin

text \<open>
  The properties of how the two sides come to an agreement or fail to: the protocol version, what is
  refused and with what message, how an error of one side becomes the error of the other, and that the
  only two statements built from run-time values mean what they are meant to.
\<close>

section \<open>The protocol version\<close>

text \<open>
  C11 (the older protocol is used). When both sides have returned they report the same protocol version, the
  smaller of the two the options ask for; a request other than 1 or 2 means 2, the latest.
\<close>

theorem protocol_negotiated:
  assumes "so = origin_start (newRsync c1 i1 out1 opts1 w1 b1 e1) path1"
    and "sr = replica_start (newRsync c2 i2 out2 opts2 w2 b2 e2) path2"
    and "sound_origin_engine E1 odb_of" and "sound_replica_engine E2 rdb_of" and "sync_setting odb_of rdb_of so sr"
    and "(sync_step E1 E2)\<^sup>*\<^sup>* (sync_start so sr) x" and "o_at x = Finished None" "r_at x = Finished None"
  shows "st_Protocol (stats (s_o x)) = min (requested opts1) (requested opts2) \<and>
    st_Protocol (stats (s_r x)) = min (requested opts1) (requested opts2)"
proof -
  have "protocol so = requested opts1" "protocol sr = requested opts2"
    by (simp_all add: assms(1,2) newRsync_protocol origin_start_def replica_start_def rsync.extend_def rsync.truncate_def)
  with sync_engines.finished_protocol [OF sync_engines.intro [OF assms(3,4)] assms(5-8)] show ?thesis by simp
qed

theorem protocol_negotiated_witness:
  "\<exists>x. (sync_step ref_origin ref_replica)\<^sup>*\<^sup>* (sync_start demo_o demo_r) x \<and> st_Protocol (stats (s_r x)) = 2"
proof -
  obtain x where x: "(sync_step ref_origin ref_replica)\<^sup>*\<^sup>* (sync_start demo_o demo_r) x"
    "o_at x = Finished None" "r_at x = Finished None" by (rule demo_finished)
  from protocol_negotiated [OF demo_o_def demo_r_def demo_engines demo_setting x] x(1)
  show ?thesis by (auto simp: requested_def)
qed

section \<open>Errors between the sides\<close>

text \<open>
  C21 (an error reaches the other side). The error that one side reports through \<open>WriteError\<close>, with a text
  of up to 1 MiB, is what the peer's next step returns, under the name of the side it came from, and the
  peer writes nothing and leaves its database alone.
\<close>

theorem error_reaches_peer:
  assumes "w_live w" and "length t \<le> 2 ^ 20"
    and "WriteError w ReplicaError t = (w1, e1)" and "r_live (rs_r s)"
    and "r_avail (rs_r s) = drop (length (w_queued w)) (w_sent w1)" and "origin_step E s = (r, s1)"
    and "WriteError w OriginError t = (w2, e2)" and "r_live (rs_r s')"
    and "r_avail (rs_r s') = drop (length (w_queued w)) (w_sent w2)" and "replica_step E' s' = (r', s2)"
  shows "e1 = JoinErr [ErrText t] \<and> e2 = e1 \<and>
    r = Return (Some (ErrText (''sqlitersync: replica: '' @ t))) \<and> rs_w s1 = rs_w s \<and> world s1 = world s \<and>
    r' = Return (Some (ErrText (''sqlitersync: origin: '' @ t))) \<and> rs_w s2 = rs_w s' \<and> world s2 = world s'"
proof -
  from WriteError_live [OF assms(1)] assms(3,7)
  have w: "e1 = JoinErr [ErrText t]" "e2 = e1" "w_sent w1 = w_queued w @ frame ReplicaError (bytes_of t)"
    "w_sent w2 = w_queued w @ frame OriginError (bytes_of t)"
    by (metis prod.inject)+
  have l: "length (bytes_of t) \<le> 2 ^ 20" using assms(2) by simp
  from wpoD [OF origin_peer_error [OF assms(4), where d = "bytes_of t" and rest = "[]"] assms(6)]
    wpoD [OF replica_peer_error [OF assms(8), where d = "bytes_of t" and rest = "[]"] assms(10)] assms(5,9) w l
  show ?thesis by (simp add: peer_error_def)
qed

lemma demo_writer: "w_live (NewWriter demo_out)" "w_queued (NewWriter demo_out) = []"
  by (simp_all add: w_live_def bw_live_def NewWriter_def demo_out_def background_def w_queued_def queued_def w_ok_def)

theorem error_reaches_peer_witness:
  "\<exists>s. fst (replica_step ref_replica s) = Return (Some (ErrText (''sqlitersync: origin: disk full'')))"
proof -
  let ?w = "NewWriter demo_out" and ?t = "''disk full''"
  obtain w1 e1 where w1: "WriteError ?w ReplicaError ?t = (w1, e1)" by fastforce
  obtain w2 e2 where w2: "WriteError ?w OriginError ?t = (w2, e2)" by fastforce
  let ?s = "demo_o\<lparr>rs_r := NewReader (given [w_sent w1])\<rparr>" and ?s' = "demo_r\<lparr>rs_r := NewReader (given [w_sent w2])\<rparr>"
  have r: "r_live (rs_r ?s)" "r_avail (rs_r ?s) = drop (length (w_queued ?w)) (w_sent w1)"
    "r_live (rs_r ?s')" "r_avail (rs_r ?s') = drop (length (w_queued ?w)) (w_sent w2)"
    by (simp_all add: NewReader_def given_def r_live_def r_avail_def avail_def background_def demo_writer)
  obtain x u where x: "origin_step ref_origin ?s = (x, u)" by fastforce
  obtain y v where y: "replica_step ref_replica ?s' = (y, v)" by fastforce
  from error_reaches_peer [OF demo_writer(1) _ w1 r(1,2) x w2 r(3,4) y] y show ?thesis
    by (intro exI [of _ ?s']) simp
qed

section \<open>Refusals\<close>

text \<open>
  C23 (foreign messages are refused). A message byte that is not one of the peer's, and a REPLICA_BEGIN that
  proposes no older protocol, are answered at once by an error frame and end the run with its text as error;
  the database is not touched.
\<close>

theorem messages_refused:
  assumes "r_live (rs_r s)" "w_live (rs_w s)" "\<not> isReplica s" and "origin_step E s = (r, t)"
    and "r_avail (rs_r s) = c # rest \<and> c \<notin> origin_messages \<and> m = unknown_message c \<or>
      r_avail (rs_r s) = ReplicaBegin # p # rest \<and> protocol s \<le> int (unat p) \<and> m = ''Invalid REPLICA_BEGIN reply''"
    and "r_live (rs_r s')" "w_live (rs_w s')" and "replica_step E' s' = (r', t')"
    and "r_avail (rs_r s') = c' # rest'" "c' \<notin> replica_messages"
  shows "refused OriginError m s r t \<and> world t = world s \<and>
    refused ReplicaError (unknown_message c') s' r' t' \<and> world t' = world s'"
proof -
  have "refused OriginError m s r t \<and> world t = world s"
    using assms(5) wpoD [OF origin_refuses_message [OF assms(1-3)] assms(4)] wpoD [OF origin_refuses_proposal [OF assms(1-3)] assms(4)]
    by blast
  moreover have "refused ReplicaError (unknown_message c') s' r' t' \<and> world t' = world s'"
    by (rule wpoD [OF replica_refuses_message [OF assms(6,7,9,10)] assms(8)])
  ultimately show ?thesis by blast
qed

theorem messages_refused_witness:
  "\<exists>s r t. origin_step ref_origin s = (r, t) \<and> refused OriginError ''Invalid REPLICA_BEGIN reply'' s r t"
proof -
  let ?s = "demo_o\<lparr>rs_r := NewReader (given [[ReplicaBegin, 7]])\<rparr>" and ?s' = "demo_r\<lparr>rs_r := NewReader (given [[0x58]])\<rparr>"
  have r: "r_live (rs_r ?s)" "w_live (rs_w ?s)" "\<not> isReplica ?s" "r_live (rs_r ?s')" "w_live (rs_w ?s')" "r_avail (rs_r ?s') = [0x58]"
    "r_avail (rs_r ?s) = ReplicaBegin # 7 # []" "protocol ?s = 2"
    using demo_streams
    by (simp_all add: streams_fresh_def NewReader_def given_def r_live_def r_avail_def avail_def background_def demo_o_def start_defs ProtocolVersion_def)
  obtain x u where x: "origin_step ref_origin ?s = (x, u)" by fastforce
  obtain y v where y: "replica_step ref_replica ?s' = (y, v)" by fastforce
  have "(0x58 :: byte) \<notin> replica_messages" by (simp add: replica_messages_def msg_byte_defs)
  moreover have "protocol ?s \<le> int (unat (7 :: byte))" using r(8) by simp
  ultimately show ?thesis
    using messages_refused [OF r(1-3) x _ r(4,5) y r(6)] x r(7) by blast
qed

text \<open>
  C22 (databases that do not fit are refused). Over any sound engine: an origin that is required to be in WAL
  mode and is not; a replica that is required to and is not; and a replica whose page size, once opened,
  is not the origin's: each side says so in an error frame, returns the same text, and leaves its file.
\<close>

theorem databases_refused:
  assumes "sound_origin_engine E odb_of" and "fresh_run s" "w_live (rs_w s)" "\<not> commCheck s" "walOnly s"
    and "o_mode (odb_of (world s)) \<noteq> ''wal''" and "origin_prologue E s = (r, t)"
    and "sound_replica_engine E' rdb_of" and "r_ok rdb_of s'" "io_ok s'" and "pow2_size sz" "int (unat p) \<le> protocol s'"
    and "r_avail (rs_r s') = enc_omsg (MBegin p sz n) @ rest" and "d = opened sz (rdb_of (world s'))" "length (r_work d) < 2 ^ 32"
    and "r_mode d \<noteq> ''wal'' \<and> walOnly s' \<and> r_file d \<noteq> [] \<and> m = ''replica is not in WAL mode'' \<or>
      (r_mode d = ''wal'' \<or> \<not> walOnly s' \<or> r_file d = []) \<and> r_psize d \<noteq> sz \<and> 0 \<le> r_psize d \<and> r_psize d < 2 ^ 32 \<and>
        m = size_mismatch sz (word_of_int (r_psize d))"
    and "replica_step E' s' = (r', t')"
  shows "refused OriginError ''Origin database is not in WAL mode'' s r t \<and>
    o_pages (odb_of (world t)) = o_pages (odb_of (world s)) \<and>
    refused ReplicaError m s' r' t' \<and> r_file (rdb_of (world t')) = r_file (rdb_of (world s'))"
proof -
  have "wpo (replica_step E') (\<lambda>r u. refused ReplicaError m s' r u \<and> rdb_of (world u) = d) s'"
  proof (rule sound_replica_engine.wpo_begin_accepted [OF assms(8-13)])
    fix w q assume w: "rdb_of w = r_close (rdb_of (world s'))"
    let ?s = "s'\<lparr>world := w, db := False, pIns := None, rs_r := q, protocol := int (unat p), pageCount := n, pageSize := sz\<rparr>"
    note ok = assms(9) [unfolded r_ok_def]
    have d: "d = opened (pageSize ?s) (rdb_of (world ?s))" using assms(14) by (simp add: w)
    have s: "openRows ?s = None" "\<not> wrongEnc ?s" "replicaPath ?s = r_path (rdb_of (world ?s))" "w_live (rs_w ?s)"
      using ok assms(10) by (simp_all add: w r_close_def io_ok_def)
    have f: "length (r_file d) < 2 ^ 32" using assms(15) by (simp add: assms(14) opened_def Let_def r_close_def split: if_splits)
    from assms(16) have "wpo (open_replica E') (\<lambda>r u. refused ReplicaError m ?s r u \<and> rdb_of (world u) = d) ?s"
      using sound_replica_engine.refuses_rollback_mode [OF assms(8) s d f] sound_replica_engine.refuses_page_size [OF assms(8) s d assms(15)]
      by fastforce
    then show "wpo (open_replica E') (\<lambda>r u. refused ReplicaError m s' r u \<and> rdb_of (world u) = d) ?s"
      by (simp add: refused_def)
  qed
  from wpoD [OF this assms(17)] assms(14) have "refused ReplicaError m s' r' t'" "r_file (rdb_of (world t')) = r_file (rdb_of (world s'))"
    by simp_all
  with wpoD [OF sound_origin_engine.refuses_origin_mode [OF assms(1-6)] assms(7)] show ?thesis by simp
qed

lemma demo_sixty_four:
  "r_psize (opened 64 demo_rdb) = 32" "r_work (opened 64 demo_rdb) = r_file demo_rdb" "r_mode (opened 64 demo_rdb) = ''wal''"
  "r_close demo_rdb = demo_rdb"
  by (simp_all add: opened_def r_close_def demo_rdb_def Let_def)

theorem databases_refused_witness:
  "\<exists>s' r' t'. replica_step ref_replica s' = (r', t') \<and> refused ReplicaError (size_mismatch 64 32) s' r' t' \<and>
     r_file (world t') = r_file (world s')"
proof -
  let ?s = "demo_o\<lparr>world := demo_odb\<lparr>o_mode := ''delete''\<rparr>\<rparr>"
  let ?s' = "demo_r\<lparr>rs_r := NewReader (given [enc_omsg (MBegin 2 64 1)]), isReplica := True\<rparr>"
  have o: "fresh_run ?s" "w_live (rs_w ?s)" "\<not> commCheck ?s" "walOnly ?s" "o_mode (world ?s) \<noteq> ''wal''"
    using demo_fresh(1) demo_streams(1) demo_fields by (simp_all add: fresh_run_def streams_fresh_def)
  obtain r t where r: "origin_prologue ref_origin ?s = (r, t)" by fastforce
  obtain r' t' where r': "replica_step ref_replica ?s' = (r', t')" by fastforce
  have q: "r_ok (\<lambda>w. w) ?s'" "io_ok ?s'"
    using demo_streams(2) demo_sixty_four(4)
    by (simp_all add: r_ok_def io_ok_def streams_fresh_def demo_r_def start_defs demo_rdb_def NewReader_def given_def r_live_def background_def)
  have "(64 :: int) = 2 ^ 6" by simp
  then have sz: "pow2_size 64" unfolding pow2_size_def by (intro exI [of _ 6]) simp
  have p: "int (unat (2 :: byte)) \<le> protocol ?s'" by (simp add: demo_r_def start_defs ProtocolVersion_def)
  have a: "r_avail (rs_r ?s') = enc_omsg (MBegin 2 64 1) @ []"
    by (simp add: NewReader_def given_def r_avail_def avail_def del: enc_omsg.simps)
  have len: "length (r_work (opened 64 (world ?s'))) < 2 ^ 32" by (simp add: demo_fields demo_sixty_four) (simp add: demo_rdb_def)
  have "refused ReplicaError (size_mismatch 64 (word_of_int (r_psize (opened 64 (world ?s'))))) ?s' r' t' \<and>
      r_file (world t') = r_file (world ?s')"
    using databases_refused [OF demo_engines(1) o r demo_engines(2) q sz p a refl len _ r'] demo_sixty_four
    by (simp add: demo_fields del: enc_omsg.simps)
  with r' show ?thesis by (intro exI [of _ ?s'] exI [of _ r'] exI [of _ t']) (simp add: demo_fields demo_sixty_four)
qed

section \<open>The two built statements\<close>

text \<open>
  C36 (paths are quoted). Whatever characters the replica's path contains, quotes included, the literal in
  the ATTACH statement reads back, by SQL's rules for string literals, as that path and ends where the
  statement goes on; and the page size in the PRAGMA reads back as the number.
\<close>

theorem sql_literals: "read_attach (attachSQL path) = Some path \<and> read_page_size (setPageSizeSQL n) = Some n"
  by (simp only: read_attach_attachSQL read_page_size_setPageSizeSQL simp_thms)

end
