(* ===== verification/Spec2Isabelle.thy ===== *)
theory Spec2Isabelle
  imports WireProps HashSql HashProps GoldenVectors DeliveryProps AgreementProps
begin

text \<open>
  go-sqlite-rsync is a port of sqlite3_rsync to Go. An origin and a replica run the two halves of a
  protocol over a byte stream, so that the replica's database file becomes a copy of the origin's and
  only the pages that differ travel. The copy is not byte-identical: the replica's commit stamps page 1
  (file change counter, version-valid-for and library version, bytes 24 to 27 and 92 to 99; see
  TestReplicaFullCopy in src/sqlitersync/replica_test.go), and the version bytes 18 and 19 of a replica in
  WAL mode stay 2. This library models the program and proves it correct.

  \<^bold>\<open>The program.\<close> A caller runs \<open>Origin\<close> on one machine and \<open>Replica\<close> on the other
  (src/sqlitersync/sync.go), each with an \<open>io.ReadWriter\<close> that leads to the other. Both build a run
  state (\<open>rsync\<close>, src/sqlitersync/sql.go) around a wire reader and writer (src/wire/wire.go) over a
  context-checked stream, and enter a loop over the peer's messages (src/sqlitersync/origin.go and
  replica.go). The origin announces its page count and size. The replica attaches its file, begins a
  transaction and sends hashes of its pages, in chunks of up to 1000 (src/sqlitersync/subdivide.go). The
  origin compares each hash with its own pages by the SQL functions hash and agghash
  (src/hash/sql.go, over the engine of src/hash/hash.go), collects the ranges that differ, asks for finer
  hashes of them, and finally sends the differing pages, the pages past the replica's end and the
  commit message.

  \<^bold>\<open>The model.\<close> One theory per part, in the order of the calls:
  \<^item> Prelude: Go's error values and \<open>fmt\<close> verbs, and the sequencing calculus \<open>gom\<close>: a computation takes
    a state to an outcome (\<open>Val\<close>, \<open>Return\<close> with an error or nil, \<open>Panic\<close>) and a state. Every early
    return and every panic of the code is a branch.
  \<^item> GoIO: \<open>ctxStream\<close> and Go's \<open>bufio\<close> and \<open>io.ReadFull\<close> on it. An input stream is the list of chunks its
    reads return and the error it ends with, an output stream the plan of its failures.
  \<^item> Wire: every method of \<open>wire.Reader\<close> and \<open>wire.Writer\<close>, with the byte counters and every error.
  \<^item> Keccak, Hash: \<open>keccakF1600Step\<close> assignment by assignment, \<open>HashInit\<close>, \<open>HashUpdate\<close>, \<open>HashFinal\<close>.
  \<^item> HashSql: \<open>hashFunc\<close>, the aggregate \<open>agghash\<close>, \<open>Register\<close>.
  \<^item> Sql: what the code uses of database/sql (nil connection, pool of one, \<open>Rows\<close>, \<open>Stmt\<close>, \<open>Scan\<close>), around
    the parameter \<open>env\<close>: SQLite, its driver and the file system, as functions on a world of any type.
  \<^item> Rsync, Subdivide, Origin, Replica: the run state and its methods, and each role function with one
    definition per message handler (\<open>on_replica_hash\<close>, \<open>on_origin_page\<close>, ...), composed by \<open>origin_step\<close> and
    \<open>replica_step\<close> (one iteration), \<open>origin_loop\<close> and \<open>replica_loop\<close>, \<open>originSide\<close> and \<open>replicaSide\<close>
    with the calls they defer, and the entry points \<open>Origin\<close> and \<open>Replica\<close>.
  \<^item> Database: the documented meaning of the statements on a database as a list of pages, and what an
    engine must satisfy, as locales. \<open>origin_engine\<close> and \<open>replica_engine\<close> constrain successful replies
    only, so the engine may fail at any call; \<open>sound_origin_engine\<close> and \<open>sound_replica_engine\<close> add that
    a statement with a meaning succeeds. COMMIT is a relation (\<open>commits\<close>): the file and the connection
    then show the pages of the transaction, \<open>restamped\<close>, that is with any values in the stamped bytes of
    page 1; a COMMIT that fails leaves the old file or such a new one. Reference interprets all locales
    with an engine that reads the SQL text back and executes it, and counts commits in the stamp.
  \<^item> Protocol: the abstract specification, the roles on databases and messages, with the edit of page 1
    written out byte by byte (\<open>kept_wal\<close>) and the history of what the origin has sent (\<open>said\<close>). Sync: the two role
    functions as processes with two byte streams between them, any interleaving, any chunks. Pipe: the same
    over streams that buffer nothing, where a write waits for the peer's reads.

  \<^bold>\<open>The properties.\<close>
  \<^item> SyncProps (over sound engines): correctness of the result, atomicity, termination, no deadlock,
    the refinement of Protocol, minimality (the ORIGIN_PAGEs sent are the pages that differ, each once) and
    the statistics. What is said of the file is said up to the stamp: \<open>restamped (copy_of ...) file\<close>. They
    rest on Convergence (the invariant of the abstract system, for any pages whose hashes do not collide,
    and that of the history), Refine, OriginRefine and
    ReplicaRefine (each handler implements its abstract step), Progress and EndToEnd. Replay and Adequacy
    show that the processes are single calls of the code's functions and that loops end; Pipe that the
    exchange is half-duplex, so that roles that block in writes do not wait for each other.
  \<^item> SafetyProps (any environment, any peer, any stream): the state of a role is well typed and a call
    returns; the panics that remain are stated and two of them are exhibited; a call that returns has
    closed what it opened. Typing and ReplicaTyping hold the judgement \<open>safe\<close> and its rules, Resources
    the ownership of connections, rows and statements by deferred calls, and the run in which it fails.
  \<^item> FaultProps (engines that may fail at every call): the replica's file changes by COMMIT only and as a
    whole (up to the stamp), the origin's pages never. Faults and OriginFaults hold the invariants.
  \<^item> DeliveryProps: the pieces of the input do not matter (Chunks); a cancelled context ends the run
    (Streams, whose locale says what a whole call preserves of its streams, and Cancel); nothing is held
    back in a write buffer (Flushing).
  \<^item> AgreementProps: the protocol version (Negotiation), refusals and the way of an error to the peer
    (Refusals), and the two statements built at run time (Reference).
  \<^item> WireProps, HashProps, GoldenVectors, HashSql, Subdivide: the layers below, each against a reference:
    field lists, FIPS 202 step mappings and sponge, golden vectors evaluated in the kernel (KeccakEval), the digest
    of a concatenation, the pages of a range.

  \<^bold>\<open>Bounds.\<close> The loop of a role is unrolled once more than there are bytes to come; each iteration
  consumes one, so the bound is never met (\<open>sides_end\<close>). \<open>io.ReadFull\<close> and \<open>bufio.Writer.Write\<close> recurse on
  measures that every call decreases. Integers have the code's width (\<open>u32\<close>, \<open>u64\<close>, bytes; Go's int is
  64 bits wide and an \<open>int\<close> where its values are bounded by the code).

  \<^bold>\<open>Assumptions.\<close> Properties of a synchronisation assume sound engines and a \<open>setting\<close>: files of
  fewer than 2^32 - 1 pages of one size whose lock-byte page is unused, page counts recorded in page 1,
  and no collision of the hash among the ranges compared. Each such property has a witness on a run of the
  reference engine. Nothing is assumed of the peer, the streams or the engine in SafetyProps
  and DeliveryProps, and of the engine in FaultProps only what a successful statement does. Nothing is
  assumed of the stamp a commit leaves, so nothing is said of those bytes of page 1; a run that finds
  nothing to send commits as well, and its file is the old one up to the stamp.

  \<^bold>\<open>Not modelled.\<close> src/sqlitersync/doc.go is documentation only. src/testdata/*.go are development tools
  that download sources and run the C reference: their work is network, process and file operations.
  SQLite, its Go driver and the file system are not in the repository. A transport is its
  behaviour (chunks, failures) and, in Pipe, the blocking of writes; the scheduling of goroutines is any
  interleaving of turns. Go's \<open>%q\<close> of the commcheck diagnostic is a parameter.
\<close>

end
